(* ===== verification/Prelude.thy ===== *)
theory Prelude imports Main "HOL-Library.Word" begin

text \<open>
  Shared vocabulary of the development: the C integer types the program uses at their machine
  widths, the faults that stand for undefined behaviour of the C code, the result type of every
  operation that can run into such a fault, and the weakest-precondition operator \<open>safe\<close> with
  which the component theories state that an operation neither faults nor breaks its contract.
  The byte-level lemmas on lists and words at the end are used by the packet, hash and chunk
  theories.
\<close>

unbundle bit_operations_syntax

named_theorems result_simps "weakest preconditions of faulting operations"
named_theorems wire_simps "byte layout of values in memory and on the wire"

type_synonym byte = "8 word"
type_synonym c_short = "16 word"
type_synonym c_int = "32 word"
type_synonym c_long = "64 word"

text \<open>A string literal of the source, without its terminating zero.\<close>

definition ascii :: "string \<Rightarrow> byte list" where
  "ascii = map of_char"

section \<open>Faults and results\<close>

text \<open>
  A fault is an execution of the C program that has no defined result: a read or write through a
  freed or null pointer, a write past the end of an allocated buffer, a read of a field that was
  never written, or a pointer loop over a cyclic list that never ends.
\<close>

datatype fault =
    Use_After_Free
  | Null_Dereference
  | Buffer_Overflow
  | Uninitialised_Read
  | Endless_Loop

type_synonym 'a result = "fault + 'a"

text \<open>Sequencing: the first fault ends the execution.\<close>

definition andThen :: "'a result \<Rightarrow> ('a \<Rightarrow> 'b result) \<Rightarrow> 'b result" where
  "andThen m f = (case m of Inl e \<Rightarrow> Inl e | Inr v \<Rightarrow> f v)"

lemma andThen_Inr [simp]: "andThen (Inr v) f = f v"
  by (simp add: andThen_def)

lemma andThen_Inl [simp]: "andThen (Inl e) f = Inl e"
  by (simp add: andThen_def)

lemma andThen_assoc: "andThen (andThen m f) g = andThen m (\<lambda>v. andThen (f v) g)"
  by (simp add: andThen_def split: sum.split)

lemma andThen_eq_Inr: "andThen m f = Inr r \<longleftrightarrow> (\<exists>v. m = Inr v \<and> f v = Inr r)"
  by (cases m) auto

lemma andThen_cong: "m = m' \<Longrightarrow> (\<And>v. m' = Inr v \<Longrightarrow> f v = g v) \<Longrightarrow> andThen m f = andThen m' g"
  by (cases m') auto

text \<open>\<open>safe m P\<close>: the operation \<open>m\<close> does not fault and its result satisfies \<open>P\<close>.\<close>

definition safe :: "'a result \<Rightarrow> ('a \<Rightarrow> bool) \<Rightarrow> bool" where
  "safe m P = (case m of Inl e \<Rightarrow> False | Inr v \<Rightarrow> P v)"

lemma safe_Inr [simp, result_simps]: "safe (Inr v) P \<longleftrightarrow> P v"
  by (simp add: safe_def)

lemma safe_Inl [simp, result_simps]: "safe (Inl e) P \<longleftrightarrow> False"
  by (simp add: safe_def)

lemma safe_andThen [result_simps]: "safe (andThen m f) P \<longleftrightarrow> safe m (\<lambda>v. safe (f v) P)"
  by (cases m) auto

lemma safe_if [result_simps]:
  "safe (if b then m else m') P \<longleftrightarrow> (if b then safe m P else safe m' P)"
  by simp

lemma safe_mono: "safe m P \<Longrightarrow> (\<And>v. m = Inr v \<Longrightarrow> P v \<Longrightarrow> Q v) \<Longrightarrow> safe m Q"
  by (cases m) auto

lemma safe_conj: "safe m P \<Longrightarrow> safe m Q \<Longrightarrow> safe m (\<lambda>v. P v \<and> Q v)"
  by (cases m) auto

lemma safeE: "safe m P \<Longrightarrow> (\<And>v. m = Inr v \<Longrightarrow> P v \<Longrightarrow> thesis) \<Longrightarrow> thesis"
  by (cases m) auto

lemma safe_iff: "safe m P \<longleftrightarrow> (\<exists>v. m = Inr v \<and> P v)"
  by (cases m) auto

text \<open>\<open>outcome F m P\<close>: the operation \<open>m\<close> ends in a fault of \<open>F\<close> or with a result that satisfies \<open>P\<close>.\<close>

definition outcome :: "fault set \<Rightarrow> 'a result \<Rightarrow> ('a \<Rightarrow> bool) \<Rightarrow> bool" where
  "outcome F m P = (case m of Inl e \<Rightarrow> e \<in> F | Inr v \<Rightarrow> P v)"

lemma outcome_Inr [simp]: "outcome F (Inr v) P \<longleftrightarrow> P v"
  by (simp add: outcome_def)

lemma outcome_Inl [simp]: "outcome F (Inl e) P \<longleftrightarrow> e \<in> F"
  by (simp add: outcome_def)

lemma outcome_andThen: "outcome F (andThen m f) P \<longleftrightarrow> outcome F m (\<lambda>v. outcome F (f v) P)"
  by (cases m) auto

lemma outcome_mono: "outcome F m P \<Longrightarrow> (\<And>v. m = Inr v \<Longrightarrow> P v \<Longrightarrow> Q v) \<Longrightarrow> outcome F m Q"
  by (cases m) auto

lemma outcome_safe: "safe m P \<Longrightarrow> outcome F m P"
  by (cases m) auto

lemma safe_outcome: "safe m P \<longleftrightarrow> outcome {} m P"
  by (cases m) auto

section \<open>Buffers\<close>

text \<open>\<open>memcpy(dst + off, src, length src)\<close> on a buffer modelled as the list of its bytes.\<close>

definition overwrite :: "'a list \<Rightarrow> nat \<Rightarrow> 'a list \<Rightarrow> 'a list" where
  "overwrite dst off src = take off dst @ src @ drop (off + length src) dst"

lemma length_overwrite [simp]:
  "off + length src \<le> length dst \<Longrightarrow> length (overwrite dst off src) = length dst"
  by (simp add: overwrite_def)

lemma take_overwrite:
  "off \<le> length dst \<Longrightarrow> take (off + length src) (overwrite dst off src) = take off dst @ src"
  by (simp add: overwrite_def)

lemma take_overwrite_before:
  "n \<le> off \<Longrightarrow> off \<le> length dst \<Longrightarrow> take n (overwrite dst off src) = take n dst"
  by (simp add: overwrite_def min_def)

lemma drop_overwrite:
  "off + length src \<le> n \<Longrightarrow> off \<le> length dst \<Longrightarrow> drop n (overwrite dst off src) = drop n dst"
  by (simp add: overwrite_def)

lemma overwrite_Nil [simp]: "overwrite dst off [] = dst"
  by (simp add: overwrite_def)

lemma overwrite_whole [simp]: "length src = length dst \<Longrightarrow> overwrite dst 0 src = src"
  by (simp add: overwrite_def)

lemma append_take_take_drop:
  "take n xs @ take m (drop n xs) = take (n + m) xs"
  by (simp add: take_add)

section \<open>Values in little-endian memory\<close>

text \<open>
  The program is compiled for a little-endian machine (\<open>WORDS_BIGENDIAN\<close> is not defined): the
  bytes of a \<open>short\<close>, an \<open>int\<close> and a 64-bit integer in memory, least significant first.
\<close>

definition short_bytes :: "c_short \<Rightarrow> byte list" where
  "short_bytes w = [ucast w, ucast (drop_bit 8 w)]"

definition int_bytes :: "c_int \<Rightarrow> byte list" where
  "int_bytes w = [ucast w, ucast (drop_bit 8 w), ucast (drop_bit 16 w), ucast (drop_bit 24 w)]"

definition short_of :: "byte \<Rightarrow> byte \<Rightarrow> c_short" where
  "short_of b0 b1 = ucast b0 OR push_bit 8 (ucast b1)"

definition int_of_bytes :: "byte \<Rightarrow> byte \<Rightarrow> byte \<Rightarrow> byte \<Rightarrow> c_int" where
  "int_of_bytes b0 b1 b2 b3 =
     ucast b0 OR push_bit 8 (ucast b1) OR push_bit 16 (ucast b2) OR push_bit 24 (ucast b3)"

lemma length_short_bytes [simp]: "length (short_bytes w) = 2"
  by (simp add: short_bytes_def)

lemma length_int_bytes [simp]: "length (int_bytes w) = 4"
  by (simp add: int_bytes_def)

lemma short_of_bytes [wire_simps]: "short_of (ucast w) (ucast (drop_bit 8 w)) = w"
  by (rule bit_word_eqI)
    (auto simp: short_of_def bit_simps not_less intro: arg_cong [where f = "bit w"])

lemma int_of_int_bytes [wire_simps]:
  "int_of_bytes (ucast w) (ucast (drop_bit 8 w)) (ucast (drop_bit 16 w)) (ucast (drop_bit 24 w)) = w"
proof (rule bit_word_eqI)
  fix n
  assume "n < LENGTH(32)"
  then show "bit (int_of_bytes (ucast w) (ucast (drop_bit 8 w)) (ucast (drop_bit 16 w))
      (ucast (drop_bit 24 w))) n = bit w n"
    by (cases "n < 8"; cases "n < 16"; cases "n < 24")
      (auto simp: int_of_bytes_def bit_simps not_less)
qed

lemma ucast_short_of [wire_simps]:
  "(ucast (short_of b0 b1) :: byte) = b0"
  "(ucast (drop_bit 8 (short_of b0 b1)) :: byte) = b1"
  by (rule bit_word_eqI, auto simp: short_of_def bit_simps dest: bit_imp_le_length)+

lemma ucast_int_of_bytes [wire_simps]:
  "(ucast (int_of_bytes b0 b1 b2 b3) :: byte) = b0"
  "(ucast (drop_bit 8 (int_of_bytes b0 b1 b2 b3)) :: byte) = b1"
  "(ucast (drop_bit 16 (int_of_bytes b0 b1 b2 b3)) :: byte) = b2"
  "(ucast (drop_bit 24 (int_of_bytes b0 b1 b2 b3)) :: byte) = b3"
  by (rule bit_word_eqI, auto simp: int_of_bytes_def bit_simps not_less dest: bit_imp_le_length)+

lemma sint_word_of_int_small:
  assumes "- (2 ^ 31) \<le> k" and "k < 2 ^ 31"
  shows "sint (word_of_int k :: c_int) = k"
proof -
  have "sint (word_of_int k :: c_int) = signed_take_bit 31 k" by (simp add: signed_of_int)
  with assms show ?thesis by (simp add: signed_take_bit_int_eq_self)
qed

end
