(* ===== verification/Sha1.thy ===== *)
theory Sha1 imports Prelude begin

text \<open>
  The hash routine of \<open>sha.c\<close>, as it is compiled by the repository's Makefile: little-endian
  (\<open>WORDS_BIGENDIAN\<close> undefined), without \<open>RUNTIME_ENDIAN\<close> and \<open>SHA1_FAST_COPY\<close>, unrolled by 20.
  \<open>uint32_t\<close> and \<open>uint64_t\<close> are words, so all additions wrap as they do in C. The union
  \<open>buffer.words / buffer.bytes\<close> is its 64 bytes; reading it as words is \<open>words_of_bytes\<close>.
  The loop of \<open>SHA1Update\<close> is a \<open>partial_function\<close>: \<open>None\<close> is a loop that does not end, which
  theory \<open>Sha1_Spec\<close> shows never to happen for a well-formed context.
\<close>

section \<open>Macros\<close>

definition ROTL :: "c_int \<Rightarrow> nat \<Rightarrow> c_int" where
  "ROTL x n = push_bit n x OR drop_bit (32 - n) x"

definition ROTR :: "c_int \<Rightarrow> nat \<Rightarrow> c_int" where
  "ROTR x n = drop_bit n x OR push_bit (32 - n) x"

definition F_0_19 :: "c_int \<Rightarrow> c_int \<Rightarrow> c_int \<Rightarrow> c_int" where
  "F_0_19 x y z = z XOR (x AND (y XOR z))"

definition F_20_39 :: "c_int \<Rightarrow> c_int \<Rightarrow> c_int \<Rightarrow> c_int" where
  "F_20_39 x y z = x XOR y XOR z"

definition F_40_59 :: "c_int \<Rightarrow> c_int \<Rightarrow> c_int \<Rightarrow> c_int" where
  "F_40_59 x y z = (x AND (y OR z)) OR (y AND z)"

definition F_60_79 :: "c_int \<Rightarrow> c_int \<Rightarrow> c_int \<Rightarrow> c_int" where
  "F_60_79 x y z = x XOR y XOR z"

definition K_0_19 :: c_int where "K_0_19 = 0x5a827999"
definition K_20_39 :: c_int where "K_20_39 = 0x6ed9eba1"
definition K_40_59 :: c_int where "K_40_59 = 0x8f1bbcdc"
definition K_60_79 :: c_int where "K_60_79 = 0xca62c1d6"

text \<open>The working variables \<open>a, b, c, d, e\<close> of \<open>SHA1Guts\<close>; the macro also reads \<open>*(W++)\<close>.\<close>

type_synonym round_state = "c_int \<times> c_int \<times> c_int \<times> c_int \<times> c_int"

fun DO_ROUND :: "(c_int \<Rightarrow> c_int \<Rightarrow> c_int \<Rightarrow> c_int) \<Rightarrow> c_int \<Rightarrow> round_state \<Rightarrow> c_int \<Rightarrow> round_state" where
  "DO_ROUND F K (a, b, c, d, e) w =
     (let temp = ROTL a 5 + F b c d + e + w + K
      in (temp, a, ROTL b 30, c, d))"

definition BYTESWAP :: "c_int \<Rightarrow> c_int" where
  "BYTESWAP x = (ROTR x 8 AND 0xff00ff00) OR (ROTL x 8 AND 0x00ff00ff)"

definition BYTESWAP64 :: "c_long \<Rightarrow> c_long" where
  "BYTESWAP64 x =
     (let a = (ucast (drop_bit 32 x) :: c_int);
          b = (ucast x :: c_int)
      in push_bit 32 (ucast (BYTESWAP b)) OR ucast (BYTESWAP a))"

section \<open>The context\<close>

record sha1_context =
  totalLength :: c_long
  hash_words :: "c_int list"
  bufferLength :: c_int
  buffer_bytes :: "byte list"

definition padding :: "byte list" where
  "padding = 0x80 # replicate 63 0"

text \<open>\<open>SHA1Init\<close> leaves the buffer as it is on the stack: \<open>mem\<close> are those 64 bytes.\<close>

definition SHA1Init :: "byte list \<Rightarrow> sha1_context" where
  "SHA1Init mem =
     \<lparr>totalLength = 0,
      hash_words = [0x67452301, 0xefcdab89, 0x98badcfe, 0x10325476, 0xc3d2e1f0],
      bufferLength = 0,
      buffer_bytes = mem\<rparr>"

section \<open>One block\<close>

text \<open>The bytes of a buffer read through a \<open>uint32_t*\<close> on a little-endian machine.\<close>

fun words_of_bytes :: "byte list \<Rightarrow> c_int list" where
  "words_of_bytes (b0 # b1 # b2 # b3 # bs) = int_of_bytes b0 b1 b2 b3 # words_of_bytes bs"
| "words_of_bytes bs = []"

text \<open>
  The second loop of \<open>SHA1Guts\<close>: \<open>n\<close> more iterations, \<open>W\<close> being the filled part of \<open>buf\<close>. The
  pointers \<open>W3\<close>, \<open>W8\<close>, \<open>W14\<close> and \<open>W16\<close> stay 3, 8, 14 and 16 entries behind \<open>W\<close>.
\<close>

fun SHA1Guts_expand :: "nat \<Rightarrow> c_int list \<Rightarrow> c_int list" where
  "SHA1Guts_expand 0 W = W"
| "SHA1Guts_expand (Suc n) W =
     (let t = length W
      in SHA1Guts_expand n
           (W @ [ROTL (W ! (t - 3) XOR W ! (t - 8) XOR W ! (t - 14) XOR W ! (t - 16)) 1]))"

text \<open>
  The rounds, as compiled: \<open>SHA1_UNROLL\<close> is 20, so each group of twenty stands there without a loop. The
  macro moves \<open>W\<close> through \<open>buf\<close>.
\<close>

definition SHA1_UNROLL_20 :: "c_int list \<Rightarrow> round_state \<Rightarrow> round_state" where
  "SHA1_UNROLL_20 buf s0 =
     (let s1 = foldl (DO_ROUND F_0_19 K_0_19) s0 (take 20 buf);
          s2 = foldl (DO_ROUND F_20_39 K_20_39) s1 (take 20 (drop 20 buf));
          s3 = foldl (DO_ROUND F_40_59 K_40_59) s2 (take 20 (drop 40 buf))
      in foldl (DO_ROUND F_60_79 K_60_79) s3 (take 20 (drop 60 buf)))"

text \<open>
  The function around the rounds: \<open>load\<close> is its first loop, which fills sixteen words of \<open>buf\<close> from \<open>cbuf\<close>.
\<close>

definition SHA1Guts_on ::
  "(byte list \<Rightarrow> c_int list) \<Rightarrow> (c_int list \<Rightarrow> round_state \<Rightarrow> round_state) \<Rightarrow> sha1_context \<Rightarrow> byte list \<Rightarrow> sha1_context" where
  "SHA1Guts_on load rounds sc cbuf =
     (let buf = SHA1Guts_expand 64 (load cbuf);
          h = hash_words sc;
          (a, b, c, d, e) = rounds buf (h ! 0, h ! 1, h ! 2, h ! 3, h ! 4)
      in sc\<lparr>hash_words := [h ! 0 + a, h ! 1 + b, h ! 2 + c, h ! 3 + d, h ! 4 + e]\<rparr>)"

definition SHA1Guts_with ::
  "(c_int list \<Rightarrow> round_state \<Rightarrow> round_state) \<Rightarrow> sha1_context \<Rightarrow> byte list \<Rightarrow> sha1_context" where
  "SHA1Guts_with = SHA1Guts_on (\<lambda>cbuf. map BYTESWAP (words_of_bytes cbuf))"

definition SHA1Guts :: "sha1_context \<Rightarrow> byte list \<Rightarrow> sha1_context" where
  "SHA1Guts = SHA1Guts_with SHA1_UNROLL_20"

section \<open>Streaming\<close>

text \<open>
  One iteration of the loop of \<open>SHA1Update\<close>: the new context and the number of bytes consumed. \<open>guts\<close> is
  the block function.
\<close>

definition SHA1Update_step_with ::
  "(sha1_context \<Rightarrow> byte list \<Rightarrow> sha1_context) \<Rightarrow> sha1_context \<Rightarrow> byte list \<Rightarrow> c_int \<Rightarrow> sha1_context \<times> c_int" where
  "SHA1Update_step_with guts sc data len =
     (let bufferBytesLeft = 64 - bufferLength sc;
          bytesToCopy = (if bufferBytesLeft > len then len else bufferBytesLeft);
          sc = sc\<lparr>buffer_bytes := overwrite (buffer_bytes sc) (unat (bufferLength sc))
                                    (take (unat bytesToCopy) data)\<rparr>;
          sc = sc\<lparr>totalLength := totalLength sc + ucast bytesToCopy * 8\<rparr>;
          sc = sc\<lparr>bufferLength := bufferLength sc + bytesToCopy\<rparr>
      in (if bufferLength sc = 64
          then (guts sc (buffer_bytes sc))\<lparr>bufferLength := 0\<rparr> else sc,
          bytesToCopy))"

partial_function (option) SHA1Update_with ::
  "(sha1_context \<Rightarrow> byte list \<Rightarrow> sha1_context) \<Rightarrow> sha1_context \<Rightarrow> byte list \<Rightarrow> c_int \<Rightarrow> sha1_context option" where
  "SHA1Update_with guts sc data len =
     (if len = 0 then Some sc
      else case SHA1Update_step_with guts sc data len of
             (sc', n) \<Rightarrow> SHA1Update_with guts sc' (drop (unat n) data) (len - n))"

definition SHA1Update :: "sha1_context \<Rightarrow> byte list \<Rightarrow> c_int \<Rightarrow> sha1_context option" where
  "SHA1Update = SHA1Update_with SHA1Guts"

text \<open>The bytes of a \<open>uint64_t\<close> in little-endian memory, and a hash word written out high byte first.\<close>

definition long_bytes :: "c_long \<Rightarrow> byte list" where
  "long_bytes w = map (\<lambda>i. ucast (drop_bit (8 * i) w)) [0..<8]"

definition word_out :: "c_int \<Rightarrow> byte list" where
  "word_out w = [ucast (drop_bit 24 w), ucast (drop_bit 16 w), ucast (drop_bit 8 w), ucast w]"

text \<open>
  \<open>update\<close> is \<open>SHA1Update\<close>, \<open>long_bytes_of\<close> the eight bytes of \<open>lengthPad\<close> for the total length, \<open>out\<close> what
  is written to the result for a word of the hash.
\<close>

definition SHA1Final_with ::
  "(sha1_context \<Rightarrow> byte list \<Rightarrow> c_int \<Rightarrow> sha1_context option) \<Rightarrow> (c_long \<Rightarrow> byte list) \<Rightarrow> (c_int \<Rightarrow> byte list) \<Rightarrow>
    sha1_context \<Rightarrow> byte list option" where
  "SHA1Final_with update long_bytes_of out sc =
     (let bytesToPad = 120 - bufferLength sc;
          bytesToPad = (if bytesToPad > 64 then bytesToPad - 64 else bytesToPad);
          lengthPad = long_bytes_of (totalLength sc)
      in Option.bind (update sc padding bytesToPad)
           (\<lambda>sc. Option.bind (update sc lengthPad 8)
           (\<lambda>sc. Some (concat (map out (hash_words sc))))))"

definition SHA1Final :: "sha1_context \<Rightarrow> byte list option" where
  "SHA1Final = SHA1Final_with SHA1Update (\<lambda>w. long_bytes (BYTESWAP64 w)) word_out"

end
