(* ===== verification/Sha1_Spec.thy ===== *)
theory Sha1_Spec imports Sha1 begin

text \<open>
  The SHA-1 function as FIPS 180-4 describes it, over whole messages and with the textbook round
  functions, and the proof that the buffered, macro-optimised code of \<open>sha.c\<close> computes it: each
  optimised macro is its textbook function, the unrolled rounds of \<open>SHA1Guts\<close> are the 80 rounds
  of the standard, and a context that has been fed a message in pieces of any size stands for
  exactly that message (\<open>absorbed\<close>). The locale \<open>streaming_hash\<close> is the interface the callers of
  the hash use; \<open>sha.c\<close> provides it.
\<close>

section \<open>The standard\<close>

definition Ch :: "c_int \<Rightarrow> c_int \<Rightarrow> c_int \<Rightarrow> c_int" where
  "Ch x y z = (x AND y) XOR (NOT x AND z)"

definition Parity :: "c_int \<Rightarrow> c_int \<Rightarrow> c_int \<Rightarrow> c_int" where
  "Parity x y z = x XOR y XOR z"

definition Maj :: "c_int \<Rightarrow> c_int \<Rightarrow> c_int \<Rightarrow> c_int" where
  "Maj x y z = (x AND y) XOR (x AND z) XOR (y AND z)"

definition fips_f :: "nat \<Rightarrow> c_int \<Rightarrow> c_int \<Rightarrow> c_int \<Rightarrow> c_int" where
  "fips_f t = (if t < 20 then Ch else if t < 40 then Parity else if t < 60 then Maj else Parity)"

definition fips_K :: "nat \<Rightarrow> c_int" where
  "fips_K t = (if t < 20 then 0x5a827999 else if t < 40 then 0x6ed9eba1
               else if t < 60 then 0x8f1bbcdc else 0xca62c1d6)"

text \<open>The message schedule of a block of sixteen words.\<close>

fun schedule :: "c_int list \<Rightarrow> nat \<Rightarrow> c_int" where
  "schedule M t =
     (if t < 16 then M ! t
      else word_rotl 1 (schedule M (t - 3) XOR schedule M (t - 8) XOR
                        schedule M (t - 14) XOR schedule M (t - 16)))"

declare schedule.simps [simp del]

fun fips_round :: "c_int list \<Rightarrow> round_state \<Rightarrow> nat \<Rightarrow> round_state" where
  "fips_round M (a, b, c, d, e) t =
     (word_rotl 5 a + fips_f t b c d + e + fips_K t + schedule M t, a, word_rotl 30 b, c, d)"

fun be_words :: "byte list \<Rightarrow> c_int list" where
  "be_words (b0 # b1 # b2 # b3 # bs) = int_of_bytes b3 b2 b1 b0 # be_words bs"
| "be_words bs = []"

definition compress :: "c_int list \<Rightarrow> byte list \<Rightarrow> c_int list" where
  "compress H block =
     (case foldl (fips_round (be_words block)) (H ! 0, H ! 1, H ! 2, H ! 3, H ! 4) [0..<80] of
        (a, b, c, d, e) \<Rightarrow> [a + H ! 0, b + H ! 1, c + H ! 2, d + H ! 3, e + H ! 4])"

function absorb :: "c_int list \<Rightarrow> byte list \<Rightarrow> c_int list" where
  "absorb H bs = (if length bs < 64 then H else absorb (compress H (take 64 bs)) (drop 64 bs))"
  by pat_completeness auto
termination
  by (relation "measure (\<lambda>(H, bs). length bs)") auto

declare absorb.simps [simp del]

definition fips_H0 :: "c_int list" where
  "fips_H0 = [0x67452301, 0xefcdab89, 0x98badcfe, 0x10325476, 0xc3d2e1f0]"

definition be_length :: "nat \<Rightarrow> byte list" where
  "be_length n = rev (long_bytes (of_nat n))"

definition pad :: "byte list \<Rightarrow> byte list" where
  "pad m = m @ 0x80 # replicate ((119 - length m mod 64) mod 64) 0 @ be_length (8 * length m)"

definition sha1 :: "byte list \<Rightarrow> byte list" where
  "sha1 m = concat (map word_out (absorb fips_H0 (pad m)))"

section \<open>The macros are the textbook functions\<close>

lemma F_0_19_Ch: "F_0_19 = Ch"
  by (intro ext, rule bit_word_eqI) (auto simp: F_0_19_def Ch_def bit_simps)

lemma F_20_39_Parity: "F_20_39 = Parity"
  by (intro ext) (simp add: F_20_39_def Parity_def)

lemma F_40_59_Maj: "F_40_59 = Maj"
  by (intro ext, rule bit_word_eqI) (auto simp: F_40_59_def Maj_def bit_simps)

lemma F_60_79_Parity: "F_60_79 = Parity"
  by (intro ext) (simp add: F_60_79_def Parity_def)

lemma rotl_index:
  assumes "n < 32" and "i < (32::nat)"
  shows "(i + 32 - n) mod 32 = (if n \<le> i then i - n else 32 + i - n)"
proof (cases "n \<le> i")
  case True
  then have "i + 32 - n = (i - n) + 32" by simp
  then have "(i + 32 - n) mod 32 = (i - n) mod 32" by (simp only: mod_add_self2)
  with assms True show ?thesis by simp
next
  case False
  with assms show ?thesis by simp
qed

lemma ROTL_word_rotl: "n < 32 \<Longrightarrow> ROTL x n = word_rotl n x"
proof (rule bit_word_eqI)
  fix i
  assume "n < 32" and "i < LENGTH(32)"
  then show "bit (ROTL x n) i = bit (word_rotl n x) i"
    by (auto simp: ROTL_def bit_simps rotl_index not_le dest: bit_imp_le_length)
qed

lemma byteswap_masks:
  "(0xff00ff00 :: c_int) = push_bit 8 (mask 8) OR push_bit 24 (mask 8)"
  "(0x00ff00ff :: c_int) = mask 8 OR push_bit 16 (mask 8)"
  by (simp_all add: mask_numeral)

lemma BYTESWAP_int_of_bytes: "BYTESWAP (int_of_bytes b0 b1 b2 b3) = int_of_bytes b3 b2 b1 b0"
proof (rule bit_word_eqI)
  fix i
  assume "i < LENGTH(32)"
  then show "bit (BYTESWAP (int_of_bytes b0 b1 b2 b3)) i = bit (int_of_bytes b3 b2 b1 b0) i"
    unfolding BYTESWAP_def ROTL_def ROTR_def int_of_bytes_def byteswap_masks
    by (cases "i < 8"; cases "i < 16"; cases "i < 24")
      (auto simp: bit_simps not_less dest: bit_imp_le_length)
qed

lemma map_BYTESWAP: "map BYTESWAP (words_of_bytes bs) = be_words bs"
  by (induction bs rule: be_words.induct) (simp_all add: BYTESWAP_int_of_bytes)

lemma length_be_words: "length (be_words bs) = length bs div 4"
  by (induction bs rule: be_words.induct) auto

lemma byte_of_BYTESWAP:
  "(ucast (BYTESWAP x) :: byte) = ucast (drop_bit 24 x)"
  "(ucast (drop_bit 8 (BYTESWAP x)) :: byte) = ucast (drop_bit 16 x)"
  "(ucast (drop_bit 16 (BYTESWAP x)) :: byte) = ucast (drop_bit 8 x)"
  "(ucast (drop_bit 24 (BYTESWAP x)) :: byte) = ucast x"
  using BYTESWAP_int_of_bytes [of "ucast x" "ucast (drop_bit 8 x)" "ucast (drop_bit 16 x)"
      "ucast (drop_bit 24 x)"]
  by (simp_all add: wire_simps)

lemma byte_of_halves:
  "(ucast (push_bit 32 (ucast (p :: c_int)) OR ucast (q :: c_int) :: c_long) :: byte) = ucast q"
  "k \<le> 24 \<Longrightarrow>
    (ucast (drop_bit k (push_bit 32 (ucast p) OR ucast q :: c_long)) :: byte) = ucast (drop_bit k q)"
  "k \<le> 24 \<Longrightarrow>
    (ucast (drop_bit (32 + k) (push_bit 32 (ucast p) OR ucast q :: c_long)) :: byte) =
      ucast (drop_bit k p)"
  by (rule bit_word_eqI, auto simp: bit_simps dest: bit_imp_le_length)+

lemma long_bytes_BYTESWAP64: "long_bytes (BYTESWAP64 w) = rev (long_bytes w)"
proof -
  have low: "(ucast (drop_bit k (ucast w :: c_int)) :: byte) = ucast (drop_bit k w)" if "k \<le> 24" for k
    using that by (auto intro!: bit_word_eqI simp: bit_simps)
  have high: "(ucast (drop_bit k (ucast (drop_bit 32 w) :: c_int)) :: byte) = ucast (drop_bit (32 + k) w)"
    if "k \<le> 24" for k
    using that by (auto intro!: bit_word_eqI simp: bit_simps add.assoc)
  show ?thesis
    using low [of 0] high [of 0] byte_of_halves(2) [of 8] byte_of_halves(2) [of 16]
      byte_of_halves(2) [of 24] byte_of_halves(3) [of 0] byte_of_halves(3) [of 8] byte_of_halves(3) [of 16]
      byte_of_halves(3) [of 24]
    by (simp add: long_bytes_def BYTESWAP64_def upt_conv_Cons Let_def byte_of_halves byte_of_BYTESWAP
        low high)
qed

section \<open>One block of the code is one block of the standard\<close>

lemma expand_is_schedule:
  assumes "16 \<le> length W" and "\<forall>t < length W. W ! t = schedule M t"
  shows "length (SHA1Guts_expand n W) = length W + n
    \<and> (\<forall>t < length W + n. SHA1Guts_expand n W ! t = schedule M t)"
  using assms
proof (induction n arbitrary: W)
  case 0
  then show ?case by simp
next
  case (Suc n)
  let ?t = "length W"
  let ?w = "ROTL (W ! (?t - 3) XOR W ! (?t - 8) XOR W ! (?t - 14) XOR W ! (?t - 16)) 1"
  from Suc.prems have "?w = schedule M ?t"
    by (subst schedule.simps) (simp add: ROTL_word_rotl)
  with Suc.prems have "\<forall>t < length (W @ [?w]). (W @ [?w]) ! t = schedule M t"
    by (auto simp: nth_append less_Suc_eq)
  with Suc.IH [of "W @ [?w]"] Suc.prems(1) show ?case
    by (simp add: Let_def)
qed

lemma expanded_block:
  assumes "length M = 16"
  shows "SHA1Guts_expand 64 M = map (schedule M) [0..<80]"
proof -
  have "\<forall>t < length M. M ! t = schedule M t"
    using assms by (simp add: schedule.simps)
  with expand_is_schedule [of M M 64] assms show ?thesis
    by (intro nth_equalityI) auto
qed

lemma rounds_are_fips:
  assumes "\<forall>t \<in> set ts. fips_f t = F \<and> fips_K t = K"
  shows "foldl (DO_ROUND F K) s (map (schedule M) ts) = foldl (fips_round M) s ts"
  using assms
proof (induction ts arbitrary: s)
  case Nil
  then show ?case by simp
next
  case (Cons t ts)
  have "DO_ROUND F K s (schedule M t) = fips_round M s t"
    using Cons.prems by (cases s) (simp add: Let_def ROTL_word_rotl ac_simps)
  with Cons show ?case by simp
qed

lemma slice_of_schedule:
  "m + n \<le> k \<Longrightarrow> take n (drop m (map f [0..<k])) = map f [m..<m + n]"
  by (simp add: take_map drop_map)

lemma upt_80: "[0..<80::nat] = [0..<20] @ [20..<20 + 20] @ [40..<40 + 20] @ [60..<60 + 20]"
  by code_simp

lemma unrolled_rounds:
  assumes "length M = 16"
  defines "buf \<equiv> SHA1Guts_expand 64 M"
  shows "foldl (DO_ROUND F_60_79 K_60_79)
      (foldl (DO_ROUND F_40_59 K_40_59)
        (foldl (DO_ROUND F_20_39 K_20_39)
          (foldl (DO_ROUND F_0_19 K_0_19) s (take 20 buf))
          (take 20 (drop 20 buf)))
        (take 20 (drop 40 buf)))
      (take 20 (drop 60 buf)) = foldl (fips_round M) s [0..<80]"
proof -
  let ?W = "schedule M"
  have buf: "buf = map ?W [0..<80]" unfolding buf_def by (rule expanded_block [OF assms(1)])
  have b0: "take 20 buf = map ?W [0..<20]" and b1: "take 20 (drop 20 buf) = map ?W [20..<20 + 20]"
    and b2: "take 20 (drop 40 buf) = map ?W [40..<40 + 20]"
    and b3: "take 20 (drop 60 buf) = map ?W [60..<60 + 20]"
    using slice_of_schedule [of 0 20 80 ?W] slice_of_schedule [of 20 20 80 ?W]
      slice_of_schedule [of 40 20 80 ?W] slice_of_schedule [of 60 20 80 ?W]
    unfolding buf by simp_all
  have r: "foldl (DO_ROUND F K) s (map ?W [i..<j]) = foldl (fips_round M) s [i..<j]"
    if "\<And>t. i \<le> t \<Longrightarrow> t < j \<Longrightarrow> fips_f t = F \<and> fips_K t = K" for F K i j s
    by (rule rounds_are_fips) (simp add: that)
  have r0: "foldl (DO_ROUND F_0_19 K_0_19) s (map ?W [0..<20]) = foldl (fips_round M) s [0..<20]" for s
    by (rule r) (simp add: fips_f_def fips_K_def F_0_19_Ch K_0_19_def)
  have r1: "foldl (DO_ROUND F_20_39 K_20_39) s (map ?W [20..<20 + 20]) = foldl (fips_round M) s [20..<20 + 20]" for s
    by (rule r) (simp add: fips_f_def fips_K_def F_20_39_Parity K_20_39_def)
  have r2: "foldl (DO_ROUND F_40_59 K_40_59) s (map ?W [40..<40 + 20]) = foldl (fips_round M) s [40..<40 + 20]" for s
    by (rule r) (simp add: fips_f_def fips_K_def F_40_59_Maj K_40_59_def)
  have r3: "foldl (DO_ROUND F_60_79 K_60_79) s (map ?W [60..<60 + 20]) = foldl (fips_round M) s [60..<60 + 20]" for s
    by (rule r) (simp add: fips_f_def fips_K_def F_60_79_Parity K_60_79_def)
  show ?thesis
    unfolding b0 b1 b2 b3 r0 r1 r2 r3 upt_80 by (simp only: foldl_append)
qed

lemma SHA1Guts_compress:
  assumes "length cbuf = 64"
  shows "SHA1Guts sc cbuf = sc\<lparr>hash_words := compress (hash_words sc) cbuf\<rparr>"
proof -
  let ?M = "be_words cbuf"
  have "length ?M = 16" using assms by (simp add: length_be_words)
  note rounds = unrolled_rounds [OF this]
  show ?thesis
    unfolding SHA1Guts_def SHA1Guts_with_def SHA1Guts_on_def SHA1_UNROLL_20_def compress_def map_BYTESWAP Let_def rounds
    by (simp only: add.commute split: prod.split) simp
qed

section \<open>Messages in blocks\<close>

lemma absorb_short: "length bs < 64 \<Longrightarrow> absorb H bs = H"
  by (subst absorb.simps) simp

lemma absorb_block: "length b = 64 \<Longrightarrow> absorb H (b @ bs) = absorb (compress H b) bs"
  by (subst absorb.simps) simp

lemma absorb_append:
  assumes "length a = 64 * k"
  shows "absorb H (a @ b) = absorb (absorb H a) b"
  using assms
proof (induction k arbitrary: a H)
  case 0
  then show ?case by (simp add: absorb_short)
next
  case (Suc k)
  have a: "a = take 64 a @ drop 64 a" by simp
  have len: "length (take 64 a) = 64" "length (drop 64 a) = 64 * k" using Suc.prems by auto
  have "absorb H (take 64 a @ drop 64 a @ b) = absorb (compress H (take 64 a)) (drop 64 a @ b)"
    by (rule absorb_block [OF len(1)])
  also have "\<dots> = absorb (absorb (compress H (take 64 a)) (drop 64 a)) b"
    by (rule Suc.IH [OF len(2)])
  also have "absorb (compress H (take 64 a)) (drop 64 a) = absorb H (take 64 a @ drop 64 a)"
    by (rule absorb_block [OF len(1), symmetric])
  finally show ?case by (metis append_assoc append_take_drop_id)
qed

lemma absorb_one_more:
  assumes "length a = 64 * k" and "length b = 64"
  shows "absorb H (a @ b) = compress (absorb H a) b"
  using absorb_append [OF assms(1)] absorb_block [OF assms(2), of _ "[]"]
  by (simp add: absorb_short)

section \<open>A context stands for the message it has been fed\<close>

definition whole_blocks :: "byte list \<Rightarrow> byte list" where
  "whole_blocks m = take (64 * (length m div 64)) m"

definition tail_block :: "byte list \<Rightarrow> byte list" where
  "tail_block m = drop (64 * (length m div 64)) m"

definition absorbed :: "sha1_context \<Rightarrow> byte list \<Rightarrow> bool" where
  "absorbed sc m \<longleftrightarrow>
     hash_words sc = absorb fips_H0 (whole_blocks m) \<and>
     unat (bufferLength sc) = length m mod 64 \<and>
     length (buffer_bytes sc) = 64 \<and>
     take (length m mod 64) (buffer_bytes sc) = tail_block m \<and>
     totalLength sc = of_nat (8 * length m)"

lemma length_whole_blocks: "length (whole_blocks m) = 64 * (length m div 64)"
  by (simp add: whole_blocks_def)

lemma length_tail_block [simp]: "length (tail_block m) = length m mod 64"
  by (simp add: tail_block_def minus_mult_div_eq_mod)

lemma whole_rest: "m = whole_blocks m @ tail_block m"
  by (simp add: whole_blocks_def tail_block_def)

lemma whole_rest_unique:
  assumes "length a = 64 * k" and "length b < 64"
  shows "whole_blocks (a @ b) = a" and "tail_block (a @ b) = b"
  using assms by (simp_all add: whole_blocks_def tail_block_def)

lemma SHA1Init_absorbed: "length mem = 64 \<Longrightarrow> absorbed (SHA1Init mem) []"
  by (simp add: absorbed_def SHA1Init_def whole_blocks_def tail_block_def absorb_short fips_H0_def)


lemma absorbed_length: "absorbed sc m \<Longrightarrow> unat (bufferLength sc) < 64"
  by (simp add: absorbed_def)

lemma absorbed_extend:
  assumes abs: "absorbed sc m" and d: "length m mod 64 + length d \<le> 64"
  defines "buf \<equiv> overwrite (buffer_bytes sc) (length m mod 64) d"
  shows "length buf = 64"
    and "length m mod 64 + length d < 64 \<Longrightarrow>
      whole_blocks (m @ d) = whole_blocks m \<and> tail_block (m @ d) = tail_block m @ d
      \<and> length (m @ d) mod 64 = length m mod 64 + length d
      \<and> take (length m mod 64 + length d) buf = tail_block m @ d"
    and "length m mod 64 + length d = 64 \<Longrightarrow>
      absorb fips_H0 (whole_blocks (m @ d)) = compress (absorb fips_H0 (whole_blocks m)) buf
      \<and> tail_block (m @ d) = [] \<and> length (m @ d) mod 64 = 0"
proof -
  let ?r = "length m mod 64"
  have lb: "length (buffer_bytes sc) = 64" and tb: "take ?r (buffer_bytes sc) = tail_block m"
    using abs by (auto simp: absorbed_def)
  show lbuf: "length buf = 64" using d lb by (simp add: buf_def)
  have tbuf: "take (?r + length d) buf = tail_block m @ d"
    using lb tb by (simp add: buf_def take_overwrite)
  have split: "m @ d = whole_blocks m @ (tail_block m @ d)" using whole_rest [of m] by simp
  {
    assume "?r + length d < 64"
    then have short: "length (tail_block m @ d) < 64" by simp
    note u = whole_rest_unique [OF length_whole_blocks [of m] short, folded split]
    from u have "length (m @ d) mod 64 = ?r + length d" by (metis length_append length_tail_block)
    with u tbuf show "whole_blocks (m @ d) = whole_blocks m \<and> tail_block (m @ d) = tail_block m @ d
      \<and> length (m @ d) mod 64 = ?r + length d \<and> take (?r + length d) buf = tail_block m @ d"
      by simp
  next
    assume full: "?r + length d = 64"
    then have block: "buf = tail_block m @ d" and len: "length (whole_blocks m @ tail_block m @ d) = 64 * Suc (length m div 64)"
      using tbuf lbuf by (simp_all add: length_whole_blocks)
    have "whole_blocks (m @ d) = whole_blocks m @ buf" "tail_block (m @ d) = []"
      using whole_rest_unique [OF len, of "[]"] by (simp_all add: split [symmetric] block)
    moreover have "absorb fips_H0 (whole_blocks m @ buf) = compress (absorb fips_H0 (whole_blocks m)) buf"
      using absorb_one_more [OF length_whole_blocks lbuf] .
    moreover have "length (m @ d) mod 64 = 0"
      using full by (metis length_append mod_add_left_eq mod_self)
    ultimately show "absorb fips_H0 (whole_blocks (m @ d)) = compress (absorb fips_H0 (whole_blocks m)) buf
      \<and> tail_block (m @ d) = [] \<and> length (m @ d) mod 64 = 0"
      by simp
  }
qed

text \<open>What a block function has to be.\<close>

definition is_compression :: "(sha1_context \<Rightarrow> byte list \<Rightarrow> sha1_context) \<Rightarrow> bool" where
  "is_compression guts \<longleftrightarrow>
     (\<forall>sc block. length block = 64 \<longrightarrow> guts sc block = sc\<lparr>hash_words := compress (hash_words sc) block\<rparr>)"

lemma is_compressionD:
  "is_compression guts \<Longrightarrow> length block = 64 \<Longrightarrow> guts sc block = sc\<lparr>hash_words := compress (hash_words sc) block\<rparr>"
  by (simp add: is_compression_def)

text \<open>One call, of which nothing is copied if the piece is empty.\<close>

lemma SHA1Update_step_absorbed:
  assumes guts: "is_compression guts" and abs: "absorbed sc m" and len: "unat len \<le> length data"
    and step: "SHA1Update_step_with guts sc data len = (sc', n)"
  shows "unat n = min (unat len) (64 - length m mod 64) \<and> absorbed sc' (m @ take (unat n) data)"
proof -
  let ?r = "length m mod 64" and ?d = "take (unat n) data"
  have r: "unat (bufferLength sc) = ?r" "?r < 64" using abs by (auto simp: absorbed_def)
  have left: "unat (64 - bufferLength sc) = 64 - ?r"
    using r by (subst unat_sub) (auto simp: word_le_nat_alt)
  have n: "n = (if 64 - bufferLength sc > len then len else 64 - bufferLength sc)"
    using step by (simp add: SHA1Update_step_with_def Let_def split: if_splits)
  have nn: "unat n = min (unat len) (64 - ?r)"
    using left by (simp add: n word_less_nat_alt min_def)
  have d: "length ?d = unat n" using nn len by simp
  have fill: "?r + length ?d \<le> 64" using nn d r(2) by linarith
  have sum: "unat (bufferLength sc + n) = ?r + length ?d"
    using r fill d by (subst unat_add_lem [THEN iffD1]) simp_all
  note ext = absorbed_extend [OF abs fill]
  have tot: "totalLength sc + ucast n * 8 = of_nat (8 * length (m @ ?d))"
    using abs d by (simp add: absorbed_def algebra_simps)
  have full: "bufferLength sc + n = 64 \<longleftrightarrow> ?r + length ?d = 64"
    unfolding word_unat_eq_iff sum by simp
  have "absorbed sc' (m @ ?d)"
  proof (cases "?r + length ?d = 64")
    case True
    with step n full ext(1) have "sc' = sc\<lparr>hash_words := compress (hash_words sc) (overwrite (buffer_bytes sc) ?r ?d),
        buffer_bytes := overwrite (buffer_bytes sc) ?r ?d,
        totalLength := totalLength sc + ucast n * 8, bufferLength := 0\<rparr>"
      by (auto simp: SHA1Update_step_with_def Let_def r is_compressionD [OF guts])
    with ext(1) ext(3) [OF True] abs tot show ?thesis
      unfolding absorbed_def by simp
  next
    case False
    with step n full have "sc' = sc\<lparr>buffer_bytes := overwrite (buffer_bytes sc) ?r ?d,
        totalLength := totalLength sc + ucast n * 8, bufferLength := bufferLength sc + n\<rparr>"
      by (auto simp: SHA1Update_step_with_def Let_def r)
    with ext(1) ext(2) False fill abs tot sum show ?thesis
      unfolding absorbed_def by simp
  qed
  with nn show ?thesis by simp
qed

lemma SHA1Update_with_absorbs:
  assumes guts: "is_compression guts" and "absorbed sc m" and "unat len \<le> length data"
  shows "\<exists>sc'. SHA1Update_with guts sc data len = Some sc' \<and> absorbed sc' (m @ take (unat len) data)"
  using assms(2,3)
proof (induction "unat len" arbitrary: sc m data len rule: less_induct)
  case less
  show ?case
  proof (cases "len = 0")
    case True
    with less.prems show ?thesis by (simp add: SHA1Update_with.simps)
  next
    case False
    obtain sc1 n where step: "SHA1Update_step_with guts sc data len = (sc1, n)" by fastforce
    from SHA1Update_step_absorbed [OF guts less.prems step]
    have nn: "unat n = min (unat len) (64 - length m mod 64)" and abs: "absorbed sc1 (m @ take (unat n) data)" by auto
    have "unat n \<noteq> 0" using False nn by (simp add: unat_gt_0)
    then have n: "n \<noteq> 0" "n \<le> len" using nn by (auto simp: word_le_nat_alt)
    have dec: "unat (len - n) = unat len - unat n" using n(2) by (simp add: unat_sub word_le_nat_alt)
    have pos: "0 < unat n" using n(1) by (simp add: unat_gt_0)
    have le: "unat n \<le> unat len" using n(2) by (simp add: word_le_nat_alt)
    have "unat (len - n) < unat len" using dec pos le by simp
    moreover have "unat (len - n) \<le> length (drop (unat n) data)" using dec less.prems(2) by simp
    ultimately obtain sc' where "SHA1Update_with guts sc1 (drop (unat n) data) (len - n) = Some sc'"
      and "absorbed sc' ((m @ take (unat n) data) @ take (unat (len - n)) (drop (unat n) data))"
      using less.hyps abs by blast
    with False step dec le show ?thesis
      by (subst SHA1Update_with.simps) (simp add: append_take_take_drop)
  qed
qed

section \<open>Finalisation is the padding of the standard\<close>

lemma length_long_bytes [simp]: "length (long_bytes w) = 8"
  by (simp add: long_bytes_def)

lemma length_be_length [simp]: "length (be_length n) = 8"
  by (simp add: be_length_def)

lemma pad_count:
  fixes r :: nat
  assumes "r < 64"
  shows "(if 64 < 120 - r then 120 - r - 64 else 120 - r) = Suc ((119 - r) mod 64)"
  using assms by (auto simp: mod_if [of "119 - r" 64])

lemma length_pad: "length (pad m) mod 64 = 0"
proof -
  let ?r = "length m mod 64"
  have a: "length (pad m) = 64 * (length m div 64) + (?r + 1 + (119 - ?r) mod 64 + 8)"
    by (simp add: pad_def)
  have b: "?r + 1 + (119 - ?r) mod 64 + 8 = (if ?r < 56 then 64 else 128)"
    by (auto simp: mod_if [of "119 - ?r" 64])
  show ?thesis unfolding a b by simp
qed

lemma mult_div_mod_eq_length: "length xs mod 64 = 0 \<Longrightarrow> 64 * (length xs div 64) = length xs"
  by auto

section \<open>The interface of a streaming hash\<close>

primrec feed :: "('c \<Rightarrow> byte list \<Rightarrow> 'c option) \<Rightarrow> 'c \<Rightarrow> byte list list \<Rightarrow> 'c option" where
  "feed update c [] = Some c"
| "feed update c (d # ds) = Option.bind (update c d) (\<lambda>c. feed update c ds)"

locale streaming_hash =
  fixes init :: "'c"
    and update :: "'c \<Rightarrow> byte list \<Rightarrow> 'c option"
    and final :: "'c \<Rightarrow> byte list option"
    and stands_for :: "'c \<Rightarrow> byte list \<Rightarrow> bool"
    and piece :: "byte list \<Rightarrow> bool"
    and H :: "byte list \<Rightarrow> byte list"
  assumes init_law: "stands_for init []"
    and update_law: "stands_for c m \<Longrightarrow> piece d \<Longrightarrow> \<exists>c'. update c d = Some c' \<and> stands_for c' (m @ d)"
    and final_law: "stands_for c m \<Longrightarrow> final c = Some (H m)"
begin

lemma feed_law:
  "stands_for c m \<Longrightarrow> \<forall>d \<in> set ds. piece d \<Longrightarrow>
    \<exists>c'. feed update c ds = Some c' \<and> stands_for c' (m @ concat ds)"
proof (induction ds arbitrary: c m)
  case Nil
  then show ?case by simp
next
  case (Cons d ds)
  then obtain c1 where "update c d = Some c1" "stands_for c1 (m @ d)"
    using update_law by fastforce
  with Cons.IH [of c1 "m @ d"] Cons.prems(2) show ?case by simp
qed

text \<open>However a message is cut into pieces, the digest is that of the whole message.\<close>

lemma digest_of_pieces:
  "\<forall>d \<in> set ds. piece d \<Longrightarrow> Option.bind (feed update init ds) final = Some (H (concat ds))"
  using feed_law [OF init_law, of ds] final_law by fastforce

lemma digest_one_shot: "piece d \<Longrightarrow> Option.bind (update init d) final = Some (H d)"
  using digest_of_pieces [of "[d]"] by (simp add: bind_assoc)

end

definition fits_uint32 :: "byte list \<Rightarrow> bool" where
  "fits_uint32 d \<longleftrightarrow> length d < 2 ^ 32"

lemma unat_fits: "fits_uint32 d \<Longrightarrow> unat (of_nat (length d) :: c_int) = length d"
  by (simp add: fits_uint32_def unat_of_nat take_bit_eq_mod)

section \<open>The parts of an implementation\<close>

text \<open>
  What the operations of \<open>sha.c\<close> have to do to make up a streaming hash: a context goes on standing for
  what it is fed, the total length is appended with its high byte first, and so is every word of the hash.
\<close>

locale sha1_parts =
  fixes update :: "sha1_context \<Rightarrow> byte list \<Rightarrow> c_int \<Rightarrow> sha1_context option"
    and length_bytes :: "c_long \<Rightarrow> byte list"
    and out :: "c_int \<Rightarrow> byte list"
  assumes update_law: "absorbed sc m \<Longrightarrow> unat len \<le> length data \<Longrightarrow>
      \<exists>sc'. update sc data len = Some sc' \<and> absorbed sc' (m @ take (unat len) data)"
    and length_law: "length_bytes w = rev (long_bytes w)"
    and out_law: "out v = word_out v"
begin

lemma final_sha1:
  assumes abs: "absorbed sc m"
  shows "SHA1Final_with update length_bytes out sc = Some (sha1 m)"
proof -
  let ?r = "length m mod 64"
  define q where "q = 120 - bufferLength sc"
  define p where "p = (if q > 64 then q - 64 else q)"
  have r: "unat (bufferLength sc) = ?r" "?r < 64" using abs by (auto simp: absorbed_def)
  have q: "unat q = 120 - ?r"
    unfolding q_def using r by (subst unat_sub) (auto simp: word_le_nat_alt)
  have gt: "q > 64 \<longleftrightarrow> 64 < 120 - ?r"
    by (simp add: word_less_nat_alt q)
  have "unat (q - 64) = 120 - ?r - 64" if "q > 64"
    using that q by (subst unat_sub) (auto simp: word_less_nat_alt word_le_nat_alt)
  then have p: "unat p = Suc ((119 - ?r) mod 64)"
    using pad_count [OF r(2)] q gt by (simp add: p_def split: if_splits)
  have pad80: "take (unat p) padding = 0x80 # replicate ((119 - ?r) mod 64) 0"
    by (simp add: p padding_def min_def)
  have "unat p \<le> length padding"
    using p r(2) by (simp add: padding_def less_Suc_eq_le)
  from update_law [OF abs this] obtain sc1 where
    sc1: "update sc padding p = Some sc1" "absorbed sc1 (m @ take (unat p) padding)"
    by blast
  let ?l = "length_bytes (totalLength sc)"
  have l: "?l = be_length (8 * length m)"
    using abs by (simp add: length_law be_length_def absorbed_def)
  have "unat (8 :: c_int) \<le> length ?l" by (simp add: length_law)
  from update_law [OF sc1(2) this] obtain sc2 where
    sc2: "update sc1 ?l 8 = Some sc2" "absorbed sc2 ((m @ take (unat p) padding) @ ?l)"
    by (auto simp: length_law)
  have "(m @ take (unat p) padding) @ ?l = pad m" by (simp add: pad80 l pad_def)
  with sc2(2) have "absorbed sc2 (pad m)" by simp
  then have "hash_words sc2 = absorb fips_H0 (whole_blocks (pad m))"
    unfolding absorbed_def by (rule conjunct1)
  also have "whole_blocks (pad m) = pad m"
    by (simp add: whole_blocks_def mult_div_mod_eq_length length_pad)
  finally have "hash_words sc2 = absorb fips_H0 (pad m)" .
  with sc1(1) sc2(1) show ?thesis
    by (simp add: SHA1Final_with_def Let_def q_def [symmetric] p_def [symmetric] sha1_def out_law cong: map_cong)
qed

lemma whole_update:
  assumes "absorbed sc m" and "fits_uint32 d"
  shows "\<exists>sc'. update sc d (of_nat (length d)) = Some sc' \<and> absorbed sc' (m @ d)"
  using update_law [OF assms(1), of "of_nat (length d)" d] assms(2) by (simp add: unat_fits)

end

sublocale sha1_parts \<subseteq> hash: streaming_hash "SHA1Init (map mem [0..<64])"
  "\<lambda>sc d. update sc d (of_nat (length d))" "SHA1Final_with update length_bytes out" absorbed fits_uint32 sha1 for mem
  by unfold_locales (auto simp: SHA1Init_absorbed whole_update final_sha1)

context sha1_parts begin

text \<open>However a message is cut into pieces, the parts compute its digest.\<close>

lemma parts_digest:
  "\<forall>d \<in> set ds. fits_uint32 d \<Longrightarrow>
    Option.bind (feed (\<lambda>sc d. update sc d (of_nat (length d))) (SHA1Init (map mem [0..<64])) ds)
      (SHA1Final_with update length_bytes out) = Some (sha1 (concat ds))"
  by (rule hash.digest_of_pieces)

end

definition update_all :: "sha1_context \<Rightarrow> byte list \<Rightarrow> sha1_context option" where
  "update_all sc d = SHA1Update sc d (of_nat (length d))"

lemma SHA1Guts_is_compression: "is_compression SHA1Guts"
  by (simp add: is_compression_def SHA1Guts_compress)

interpretation parts: sha1_parts SHA1Update "\<lambda>w. long_bytes (BYTESWAP64 w)" word_out
  unfolding SHA1Update_def
  by unfold_locales (simp_all add: SHA1Update_with_absorbs [OF SHA1Guts_is_compression] long_bytes_BYTESWAP64)

interpretation sha: streaming_hash "SHA1Init (map mem [0..<64])" update_all SHA1Final absorbed fits_uint32 sha1
  for mem
  by unfold_locales (auto simp: SHA1Init_absorbed update_all_def SHA1Final_def parts.whole_update parts.final_sha1)

section \<open>Properties\<close>

lemma length_absorb: "length (absorb H bs) = 5" if "length H = 5" for H bs
  using that
proof (induction H bs rule: absorb.induct)
  case (1 H bs)
  have "length (compress H (take 64 bs)) = 5" by (simp add: compress_def split: prod.split)
  with 1 show ?case by (subst absorb.simps) simp
qed

lemma length_sha1: "length (sha1 m) = 20"
  by (simp add: sha1_def length_concat word_out_def comp_def length_absorb fips_H0_def sum_list_triv)

text \<open>
  A message fed to \<open>SHA1Update\<close> in any number of pieces, each shorter than 4 GB, ends all its
  loops, and \<open>SHA1Final\<close> then yields the SHA-1 digest of the concatenation, whatever the context's
  buffer held at the start.
\<close>

theorem sha_streaming_correct:
  assumes "list_all (\<lambda>d. length d < 2 ^ 32) ds"
  shows "Option.bind (feed update_all (SHA1Init (map mem [0..<64])) ds) SHA1Final = Some (sha1 (concat ds))"
  using assms by (intro sha.digest_of_pieces) (simp add: fits_uint32_def list_all_iff)

theorem sha_streaming_correct_witness:
  "Option.bind (feed update_all (SHA1Init (map (\<lambda>_. 0x55) [0..<64])) [[0x61], [0x62, 0x63]]) SHA1Final =
     Some (sha1 [0x61, 0x62, 0x63])"
  using sha_streaming_correct [of "[[0x61], [0x62, 0x63]]" "\<lambda>_. 0x55"] by simp

text \<open>
  One block: for any context and any block of 64 bytes, the unrolled and macro-optimised
  \<open>SHA1Guts\<close> replaces the hash by the FIPS 180-4 compression of it and changes nothing else.
\<close>

theorem SHA1Guts_is_fips_compress:
  assumes "length block = 64"
  shows "SHA1Guts sc block = sc\<lparr>hash_words := compress (hash_words sc) block\<rparr>"
  using assms by (rule SHA1Guts_compress)

theorem SHA1Guts_is_fips_compress_witness:
  "hash_words (SHA1Guts (SHA1Init []) (replicate 64 0)) = compress fips_H0 (replicate 64 0)"
  using SHA1Guts_is_fips_compress [of "replicate 64 0" "SHA1Init []"]
  by (simp add: SHA1Init_def fips_H0_def)

end
