(* ===== verification/Chunk.thy ===== *)
theory Chunk imports Sha1_Spec begin

text \<open>
  \<open>chunk.c\<close>: hexadecimal conversion of hashes, the one-shot hash \<open>shahash\<close> and the chunking of a
  file. A \<open>char\<close> is its byte; \<open>char\<close> is signed on the target, so the comparison
  \<open>hex <= '9'\<close> is signed. \<open>toupper\<close> is the C-locale function, which changes only \<open>a\<close> to \<open>z\<close>.
\<close>

section \<open>Hexadecimal\<close>

definition SHA1_HASH_SIZE :: nat where
  "SHA1_HASH_SIZE = 20"

definition toupper :: "byte \<Rightarrow> byte" where
  "toupper c = (if 0x61 \<le> c \<and> c \<le> 0x7a then c - 0x20 else c)"

text \<open>The two characters printed by \<open>sprintf("%.2x")\<close>.\<close>

definition hex_digit :: "byte \<Rightarrow> byte" where
  "hex_digit d = (if d < 10 then 0x30 + d else 0x61 + (d - 10))"

definition sprintf_2x :: "byte \<Rightarrow> byte list" where
  "sprintf_2x b = [hex_digit (drop_bit 4 b), hex_digit (b AND 0x0f)]"

text \<open>The string written to \<open>hex\<close>, terminating zero included.\<close>

definition binary2hex :: "byte list \<Rightarrow> byte list" where
  "binary2hex buf = concat (map sprintf_2x buf) @ [0]"

definition hex2binary_digit :: "byte \<Rightarrow> byte" where
  "hex2binary_digit hex =
     (let hex = toupper hex
      in if sint hex \<le> 0x39 then hex - 0x30 else hex - (0x41 - 0x0a))"

text \<open>The loop reads characters in pairs; \<open>hex\<close> are the \<open>len\<close> characters, \<open>len\<close> being even.\<close>

fun hex2binary :: "byte list \<Rightarrow> byte list" where
  "hex2binary (h # l # hex) =
     (push_bit 4 (hex2binary_digit h) OR hex2binary_digit l) # hex2binary hex"
| "hex2binary hex = []"

lemma nibble_cases:
  assumes "d < (16 :: byte)"
  shows "d \<in> set (map of_nat [0..<16])"
proof -
  have "d = of_nat (unat d)" by simp
  moreover have "unat d < 16" using assms by (simp add: word_less_nat_alt)
  ultimately show ?thesis by (metis atLeastLessThan_iff image_eqI le0 list.set_map set_upt)
qed

lemma hex2binary_digit_hex_digit:
  assumes "d < (16 :: byte)"
  shows "hex2binary_digit (hex_digit d) = d"
  using nibble_cases [OF assms]
  by (simp add: upt_conv_Cons) (elim disjE; simp add: hex2binary_digit_def hex_digit_def toupper_def)

text \<open>Upper-case digits, as other tools print them, are read the same.\<close>

lemma hex2binary_digit_toupper: "hex2binary_digit (toupper c) = hex2binary_digit c"
proof -
  have "toupper (toupper c) = toupper c"
    by (auto simp: toupper_def word_le_nat_alt unat_sub)
  then show ?thesis by (simp add: hex2binary_digit_def)
qed

lemma nibbles_of_byte: "push_bit 4 (drop_bit 4 b) OR (b AND 0x0f) = (b :: byte)"
proof -
  have m: "(0x0f :: byte) = mask 4" by (simp add: mask_numeral)
  show ?thesis unfolding m
    by (rule bit_word_eqI) (auto simp: bit_simps)
qed

lemma nibble_small: "drop_bit 4 b < (16 :: byte)" "b AND 0x0f < (16 :: byte)"
proof -
  have "unat (drop_bit 4 b) = unat b div 16" by (simp only: unat_drop_bit_eq) (simp add: drop_bit_eq_div)
  moreover have "unat b < 256" using unsigned_less [of b, where 'a = nat] by simp
  ultimately show "drop_bit 4 b < (16 :: byte)" by (simp add: word_less_nat_alt)
  have "b AND 0x0f \<le> 0x0f" by (rule word_and_le1)
  then show "b AND 0x0f < (16 :: byte)" by (simp add: word_le_nat_alt word_less_nat_alt)
qed

lemma length_binary2hex: "length (binary2hex buf) = 2 * length buf + 1"
  by (induction buf) (auto simp: binary2hex_def sprintf_2x_def)

lemma hex2binary_pairs: "hex2binary (concat (map sprintf_2x buf)) = buf"
  by (induction buf)
    (simp_all add: sprintf_2x_def hex2binary_digit_hex_digit nibble_small nibbles_of_byte)

section \<open>shahash and make_chunks\<close>

text \<open>\<open>mem\<close> is the uninitialised stack memory of the context's buffer.\<close>

definition shahash :: "(nat \<Rightarrow> byte) \<Rightarrow> byte list \<Rightarrow> c_int \<Rightarrow> byte list option" where
  "shahash mem str len =
     Option.bind (SHA1Update (SHA1Init (map mem [0..<64])) str len) SHA1Final"

lemma shahash_sha1:
  assumes "length str < 2 ^ 32"
  shows "shahash mem str (of_nat (length str)) = Some (sha1 str)"
  using sha.digest_one_shot [of str mem] assms
  by (simp add: shahash_def update_all_def fits_uint32_def)

section \<open>Properties\<close>

text \<open>
  C13. \<open>shahash\<close> returns, and computes SHA-1, for every buffer shorter than 4 GB; the uninitialised
  stack memory of its context has no influence.
\<close>

theorem shahash_computes_sha1:
  assumes "length str < 2 ^ 32"
  shows "shahash mem str (of_nat (length str)) = Some (sha1 str)"
  using assms by (rule shahash_sha1)

theorem shahash_computes_sha1_witness:
  "shahash (\<lambda>_. 0xff) [0x61, 0x62, 0x63] 3 = Some (sha1 [0x61, 0x62, 0x63])"
  using shahash_computes_sha1 [of "[0x61, 0x62, 0x63]" "\<lambda>_. 0xff"] by simp

text \<open>
  Printing a hash in hexadecimal and reading it back gives the hash, also when the digits were
  turned to upper case in between; the string is two characters per byte and its terminating zero.
\<close>

theorem hex_roundtrip:
  "hex2binary (butlast (binary2hex buf)) = buf
   \<and> hex2binary (map toupper (butlast (binary2hex buf))) = buf
   \<and> length (binary2hex buf) = 2 * length buf + 1 \<and> last (binary2hex buf) = 0"
proof -
  have upper: "hex2binary (map toupper s) = hex2binary s" for s
    by (induction s rule: hex2binary.induct) (simp_all add: hex2binary_digit_toupper)
  show ?thesis
    by (simp add: upper length_binary2hex) (simp add: binary2hex_def hex2binary_pairs)
qed

end
