(* ===== verification/Lib_Time.thy ===== *)
theory Lib_Time imports Prelude Complex_Main begin

text \<open>
  \<open>lib.c\<close>: the elapsed time in milliseconds, computed by the code in \<open>double\<close>. A \<open>double\<close> is the
  rational it denotes; every arithmetic operation rounds to the nearest number with a 53-bit
  significand, ties to even. The exponent range of the format is not modelled: every value the
  code computes here is zero or of magnitude between \<open>2 ^ -40\<close> and \<open>2 ^ 64\<close>.
\<close>

record timeval =
  tv_sec :: int
  tv_usec :: int

section \<open>Double precision\<close>

text \<open>The binary exponent: \<open>2 ^ e \<le> x < 2 ^ (e + 1)\<close> for \<open>x > 0\<close>.\<close>

function binexp :: "rat \<Rightarrow> int" where
  "binexp x = (if x \<le> 0 then 0 else if 2 \<le> x then 1 + binexp (x / 2)
               else if x < 1 then binexp (x * 2) - 1 else 0)"
  by pat_completeness auto
termination
proof (relation "measures [\<lambda>x. if x < 1 then nat \<lceil>1 / x\<rceil> else 0, \<lambda>x. nat \<lfloor>x\<rfloor>]")
  show "wf (measures [\<lambda>x::rat. if x < 1 then nat \<lceil>1 / x\<rceil> else 0, \<lambda>x. nat \<lfloor>x\<rfloor>])" by simp
next
  fix x :: rat
  assume "\<not> x \<le> 0" and x: "2 \<le> x"
  have "\<lfloor>x / 2\<rfloor> \<le> \<lfloor>x - 1\<rfloor>" using x by (intro floor_mono) simp
  then have "\<lfloor>x / 2\<rfloor> < \<lfloor>x\<rfloor>" by simp
  moreover have "0 \<le> \<lfloor>x / 2\<rfloor>" using x by simp
  ultimately show "(x / 2, x) \<in> measures [\<lambda>x. if x < 1 then nat \<lceil>1 / x\<rceil> else 0, \<lambda>x. nat \<lfloor>x\<rfloor>]"
    using x by simp
next
  fix x :: rat
  assume pos: "\<not> x \<le> 0" and "\<not> 2 \<le> x" and x: "x < 1"
  have gt: "1 < 1 / x" using pos x by simp
  have "\<lceil>1 / (x * 2)\<rceil> < \<lceil>1 / x\<rceil>"
  proof -
    have "1 / (x * 2) \<le> of_int (\<lceil>1 / x\<rceil> - 1)"
    proof (cases "1 / x \<le> 2")
      case True
      with gt have "\<lceil>1 / x\<rceil> = 2" by (intro ceiling_unique) auto
      with True pos show ?thesis by (simp add: field_simps)
    next
      case False
      have "1 / x \<le> of_int \<lceil>1 / x\<rceil>" by simp
      moreover have "1 / (x * 2) = (1 / x) / 2" by simp
      ultimately show ?thesis using False by linarith
    qed
    then have "\<lceil>1 / (x * 2)\<rceil> \<le> \<lceil>1 / x\<rceil> - 1" unfolding ceiling_le_iff .
    then show ?thesis by simp
  qed
  moreover have "0 < \<lceil>1 / x\<rceil>" using gt by linarith
  ultimately show "(x * 2, x) \<in> measures [\<lambda>x. if x < 1 then nat \<lceil>1 / x\<rceil> else 0, \<lambda>x. nat \<lfloor>x\<rfloor>]"
    using x by auto
qed

declare binexp.simps [simp del]

text \<open>Rounding to an integer, ties to even, and to a 53-bit significand.\<close>

definition round_even :: "rat \<Rightarrow> int" where
  "round_even x =
     (let f = \<lfloor>x\<rfloor>; d = x - of_int f
      in if d < 1 / 2 then f else if d > 1 / 2 then f + 1 else if even f then f else f + 1)"

definition double :: "rat \<Rightarrow> rat" where
  "double x =
     (if x = 0 then 0
      else let q = 2 powi (binexp \<bar>x\<bar> - 52)
           in sgn x * (of_int (round_even (\<bar>x\<bar> / q)) * q))"

lemma binexp_bounds:
  assumes "0 < x"
  shows "2 powi (binexp x) \<le> x"
  using assms
proof (induction x rule: binexp.induct)
  case (1 x)
  consider "2 \<le> x" | "x < 1" | "1 \<le> x" "x < 2" by linarith
  then show ?case
  proof cases
    case 1
    with "1.IH"(1) "1.prems" show ?thesis
      by (subst binexp.simps) (simp add: power_int_add)
  next
    case 2
    with "1.IH"(2) "1.prems" show ?thesis
      by (subst binexp.simps) (simp add: power_int_diff)
  next
    case 3
    with "1.prems" show ?thesis by (subst binexp.simps) simp
  qed
qed

lemma round_even_error: "\<bar>of_int (round_even x) - x\<bar> \<le> 1 / 2"
proof -
  have "of_int \<lfloor>x\<rfloor> \<le> x" "x < of_int \<lfloor>x\<rfloor> + 1" by linarith+
  then show ?thesis
    unfolding round_even_def Let_def by (auto simp: abs_le_iff)
qed

text \<open>The relative error of one rounding.\<close>

lemma double_error: "\<bar>double x - x\<bar> \<le> \<bar>x\<bar> / 2 ^ 53"
proof (cases "x = 0")
  case True
  then show ?thesis by (simp add: double_def)
next
  case False
  define q :: rat where "q = 2 powi (binexp \<bar>x\<bar> - 52)"
  define r where "r = round_even (\<bar>x\<bar> / q)"
  have q: "0 < q" by (simp add: q_def)
  have "q = 2 powi binexp \<bar>x\<bar> / 2 ^ 52"
    unfolding q_def by (subst power_int_diff) simp_all
  then have small: "q \<le> \<bar>x\<bar> / 2 ^ 52"
    using binexp_bounds [of "\<bar>x\<bar>"] False by (simp add: divide_right_mono)
  have "double x - x = sgn x * ((of_int r - \<bar>x\<bar> / q) * q)"
    using False q by (simp add: double_def Let_def q_def [symmetric] r_def [symmetric]
        left_diff_distrib right_diff_distrib sgn_mult_abs)
  then have "\<bar>double x - x\<bar> = \<bar>of_int r - \<bar>x\<bar> / q\<bar> * q"
    using False q by (simp add: abs_mult abs_sgn_eq)
  also have "\<dots> \<le> 1 / 2 * q"
    using round_even_error [of "\<bar>x\<bar> / q"] q unfolding r_def by (intro mult_right_mono) auto
  also have "\<dots> \<le> \<bar>x\<bar> / 2 ^ 53" using small by simp
  finally show ?thesis .
qed

section \<open>get_time_diff\<close>

text \<open>
  \<open>(int)\<close> truncates towards zero; out of range it is undefined in C, and the conversion
  instruction of the target then yields the least \<open>int\<close>.
\<close>

definition double_to_int :: "rat \<Rightarrow> int" where
  "double_to_int x =
     (let t = (if x < 0 then \<lceil>x\<rceil> else \<lfloor>x\<rfloor>)
      in if - (2 ^ 31) \<le> t \<and> t < 2 ^ 31 then t else - (2 ^ 31))"

definition seconds :: "timeval \<Rightarrow> rat" where
  "seconds t = double (of_int (tv_sec t) + double (of_int (tv_usec t) / 1000000))"

text \<open>The second argument is the reading of the clock made by the function itself.\<close>

definition get_time_diff :: "timeval \<Rightarrow> timeval \<Rightarrow> int" where
  "get_time_diff before now =
     (let t1 = seconds before; t2 = seconds now
      in double_to_int (double (double (t2 - t1) * 1000)))"

text \<open>A clock reading between 1970 and 2242.\<close>

definition sane_time :: "timeval \<Rightarrow> bool" where
  "sane_time t \<longleftrightarrow> 0 \<le> tv_sec t \<and> tv_sec t < 2 ^ 33 \<and> 0 \<le> tv_usec t \<and> tv_usec t < 1000000"

definition exact_ms :: "timeval \<Rightarrow> timeval \<Rightarrow> rat" where
  "exact_ms before now =
     of_int ((tv_sec now - tv_sec before) * 1000000 + (tv_usec now - tv_usec before)) / 1000"


lemma double_0 [simp]: "double 0 = 0"
  by (simp add: double_def)

lemma seconds_error:
  assumes "sane_time t"
  shows "\<bar>seconds t - (of_int (tv_sec t) + of_int (tv_usec t) / 1000000)\<bar> \<le> 1 / 2 ^ 19"
proof -
  define u where "u = (of_int (tv_usec t) / 1000000 :: rat)"
  define s where "s = (of_int (tv_sec t) :: rat)"
  have u: "0 \<le> u" "u < 1" using assms by (auto simp: u_def sane_time_def)
  have "of_int 0 \<le> s" "s < of_int (2 ^ 33)"
    using assms unfolding s_def sane_time_def by (simp_all only: of_int_le_iff of_int_less_iff)
  then have s: "0 \<le> s" "s < 8589934592" by simp_all
  have "\<bar>u\<bar> / 2 ^ 53 \<le> 1 / 2 ^ 53" using u by (intro divide_right_mono) auto
  with double_error [of u] have e1: "\<bar>double u - u\<bar> \<le> 1 / 2 ^ 53" by linarith
  then have e0: "\<bar>double u - u\<bar> \<le> 1" by simp
  have "\<bar>s + double u\<bar> \<le> 8589934594" using e0 s u by linarith
  then have "\<bar>s + double u\<bar> \<le> 2 ^ 33 + 2" by simp
  then have "\<bar>s + double u\<bar> / 2 ^ 53 \<le> (2 ^ 33 + 2) / 2 ^ 53" by (intro divide_right_mono) auto
  with double_error [of "s + double u"] have e2: "\<bar>double (s + double u) - (s + double u)\<bar> \<le> (2 ^ 33 + 2) / 2 ^ 53"
    by linarith
  have "\<bar>double (s + double u) - (s + u)\<bar> \<le> (2 ^ 33 + 2) / 2 ^ 53 + 1 / 2 ^ 53"
    using e1 e2 by linarith
  also have "(2 ^ 33 + 2) / 2 ^ 53 + 1 / 2 ^ 53 \<le> (1 / 2 ^ 19 :: rat)" by simp
  finally show ?thesis by (simp add: seconds_def u_def s_def)
qed

lemma double_to_int_error:
  assumes "\<bar>x\<bar> < 2 ^ 31 - 1"
  shows "\<bar>of_int (double_to_int x) - x\<bar> < 1"
proof -
  define t where "t = (if x < 0 then \<lceil>x\<rceil> else \<lfloor>x\<rfloor>)"
  have t: "\<bar>of_int t - x\<bar> < 1" unfolding t_def by (simp add: abs_less_iff) linarith
  then have "\<bar>of_int t :: rat\<bar> < 2 ^ 31" using assms by linarith
  then have "\<bar>t\<bar> < 2 ^ 31" by (metis (mono_tags) of_int_abs of_int_less_iff of_int_numeral of_int_power)
  then have "- (2 ^ 31) \<le> t \<and> t < 2 ^ 31" by linarith
  then have "double_to_int x = t" by (simp add: double_to_int_def Let_def t_def [symmetric])
  with t show ?thesis by simp
qed

text \<open>
  For any two clock readings less than 24 days apart, in either order, the result is within
  one millisecond (and a hundredth of one, for the roundings) of the elapsed time.
\<close>

lemma get_time_diff_close:
  assumes b: "sane_time before" and n: "sane_time now" and gap: "\<bar>exact_ms before now\<bar> \<le> 2 ^ 31 - 3"
  shows "\<bar>of_int (get_time_diff before now) - exact_ms before now\<bar> < 1 + 1 / 100"
proof -
  define d where "d = seconds now - seconds before"
  define sb where "sb = (of_int (tv_sec before) + of_int (tv_usec before) / 1000000 :: rat)"
  define sn where "sn = (of_int (tv_sec now) + of_int (tv_usec now) / 1000000 :: rat)"
  have x: "exact_ms before now = (sn - sb) * 1000"
    by (simp add: exact_ms_def sn_def sb_def field_simps)
  have e1: "\<bar>d - (sn - sb)\<bar> \<le> 2 / 2 ^ 19"
    using seconds_error [OF b] seconds_error [OF n]
    unfolding d_def sb_def [symmetric] sn_def [symmetric] by linarith
  have "\<bar>d - (sn - sb)\<bar> \<le> 1" "\<bar>sn - sb\<bar> \<le> 2147484"
    using e1 gap unfolding x by (simp_all add: abs_mult)
  then have "\<bar>d\<bar> \<le> 4194304" by linarith
  then have d: "\<bar>d\<bar> \<le> 2 ^ 22" by simp
  then have "\<bar>d\<bar> / 2 ^ 53 \<le> 2 ^ 22 / 2 ^ 53" by (intro divide_right_mono) auto
  with double_error [of d] have e2: "\<bar>double d - d\<bar> \<le> 2 ^ 22 / 2 ^ 53" by linarith
  define m where "m = double d * 1000"
  have "\<bar>double d - (sn - sb)\<bar> \<le> 2 / 2 ^ 19 + 2 ^ 22 / 2 ^ 53" using e1 e2 by linarith
  then have "\<bar>double d - (sn - sb)\<bar> * 1000 \<le> 1 / 200" by simp
  moreover have "m - exact_ms before now = (double d - (sn - sb)) * 1000"
    by (simp add: x m_def left_diff_distrib)
  then have "\<bar>m - exact_ms before now\<bar> = \<bar>double d - (sn - sb)\<bar> * 1000"
    by (simp only: abs_mult abs_numeral)
  ultimately have e3: "\<bar>m - exact_ms before now\<bar> \<le> 1 / 200" by linarith
  have gap': "\<bar>exact_ms before now\<bar> \<le> 2147483645" using gap by simp
  then have "\<bar>m\<bar> \<le> 4294967296" using e3 by linarith
  then have "\<bar>m\<bar> \<le> 2 ^ 32" by simp
  then have "\<bar>m\<bar> / 2 ^ 53 \<le> 2 ^ 32 / 2 ^ 53" by (intro divide_right_mono) auto
  with double_error [of m] have "\<bar>double m - m\<bar> \<le> 2 ^ 32 / 2 ^ 53" by linarith
  then have "\<bar>double m - m\<bar> \<le> 1 / 200" by simp
  then have e5: "\<bar>double (double d * 1000) - exact_ms before now\<bar> \<le> 1 / 100"
    using e3 unfolding m_def by linarith
  then have "\<bar>double (double d * 1000)\<bar> < 2147483647" using gap' by linarith
  then have "\<bar>double (double d * 1000)\<bar> < 2 ^ 31 - 1" by simp
  from double_to_int_error [OF this] e5 show ?thesis
    unfolding get_time_diff_def Let_def d_def [symmetric] by linarith
qed

section \<open>Properties\<close>

text \<open>
  C20. For any two clock readings between 1970 and 2242 that are less than 24 days apart, the
  floating-point computation of \<open>get_time_diff\<close> is within one millisecond (and a hundredth of one,
  for the roundings) of the elapsed time.
\<close>

theorem get_time_diff_accuracy:
  assumes "sane_time before" and "sane_time now" and "\<bar>exact_ms before now\<bar> \<le> 2 ^ 31 - 3"
  shows "\<bar>of_int (get_time_diff before now) - exact_ms before now\<bar> < 1 + 1 / 100"
  using assms by (rule get_time_diff_close)

theorem get_time_diff_accuracy_witness:
  "\<bar>of_int (get_time_diff \<lparr>tv_sec = 1700000000, tv_usec = 999999\<rparr> \<lparr>tv_sec = 1700000010, tv_usec = 1\<rparr>) - (9000002 / 1000 :: rat)\<bar>
     < 1 + 1 / 100"
  using get_time_diff_accuracy [of "\<lparr>tv_sec = 1700000000, tv_usec = 999999\<rparr>" "\<lparr>tv_sec = 1700000010, tv_usec = 1\<rparr>"]
  by (simp add: sane_time_def exact_ms_def)

end
