(* ===== verification/Packet.thy ===== *)
theory Packet imports Prelude begin

text \<open>
  \<open>packet.h\<close> and \<open>packet.c\<close>: the packet structs, their layout in memory, the conversion between host
  and network byte order, and the validation of a received header. Header fields keep their C
  widths and are read as signed numbers (\<open>sint\<close>) where the code compares them. A packet in memory
  is \<open>MAX_PACKET_LENGTH\<close> bytes; \<open>packet_of\<close> is the cast of a receive buffer to a packet. The locale
  \<open>record_codec\<close> is the contract between a writer and a reader of a fixed-size header.
\<close>

abbreviation (input) MAGIC_NUMBER :: int where "MAGIC_NUMBER \<equiv> 15441"
abbreviation (input) VERSION_NUMBER :: int where "VERSION_NUMBER \<equiv> 1"

abbreviation (input) TYPE_WHOHAS :: int where "TYPE_WHOHAS \<equiv> 0"
abbreviation (input) TYPE_IHAVE :: int where "TYPE_IHAVE \<equiv> 1"
abbreviation (input) TYPE_GET :: int where "TYPE_GET \<equiv> 2"
abbreviation (input) TYPE_DATA :: int where "TYPE_DATA \<equiv> 3"
abbreviation (input) TYPE_ACK :: int where "TYPE_ACK \<equiv> 4"
abbreviation (input) TYPE_DENIED :: int where "TYPE_DENIED \<equiv> 5"

abbreviation (input) MAX_PACKET_LENGTH :: nat where "MAX_PACKET_LENGTH \<equiv> 1500"
abbreviation (input) HEADER_SIZE :: nat where "HEADER_SIZE \<equiv> 16"
abbreviation (input) MAX_PAYLOAD_LENGTH :: nat where "MAX_PAYLOAD_LENGTH \<equiv> 1484"
abbreviation (input) MAX_HASH_LIST_NUM :: nat where "MAX_HASH_LIST_NUM \<equiv> 74"

abbreviation (input) ALIGNMENT_BYTE_NUM :: nat where "ALIGNMENT_BYTE_NUM \<equiv> 4"
abbreviation (input) HASH_CHUNK_SIZE :: nat where "HASH_CHUNK_SIZE \<equiv> 20"

abbreviation (input) DATA_PACKET_PAYLAOD_SIZE :: nat where "DATA_PACKET_PAYLAOD_SIZE \<equiv> 1024"
abbreviation (input) CHUNK_DATA_NUM :: nat where "CHUNK_DATA_NUM \<equiv> 512"
abbreviation (input) CHUNK_DATA_SIZE :: nat where "CHUNK_DATA_SIZE \<equiv> 524288"

record header_s =
  magic_number :: c_short
  version_number :: byte
  packet_type :: byte
  header_length :: c_short
  packet_length :: c_short
  seq_number :: c_int
  ack_number :: c_int

record network_packet_s =
  header :: header_s
  payload :: "byte list"

section \<open>Byte order\<close>

definition htons :: "c_short \<Rightarrow> c_short" where
  "htons w = short_of (ucast (drop_bit 8 w)) (ucast w)"

definition htonl :: "c_int \<Rightarrow> c_int" where
  "htonl w = int_of_bytes (ucast (drop_bit 24 w)) (ucast (drop_bit 16 w)) (ucast (drop_bit 8 w)) (ucast w)"

abbreviation ntohs :: "c_short \<Rightarrow> c_short" where "ntohs \<equiv> htons"
abbreviation ntohl :: "c_int \<Rightarrow> c_int" where "ntohl \<equiv> htonl"

definition host_to_net_header :: "header_s \<Rightarrow> header_s" where
  "host_to_net_header h =
     h\<lparr>magic_number := htons (magic_number h),
       header_length := htons (header_length h),
       packet_length := htons (packet_length h),
       seq_number := htonl (seq_number h),
       ack_number := htonl (ack_number h)\<rparr>"

definition net_to_host_header :: "header_s \<Rightarrow> header_s" where
  "net_to_host_header h =
     h\<lparr>magic_number := ntohs (magic_number h),
       header_length := ntohs (header_length h),
       packet_length := ntohs (packet_length h),
       seq_number := ntohl (seq_number h),
       ack_number := ntohl (ack_number h)\<rparr>"

lemma htons_htons [simp]: "htons (htons w) = w"
  by (simp add: htons_def wire_simps)

lemma htonl_htonl [simp]: "htonl (htonl w) = w"
  by (simp add: htonl_def wire_simps)

lemma net_host_header [simp]: "net_to_host_header (host_to_net_header h) = h"
  by (simp add: net_to_host_header_def host_to_net_header_def)

lemma host_net_header [simp]: "host_to_net_header (net_to_host_header h) = h"
  by (simp add: net_to_host_header_def host_to_net_header_def)

section \<open>The structs in memory\<close>

text \<open>The layout of \<open>struct header_s\<close>: 16 bytes, no padding.\<close>

definition header_bytes :: "header_s \<Rightarrow> byte list" where
  "header_bytes h =
     short_bytes (magic_number h) @ [version_number h, packet_type h] @
     short_bytes (header_length h) @ short_bytes (packet_length h) @
     int_bytes (seq_number h) @ int_bytes (ack_number h)"

definition header_of :: "byte list \<Rightarrow> header_s" where
  "header_of b =
     \<lparr>magic_number = short_of (b ! 0) (b ! 1),
      version_number = b ! 2,
      packet_type = b ! 3,
      header_length = short_of (b ! 4) (b ! 5),
      packet_length = short_of (b ! 6) (b ! 7),
      seq_number = int_of_bytes (b ! 8) (b ! 9) (b ! 10) (b ! 11),
      ack_number = int_of_bytes (b ! 12) (b ! 13) (b ! 14) (b ! 15)\<rparr>"

definition packet_bytes :: "network_packet_s \<Rightarrow> byte list" where
  "packet_bytes p = header_bytes (header p) @ payload p"

definition packet_of :: "byte list \<Rightarrow> network_packet_s" where
  "packet_of buf = \<lparr>header = header_of buf, payload = drop HEADER_SIZE buf\<rparr>"

text \<open>
  What \<open>send_packet\<close> hands to the socket: the length is read from the host-order copy, then the
  copy is converted and its first \<open>packet_length\<close> bytes are sent.
\<close>

definition datagram :: "network_packet_s \<Rightarrow> byte list" where
  "datagram packet =
     (let temp_packet = packet;
          packet_len = sint (packet_length (header temp_packet));
          temp_packet = temp_packet\<lparr>header := host_to_net_header (header temp_packet)\<rparr>
      in take (nat packet_len) (packet_bytes temp_packet))"

text \<open>
  What \<open>process_inbound_udp\<close> sees of its receive buffer, after the conversion of the header.
\<close>

definition received_packet :: "byte list \<Rightarrow> network_packet_s" where
  "received_packet buf =
     (packet_of buf)\<lparr>header := net_to_host_header (header (packet_of buf))\<rparr>"

section \<open>Validation\<close>

definition get_packet_type :: "header_s \<Rightarrow> int" where
  "get_packet_type h = sint (packet_type h)"

definition validate_packet :: "header_s \<Rightarrow> int" where
  "validate_packet h =
     (if sint (magic_number h) \<noteq> MAGIC_NUMBER then -1
      else if sint (version_number h) \<noteq> VERSION_NUMBER then -1
      else if sint (packet_type h) < 0 \<or> sint (packet_type h) > 5 then -1
      else 1)"

section \<open>Headers as a codec\<close>

locale record_codec =
  fixes emit :: "'r \<Rightarrow> byte list"
    and read :: "byte list \<Rightarrow> 'r"
    and width :: nat
  assumes read_emit: "read (emit r @ ys) = r"
    and length_emit: "length (emit r) = width"
    and emit_read: "width \<le> length bs \<Longrightarrow> emit (read bs) = take width bs"
begin

lemma emit_inject: "emit r @ ys = emit r' @ ys' \<Longrightarrow> r = r' \<and> ys = ys'"
  using read_emit [of r ys] read_emit [of r' ys'] length_emit by (metis append_eq_append_conv)

lemma read_prefix: "width \<le> n \<Longrightarrow> n \<le> length bs \<Longrightarrow> read (take n bs @ ys) = read bs"
proof -
  assume n: "width \<le> n" "n \<le> length bs"
  then have "take n bs @ ys = take width bs @ (drop width (take n bs) @ ys)"
    by (metis append.assoc append_take_drop_id min.absorb1 take_take)
  also have "take width bs = emit (read bs)" using n by (simp add: emit_read)
  finally show ?thesis by (simp only: read_emit)
qed

text \<open>Everything after the header of a framed message is its body.\<close>

lemma body_of_frame: "drop width (emit r @ body) = body"
  by (simp add: length_emit)

end

text \<open>The header as it travels: network order on the wire, host order in the program.\<close>

definition wire_header :: "header_s \<Rightarrow> byte list" where
  "wire_header h = header_bytes (host_to_net_header h)"

definition parse_header :: "byte list \<Rightarrow> header_s" where
  "parse_header b = net_to_host_header (header_of b)"

lemma length_header_bytes [simp]: "length (header_bytes h) = HEADER_SIZE"
  by (simp add: header_bytes_def)

lemma header_of_bytes: "header_of (header_bytes h @ ys) = h"
  by (simp add: header_of_def header_bytes_def short_bytes_def int_bytes_def wire_simps)

lemma split_16:
  assumes "16 \<le> length bs"
  shows "take 16 bs = [bs ! 0, bs ! 1, bs ! 2, bs ! 3, bs ! 4, bs ! 5, bs ! 6, bs ! 7,
    bs ! 8, bs ! 9, bs ! 10, bs ! 11, bs ! 12, bs ! 13, bs ! 14, bs ! 15]"
  using assms by (intro nth_equalityI) (auto simp: less_Suc_eq numeral_eq_Suc nth_Cons')

lemma header_bytes_of: "16 \<le> length bs \<Longrightarrow> header_bytes (header_of bs) = take 16 bs"
  by (simp add: split_16 header_of_def header_bytes_def short_bytes_def int_bytes_def wire_simps)

interpretation hdr: record_codec wire_header parse_header HEADER_SIZE
  by unfold_locales (simp_all add: wire_header_def parse_header_def header_of_bytes header_bytes_of)

lemma datagram_wire:
  assumes "HEADER_SIZE \<le> nat (sint (packet_length (header p)))"
  shows "datagram p = wire_header (header p) @ take (nat (sint (packet_length (header p))) - HEADER_SIZE) (payload p)"
  using assms by (simp add: datagram_def packet_bytes_def wire_header_def)

lemma received_packet_simps:
  "header (received_packet buf) = parse_header buf"
  "payload (received_packet buf) = drop HEADER_SIZE buf"
  by (simp_all add: received_packet_def packet_of_def parse_header_def)

text \<open>
  A datagram read into a larger buffer is the packet that was sent, as far as it was sent: the
  header, and the payload up to the packet length.
\<close>

lemma receive_datagram:
  assumes "HEADER_SIZE \<le> nat (sint (packet_length (header p)))"
  shows "header (received_packet (datagram p @ ys)) = header p"
    and "payload (received_packet (datagram p @ ys)) =
      take (nat (sint (packet_length (header p))) - HEADER_SIZE) (payload p) @ ys"
  using assms by (simp_all add: received_packet_simps datagram_wire hdr.read_emit hdr.length_emit)

lemma validate_packet_1:
  "validate_packet h = 1 \<longleftrightarrow>
     sint (magic_number h) = 15441 \<and> sint (version_number h) = 1 \<and>
     0 \<le> get_packet_type h \<and> get_packet_type h \<le> 5"
  by (auto simp: validate_packet_def get_packet_type_def)

section \<open>Properties\<close>

text \<open>
  C19. What \<open>send_packet\<close> puts on the wire, received into a larger buffer and converted back, is the
  packet that was sent: the same header in host order and the same payload up to the packet length,
  whatever follows in the buffer. The bytes on the wire are exactly the packet length, and the
  magic number leads them in network byte order.
\<close>

theorem wire_roundtrip:
  assumes "HEADER_SIZE \<le> n" and "n \<le> MAX_PACKET_LENGTH" and "packet_length (header p) = of_nat n"
    and "length (payload p) = MAX_PAYLOAD_LENGTH"
  shows "length (datagram p) = n
   \<and> header (received_packet (datagram p @ ys)) = header p
   \<and> take (n - HEADER_SIZE) (payload (received_packet (datagram p @ ys))) = take (n - HEADER_SIZE) (payload p)
   \<and> take 2 (datagram p) = rev (short_bytes (magic_number (header p)))"
proof -
  have n: "sint (packet_length (header p)) = int n"
    using assms(2,3) by (simp add: signed_of_nat signed_take_bit_int_eq_self)
  then have big: "HEADER_SIZE \<le> nat (sint (packet_length (header p)))" using assms(1) by simp
  have "take 2 (datagram p) = rev (short_bytes (magic_number (header p)))"
    using assms(1) n
    by (simp add: datagram_wire wire_header_def host_to_net_header_def header_bytes_def short_bytes_def
        htons_def wire_simps)
  with assms n show ?thesis
    by (simp add: receive_datagram [OF big]) (simp add: datagram_wire hdr.length_emit)
qed

theorem wire_roundtrip_witness:
  "take 4 (payload (received_packet (datagram
     \<lparr>header = \<lparr>magic_number = 15441, version_number = 1, packet_type = 3, header_length = 16,
                packet_length = 20, seq_number = 7, ack_number = 0\<rparr>,
      payload = [1, 2, 3, 4] @ replicate 1480 0\<rparr> @ [9, 9]))) = [1, 2, 3, 4]"
  using wire_roundtrip [of 20 "\<lparr>header = \<lparr>magic_number = 15441, version_number = 1, packet_type = 3,
      header_length = 16, packet_length = 20, seq_number = 7, ack_number = 0\<rparr>,
      payload = [1, 2, 3, 4] @ replicate 1480 0\<rparr>" "[9, 9]"]
  by simp

end
