(* ===== verification/Memory.thy ===== *)
theory Memory imports Prelude begin

text \<open>
  The explicit store of the model. A heap holds the live objects of one C type; \<open>brk\<close> is the number
  of objects ever allocated, addresses are handed out in order and never reused, so an access
  through a pointer to a freed object is always seen (\<open>Use_After_Free\<close>). A C pointer is
  \<open>nat option\<close>, \<open>None\<close> being \<open>NULL\<close>.

  The program keeps two singly linked lists of heap objects, the provider and the receiver
  connections, and treats them with the same loops. The loops are written here once, over the
  field \<open>nx\<close> that holds the next pointer and its record update \<open>upd\<close>; the locale \<open>linked\<close> states the
  law the two record types provide and proves what the loops do on a well-formed list.
  A loop is given as many steps as objects were ever allocated: a list that takes more repeats an
  object, so the C loop would never end (\<open>Endless_Loop\<close>).
\<close>

type_synonym ptr = "nat option"

record 'c heap =
  cell :: "nat \<Rightarrow> 'c option"
  brk :: nat

definition empty_heap :: "'c heap" where
  "empty_heap = \<lparr>cell = (\<lambda>_. None), brk = 0\<rparr>"

definition heap_load :: "'c heap \<Rightarrow> ptr \<Rightarrow> 'c result" where
  "heap_load h p =
     (case p of None \<Rightarrow> Inl Null_Dereference
      | Some a \<Rightarrow> (case cell h a of None \<Rightarrow> Inl Use_After_Free | Some c \<Rightarrow> Inr c))"

definition heap_store :: "'c heap \<Rightarrow> ptr \<Rightarrow> 'c \<Rightarrow> 'c heap result" where
  "heap_store h p c =
     (case p of None \<Rightarrow> Inl Null_Dereference
      | Some a \<Rightarrow> (case cell h a of None \<Rightarrow> Inl Use_After_Free
                   | Some _ \<Rightarrow> Inr (h\<lparr>cell := (cell h)(a \<mapsto> c)\<rparr>)))"

definition heap_alloc :: "'c heap \<Rightarrow> 'c \<Rightarrow> nat \<times> 'c heap" where
  "heap_alloc h c = (brk h, h\<lparr>cell := (cell h)(brk h \<mapsto> c), brk := Suc (brk h)\<rparr>)"

definition heap_free :: "'c heap \<Rightarrow> ptr \<Rightarrow> 'c heap result" where
  "heap_free h p =
     (case p of None \<Rightarrow> Inr h
      | Some a \<Rightarrow> (case cell h a of None \<Rightarrow> Inl Use_After_Free
                   | Some _ \<Rightarrow> Inr (h\<lparr>cell := (cell h)(a := None)\<rparr>)))"

definition heap_ok :: "'c heap \<Rightarrow> bool" where
  "heap_ok h \<longleftrightarrow> (\<forall>a c. cell h a = Some c \<longrightarrow> a < brk h)"

lemma heap_load_Some [simp]: "cell h a = Some c \<Longrightarrow> heap_load h (Some a) = Inr c"
  by (simp add: heap_load_def)

lemma heap_load_freed [simp]: "cell h a = None \<Longrightarrow> heap_load h (Some a) = Inl Use_After_Free"
  by (simp add: heap_load_def)

lemma heap_load_NULL [simp]: "heap_load h None = Inl Null_Dereference"
  by (simp add: heap_load_def)

lemma heap_store_Some [simp]:
  "cell h a = Some c \<Longrightarrow> heap_store h (Some a) c' = Inr (h\<lparr>cell := (cell h)(a \<mapsto> c')\<rparr>)"
  by (simp add: heap_store_def)

lemma heap_free_Some [simp]:
  "cell h a = Some c \<Longrightarrow> heap_free h (Some a) = Inr (h\<lparr>cell := (cell h)(a := None)\<rparr>)"
  by (simp add: heap_free_def)

lemma heap_ok_store [simp]: "heap_ok h \<Longrightarrow> a < brk h \<Longrightarrow> heap_ok (h\<lparr>cell := (cell h)(a := c)\<rparr>)"
  by (auto simp: heap_ok_def)

lemma heap_ok_live: "heap_ok h \<Longrightarrow> cell h a = Some c \<Longrightarrow> a < brk h"
  by (auto simp: heap_ok_def)

lemma heap_ok_fresh: "heap_ok h \<Longrightarrow> cell h (brk h) = None"
  by (cases "cell h (brk h)") (auto simp: heap_ok_def)

lemma heap_ok_empty [simp]: "heap_ok empty_heap"
  by (simp add: heap_ok_def empty_heap_def)

section \<open>The loops over a linked list\<close>

text \<open>\<open>while (temp != NULL) { if (P(temp)) return temp; temp = temp->next; } return NULL;\<close>\<close>

fun ll_search :: "('c \<Rightarrow> ptr) \<Rightarrow> ('c \<Rightarrow> bool) \<Rightarrow> 'c heap \<Rightarrow> nat \<Rightarrow> ptr \<Rightarrow> ptr result" where
  "ll_search nx P h n None = Inr None"
| "ll_search nx P h 0 (Some a) = Inl Endless_Loop"
| "ll_search nx P h (Suc n) (Some a) =
     andThen (heap_load h (Some a)) (\<lambda>c.
       if P c then Inr (Some a) else ll_search nx P h n (nx c))"

text \<open>\<open>while (p != NULL) { count++; p = p->next; } return count;\<close>\<close>

fun ll_count :: "('c \<Rightarrow> ptr) \<Rightarrow> 'c heap \<Rightarrow> nat \<Rightarrow> int \<Rightarrow> ptr \<Rightarrow> int result" where
  "ll_count nx h n count None = Inr count"
| "ll_count nx h 0 count (Some a) = Inl Endless_Loop"
| "ll_count nx h (Suc n) count (Some a) =
     andThen (heap_load h (Some a)) (\<lambda>c. ll_count nx h n (count + 1) (nx c))"

text \<open>
  \<open>while (temp->next != NULL) { if (temp->next == target) { temp->next = target->next; return; }
  temp = temp->next; }\<close>
\<close>

fun ll_unlink :: "('c \<Rightarrow> ptr) \<Rightarrow> ((ptr \<Rightarrow> ptr) \<Rightarrow> 'c \<Rightarrow> 'c) \<Rightarrow> 'c heap \<Rightarrow> nat \<Rightarrow> ptr \<Rightarrow> ptr \<Rightarrow> 'c heap result" where
  "ll_unlink nx upd h 0 temp target = Inl Endless_Loop"
| "ll_unlink nx upd h (Suc n) temp target =
     andThen (heap_load h temp) (\<lambda>c.
       if nx c = None then Inr h
       else if nx c = target then
         andThen (heap_load h target) (\<lambda>t. heap_store h temp (upd (\<lambda>_. nx t) c))
       else ll_unlink nx upd h n (nx c) target)"

text \<open>The whole removal; the result is the new head and the new heap.\<close>

definition ll_remove ::
  "('c \<Rightarrow> ptr) \<Rightarrow> ((ptr \<Rightarrow> ptr) \<Rightarrow> 'c \<Rightarrow> 'c) \<Rightarrow> 'c heap \<Rightarrow> ptr \<Rightarrow> ptr \<Rightarrow> (ptr \<times> 'c heap) result" where
  "ll_remove nx upd h head target =
     (if head = None then Inr (head, h)
      else if head = target then andThen (heap_load h head) (\<lambda>c. Inr (nx c, h))
      else andThen (ll_unlink nx upd h (brk h) head target) (\<lambda>h. Inr (head, h)))"

text \<open>The abstraction: the addresses of the objects from \<open>p\<close> on, up to \<open>NULL\<close>.\<close>

fun ll_path :: "('c \<Rightarrow> ptr) \<Rightarrow> 'c heap \<Rightarrow> ptr \<Rightarrow> nat list \<Rightarrow> bool" where
  "ll_path nx h p [] \<longleftrightarrow> p = None"
| "ll_path nx h p (a # as) \<longleftrightarrow>
     p = Some a \<and> (case cell h a of None \<Rightarrow> False | Some c \<Rightarrow> ll_path nx h (nx c) as)"

lemma ll_path_NULL [simp]: "ll_path nx h None as \<longleftrightarrow> as = []"
  by (cases as) auto

lemma ll_path_Some:
  "ll_path nx h (Some a) as \<longleftrightarrow>
     (\<exists>c as'. as = a # as' \<and> cell h a = Some c \<and> ll_path nx h (nx c) as')"
  by (cases as) (auto split: option.splits)

lemma ll_path_live: "ll_path nx h p as \<Longrightarrow> a \<in> set as \<Longrightarrow> \<exists>c. cell h a = Some c"
  by (induction as arbitrary: p) (auto split: option.splits)

lemma ll_path_frame:
  "ll_path nx h p as \<Longrightarrow> (\<And>a. a \<in> set as \<Longrightarrow> map_option nx (cell h' a) = map_option nx (cell h a)) \<Longrightarrow>
    ll_path nx h' p as"
proof (induction as arbitrary: p)
  case Nil
  then show ?case by simp
next
  case (Cons a as)
  then obtain c where c: "cell h a = Some c" "p = Some a" "ll_path nx h (nx c) as"
    by (auto split: option.splits)
  with Cons.prems(2) [of a] obtain c' where c': "cell h' a = Some c'" "nx c' = nx c" by auto
  with c Cons.IH [OF c(3)] Cons.prems(2) show ?case by simp
qed

lemma ll_path_unique: "ll_path nx h p as \<Longrightarrow> ll_path nx h p bs \<Longrightarrow> as = bs"
  by (induction as arbitrary: p bs) (auto simp: ll_path_Some split: option.splits)

lemma ll_path_append:
  "ll_path nx h p (as @ b # bs) \<Longrightarrow> ll_path nx h (Some b) (b # bs)"
proof (induction as arbitrary: p)
  case Nil
  then show ?case by (auto split: option.splits)
next
  case (Cons a as)
  then obtain c where "ll_path nx h (nx c) (as @ b # bs)" by (auto split: option.splits)
  then show ?case by (rule Cons.IH)
qed

lemma ll_path_distinct: "ll_path nx h p as \<Longrightarrow> distinct as"
proof (induction as arbitrary: p)
  case Nil
  then show ?case by simp
next
  case (Cons a as)
  then obtain c where c: "cell h a = Some c" "ll_path nx h (nx c) as"
    by (auto split: option.splits)
  have "a \<notin> set as"
  proof
    assume "a \<in> set as"
    then obtain bs cs where as: "as = bs @ a # cs" by (auto simp: in_set_conv_decomp)
    with c(2) have "ll_path nx h (Some a) (a # cs)" by (blast intro: ll_path_append)
    moreover from c have "ll_path nx h (Some a) (a # as)" by simp
    ultimately have "a # cs = a # as" by (rule ll_path_unique)
    then have "length as = length cs" by simp
    with as show False by simp
  qed
  with Cons.IH [OF c(2)] show ?case by simp
qed

lemma ll_path_head: "ll_path nx h p as \<Longrightarrow> p = (if as = [] then None else Some (as ! 0))"
  by (cases as) auto

lemma ll_path_next:
  "ll_path nx h p as \<Longrightarrow> i < length as \<Longrightarrow> cell h (as ! i) = Some c \<Longrightarrow>
    nx c = (if Suc i < length as then Some (as ! Suc i) else None)"
proof (induction as arbitrary: p i)
  case Nil
  then show ?case by simp
next
  case (Cons a as)
  from Cons.prems(1) obtain d where d: "cell h a = Some d" "ll_path nx h (nx d) as"
    by (auto split: option.splits)
  show ?case
  proof (cases i)
    case 0
    with d Cons.prems(3) ll_path_head [OF d(2)] show ?thesis by auto
  next
    case (Suc j)
    with Cons.IH [OF d(2), of j] Cons.prems(2,3) show ?thesis by simp
  qed
qed

lemma ll_path_short:
  assumes "heap_ok h" and "ll_path nx h p as"
  shows "length as \<le> brk h"
proof -
  have "set as \<subseteq> {..<brk h}"
    using assms by (auto dest: ll_path_live intro: heap_ok_live)
  then have "card (set as) \<le> brk h" by (metis card_lessThan card_mono finite_lessThan)
  with ll_path_distinct [OF assms(2)] show ?thesis by (simp add: distinct_card)
qed

lemma ll_search_path:
  assumes "ll_path nx h p as" and "length as \<le> n"
  shows "ll_search nx P h n p =
    Inr (find (\<lambda>a. case cell h a of None \<Rightarrow> False | Some c \<Rightarrow> P c) as)"
  using assms
proof (induction as arbitrary: p n)
  case Nil
  then show ?case by (cases n) simp_all
next
  case (Cons a as)
  then show ?case by (cases n) (auto split: option.splits)
qed

lemma ll_count_path:
  assumes "ll_path nx h p as" and "length as \<le> n"
  shows "ll_count nx h n k p = Inr (k + int (length as))"
  using assms
proof (induction as arbitrary: p n k)
  case Nil
  then show ?case by (cases n) simp_all
next
  case (Cons a as)
  then show ?case by (cases n) (auto split: option.splits)
qed

section \<open>What removal does\<close>

locale linked =
  fixes nx :: "'c \<Rightarrow> ptr"
    and upd :: "(ptr \<Rightarrow> ptr) \<Rightarrow> 'c \<Rightarrow> 'c"
  assumes nx_upd: "nx (upd f c) = f (nx c)"
    and upd_upd: "upd f (upd g c) = upd (f \<circ> g) c"
    and upd_same: "upd (\<lambda>_. nx c) c = c"
begin

text \<open>Two heaps with the same objects, next pointers aside.\<close>

definition same_data :: "'c heap \<Rightarrow> 'c heap \<Rightarrow> bool" where
  "same_data h h' \<longleftrightarrow>
     brk h' = brk h \<and>
     (\<forall>a. map_option (upd (\<lambda>_. None)) (cell h' a) = map_option (upd (\<lambda>_. None)) (cell h a))"

lemma same_data_refl [simp]: "same_data h h"
  by (simp add: same_data_def)

lemma same_data_store:
  "cell h a = Some c \<Longrightarrow> same_data h (h\<lparr>cell := (cell h)(a \<mapsto> upd f c)\<rparr>)"
  by (simp add: same_data_def upd_upd comp_def)

lemma same_data_live: "same_data h h' \<Longrightarrow> cell h a = Some c \<Longrightarrow> \<exists>c'. cell h' a = Some c' \<and> (\<exists>f. c' = upd f c)"
proof -
  assume h: "same_data h h'" and a: "cell h a = Some c"
  then have "map_option (upd (\<lambda>_. None)) (cell h' a) = Some (upd (\<lambda>_. None) c)"
    by (simp add: same_data_def)
  then obtain c' where c': "cell h' a = Some c'" "upd (\<lambda>_. None) c' = upd (\<lambda>_. None) c" by auto
  have "c' = upd (\<lambda>_. nx c') (upd (\<lambda>_. None) c')" by (simp add: upd_upd comp_def upd_same)
  also have "\<dots> = upd (\<lambda>_. nx c') c" by (simp add: c'(2) upd_upd comp_def)
  finally show ?thesis using c'(1) by blast
qed

lemma same_data_None: "same_data h h' \<Longrightarrow> cell h a = None \<Longrightarrow> cell h' a = None"
  by (simp add: same_data_def) (metis map_option_is_None)

lemma unlink_path:
  assumes "ll_path nx h (Some b) (b # bs)" and "a \<noteq> b" and "a \<in> set bs" and "length bs \<le> n"
  shows "safe (ll_unlink nx upd h n (Some b) (Some a))
    (\<lambda>h'. same_data h h' \<and> ll_path nx h' (Some b) (b # remove1 a bs)
          \<and> (\<forall>x. x \<notin> set (b # bs) \<longrightarrow> cell h' x = cell h x))"
  using assms
proof (induction bs arbitrary: b n)
  case Nil
  then show ?case by simp
next
  case (Cons x bs)
  from Cons.prems(4) obtain m where n: "n = Suc m" "length bs \<le> m" by (cases n) auto
  from Cons.prems(1) obtain cb cx where b: "cell h b = Some cb" "nx cb = Some x"
    and x: "cell h x = Some cx" "ll_path nx h (nx cx) bs"
    by (auto split: option.splits)
  have dist: "distinct (b # x # bs)" by (rule ll_path_distinct [OF Cons.prems(1)])
  show ?case
  proof (cases "x = a")
    case True
    let ?h = "h\<lparr>cell := (cell h)(b \<mapsto> upd (\<lambda>_. nx cx) cb)\<rparr>"
    have "ll_path nx ?h (nx cx) bs"
      by (rule ll_path_frame [OF x(2)]) (use dist in auto)
    with True b x n show ?thesis
      by (simp add: same_data_store nx_upd)
  next
    case False
    have px: "ll_path nx h (Some x) (x # bs)" using x by simp
    have a: "a \<noteq> x" "a \<in> set bs" using False Cons.prems(3) by auto
    have call: "ll_unlink nx upd h n (Some b) (Some a) = ll_unlink nx upd h m (Some x) (Some a)"
      using b n a by simp
    show ?thesis
      unfolding call
    proof (rule safe_mono [OF Cons.IH [OF px a n(2)]])
      fix h'
      assume h': "same_data h h' \<and> ll_path nx h' (Some x) (x # remove1 a bs)
          \<and> (\<forall>y. y \<notin> set (x # bs) \<longrightarrow> cell h' y = cell h y)"
      then have "cell h' b = Some cb" using dist b by auto
      with h' b a show "same_data h h' \<and> ll_path nx h' (Some b) (b # remove1 a (x # bs))
          \<and> (\<forall>y. y \<notin> set (b # x # bs) \<longrightarrow> cell h' y = cell h y)"
        by auto
    qed
  qed
qed

lemma remove_path:
  assumes "heap_ok h" and "ll_path nx h head as" and "a \<in> set as"
  shows "safe (ll_remove nx upd h head (Some a))
    (\<lambda>(head', h'). same_data h h' \<and> ll_path nx h' head' (remove1 a as)
       \<and> (\<forall>x. x \<notin> set as \<longrightarrow> cell h' x = cell h x))"
proof -
  from assms(2,3) obtain b bs where as: "as = b # bs" and head: "head = Some b"
    by (cases as) auto
  show ?thesis
  proof (cases "b = a")
    case True
    with assms(2) as head show ?thesis
      by (auto simp: ll_remove_def split: option.splits)
  next
    case False
    have p: "ll_path nx h (Some b) (b # bs)" using assms(2) as head by simp
    have "length bs \<le> brk h"
      using ll_path_short [OF assms(1,2)] as by simp
    from unlink_path [OF p False [symmetric] _ this] False assms(3) as
    have "safe (ll_unlink nx upd h (brk h) (Some b) (Some a))
      (\<lambda>h'. same_data h h' \<and> ll_path nx h' (Some b) (b # remove1 a bs)
          \<and> (\<forall>x. x \<notin> set (b # bs) \<longrightarrow> cell h' x = cell h x))" by auto
    with False as head show ?thesis
      unfolding ll_remove_def by (auto simp: result_simps elim!: safe_mono)
  qed
qed

text \<open>Removing an object that has been freed already reads its next pointer.\<close>

lemma unlink_freed:
  assumes "ll_path nx h (Some b) (b # bs)" and "a \<noteq> b" and "a \<in> set bs" and "length bs \<le> n"
  shows "ll_unlink nx upd (h\<lparr>cell := (cell h)(a := None)\<rparr>) n (Some b) (Some a) = Inl Use_After_Free"
  using assms
proof (induction bs arbitrary: b n)
  case Nil
  then show ?case by simp
next
  case (Cons x bs)
  from Cons.prems(4) obtain m where n: "n = Suc m" "length bs \<le> m" by (cases n) auto
  from Cons.prems(1) obtain cb cx where b: "cell h b = Some cb" "nx cb = Some x"
    and x: "cell h x = Some cx" "ll_path nx h (nx cx) bs"
    by (auto split: option.splits)
  show ?case
  proof (cases "x = a")
    case True
    with b n Cons.prems(2) show ?thesis by simp
  next
    case False
    have "ll_path nx h (Some x) (x # bs)" using x by simp
    from Cons.IH [OF this, of m] False Cons.prems(2,3) n b show ?thesis by simp
  qed
qed

lemma remove_freed:
  assumes "heap_ok h" and "ll_path nx h head as" and "a \<in> set as"
  shows "ll_remove nx upd (h\<lparr>cell := (cell h)(a := None)\<rparr>) head (Some a) = Inl Use_After_Free"
proof -
  from assms(2,3) obtain b bs where as: "as = b # bs" and head: "head = Some b"
    by (cases as) auto
  have "length bs \<le> brk h" using ll_path_short [OF assms(1,2)] as by simp
  with assms as head unlink_freed [of h b bs a "brk h"] show ?thesis
    by (cases "a = b") (auto simp: ll_remove_def)
qed

text \<open>
  The abstraction of a linked list: \<open>view h p as L\<close> says that the list from \<open>p\<close> on consists of
  the objects at \<open>as\<close>, and that \<open>L\<close> are their contents without the next pointers. The lemmas say
  what each loop is on the plain list \<open>L\<close>.
\<close>

definition erase :: "'c \<Rightarrow> 'c" where
  "erase c = upd (\<lambda>_. None) c"

definition view :: "'c heap \<Rightarrow> ptr \<Rightarrow> nat list \<Rightarrow> 'c list \<Rightarrow> bool" where
  "view h p as L \<longleftrightarrow>
     heap_ok h \<and> ll_path nx h p as \<and> map (\<lambda>a. map_option erase (cell h a)) as = map Some L"

lemma erase_upd [simp]: "erase (upd f c) = erase c"
  by (simp add: erase_def upd_upd comp_def)

lemma erase_erase [simp]: "erase (erase c) = erase c"
  by (simp add: erase_def upd_upd comp_def)

lemma restore: "upd (\<lambda>_. nx c) (erase c) = c"
  by (simp add: erase_def upd_upd comp_def upd_same)

lemma view_length: "view h p as L \<Longrightarrow> length as = length L"
  unfolding view_def by (metis length_map)

lemma view_heap_ok: "view h p as L \<Longrightarrow> heap_ok h"
  by (simp add: view_def)

lemma view_distinct: "view h p as L \<Longrightarrow> distinct as"
  by (auto simp: view_def dest: ll_path_distinct)

lemma view_at:
  assumes "view h p as L" and "i < length as"
  shows "\<exists>c. cell h (as ! i) = Some c \<and> erase c = L ! i"
proof -
  have "map (\<lambda>a. map_option erase (cell h a)) as ! i = map Some L ! i"
    using assms(1) by (simp add: view_def)
  then show ?thesis using assms view_length [OF assms(1)] by auto
qed

lemma view_count:
  assumes "view h p as L"
  shows "ll_count nx h (brk h) 0 p = Inr (int (length L))"
  using ll_count_path [of nx h p as "brk h" 0] ll_path_short [of h nx p as] assms view_length [OF assms]
  by (simp add: view_def)

lemma find_nth:
  "find P xs = (case find (\<lambda>i. P (xs ! i)) [0..<length xs] of None \<Rightarrow> None | Some i \<Rightarrow> Some (xs ! i))"
proof (cases "\<exists>x\<in>set xs. P x")
  case False
  then have "find P xs = None" "find (\<lambda>i. P (xs ! i)) [0..<length xs] = None"
    by (auto simp: find_None_iff)
  then show ?thesis by simp
next
  case True
  then have "find P xs \<noteq> None" by (auto simp: find_None_iff)
  then obtain x where x: "find P xs = Some x" by auto
  then obtain i where i: "i < length xs" "P (xs ! i)" "x = xs ! i" "\<forall>j<i. \<not> P (xs ! j)"
    by (auto simp: find_Some_iff)
  then have "find (\<lambda>i. P (xs ! i)) [0..<length xs] = Some i"
    by (auto simp: find_Some_iff intro!: exI [of _ i])
  with x i show ?thesis by simp
qed

lemma view_search:
  assumes "view h p as L" and "\<And>c. P (erase c) = P c"
  shows "ll_search nx P h (brk h) p =
    Inr (map_option (\<lambda>i. as ! i) (find (\<lambda>i. P (L ! i)) [0..<length L]))"
proof -
  have short: "length as \<le> brk h" using assms(1) by (auto simp: view_def intro: ll_path_short)
  let ?Q = "\<lambda>a. case cell h a of None \<Rightarrow> False | Some c \<Rightarrow> P c"
  have "?Q (as ! i) = P (L ! i)" if "i < length as" for i
  proof -
    from view_at [OF assms(1) that] obtain c where c: "cell h (as ! i) = Some c" "L ! i = erase c"
      by auto
    then show ?thesis by (simp only: c option.case assms(2))
  qed
  then have "find (\<lambda>i. ?Q (as ! i)) [0..<length as] = find (\<lambda>i. P (L ! i)) [0..<length L]"
    by (intro find_cong) (simp_all add: view_length [OF assms(1)])
  moreover have "ll_search nx P h (brk h) p = Inr (find ?Q as)"
    using assms(1) short by (auto simp: view_def intro: ll_search_path)
  ultimately show ?thesis by (simp add: find_nth [of ?Q as] split: option.split)
qed

lemma view_store:
  assumes "view h p as L" and "i < length as" and "cell h (as ! i) = Some c" and "nx c' = nx c"
  shows "view (h\<lparr>cell := (cell h)(as ! i \<mapsto> c')\<rparr>) p as (L[i := erase c'])"
proof -
  let ?h = "h\<lparr>cell := (cell h)(as ! i \<mapsto> c')\<rparr>"
  have "ll_path nx ?h p as"
    using assms by (auto simp: view_def intro: ll_path_frame)
  moreover have "heap_ok ?h"
    by (rule heap_ok_store) (use assms in \<open>auto simp: view_def intro: heap_ok_live\<close>)
  moreover have "map (\<lambda>a. map_option erase (cell ?h a)) as = map Some (L[i := erase c'])"
  proof (rule nth_equalityI)
    show "length (map (\<lambda>a. map_option erase (cell ?h a)) as) = length (map Some (L[i := erase c']))"
      using view_length [OF assms(1)] by simp
    fix j
    assume "j < length (map (\<lambda>a. map_option erase (cell ?h a)) as)"
    then have j: "j < length as" by simp
    then have "as ! j = as ! i \<longleftrightarrow> j = i"
      using view_distinct [OF assms(1)] assms(2) by (simp add: nth_eq_iff_index_eq)
    then show "map (\<lambda>a. map_option erase (cell ?h a)) as ! j = map Some (L[i := erase c']) ! j"
      using view_at [OF assms(1) j] j view_length [OF assms(1)] by (auto simp: nth_list_update)
  qed
  ultimately show ?thesis by (simp add: view_def)
qed

text \<open>Removing the object at \<open>as ! i\<close> from the list and freeing it.\<close>

lemma view_remove_free:
  assumes "view h p as L" and "i < length as"
  shows "safe (ll_remove nx upd h p (Some (as ! i))) (\<lambda>(p', h').
    safe (heap_free h' (Some (as ! i))) (\<lambda>h''.
      view h'' p' (take i as @ drop (Suc i) as) (take i L @ drop (Suc i) L)
      \<and> dom (cell h'') = dom (cell h) - {as ! i} \<and> brk h'' = brk h))"
proof -
  let ?a = "as ! i" and ?as = "take i as @ drop (Suc i) as"
  have dist: "distinct as" by (rule view_distinct [OF assms(1)])
  have split: "as = take i as @ ?a # drop (Suc i) as" using assms(2) by (rule id_take_nth_drop)
  have "?a \<notin> set (take i as)"
    using dist by (subst (asm) split) simp
  then have rem: "remove1 ?a as = ?as"
    by (subst split) (simp add: remove1_append)
  have notin: "?a \<notin> set ?as" using dist by (subst (asm) split) simp
  have ok: "heap_ok h" and path: "ll_path nx h p as" and a: "?a \<in> set as"
    using assms by (auto simp: view_def)
  show ?thesis
  proof (rule safe_mono [OF remove_path [OF ok path a]], clarify)
    fix p' h'
    assume h': "same_data h h'" "ll_path nx h' p' (remove1 ?a as)"
    from view_at [OF assms] obtain c where "cell h ?a = Some c" by auto
    from same_data_live [OF h'(1) this] obtain c' where c': "cell h' ?a = Some c'" by auto
    let ?h = "h'\<lparr>cell := (cell h')(?a := None)\<rparr>"
    have erased: "map_option erase (cell h' x) = map_option erase (cell h x)" for x
      using h'(1) by (simp add: same_data_def erase_def [abs_def])
    have live: "(cell h' x = None) = (cell h x = None)" for x
      using erased [of x] by (metis map_option_is_None)
    have "ll_path nx ?h p' ?as"
      by (rule ll_path_frame [OF h'(2) [unfolded rem]]) (use notin in auto)
    moreover have "heap_ok ?h"
      using ok live h'(1) by (auto simp: heap_ok_def same_data_def) (metis option.distinct(1) not_None_eq)
    moreover have "map (\<lambda>x. map_option erase (cell ?h x)) ?as = map Some (take i L @ drop (Suc i) L)"
    proof -
      have "map (\<lambda>x. map_option erase (cell ?h x)) ?as = map (\<lambda>x. map_option erase (cell h x)) ?as"
        using notin by (intro map_cong) (auto simp: erased)
      also have "\<dots> = take i (map (\<lambda>x. map_option erase (cell h x)) as)
          @ drop (Suc i) (map (\<lambda>x. map_option erase (cell h x)) as)"
        by (simp add: take_map drop_map)
      also have "\<dots> = map Some (take i L @ drop (Suc i) L)"
        using assms(1) by (simp add: view_def take_map drop_map)
      finally show ?thesis .
    qed
    moreover have "dom (cell ?h) = dom (cell h) - {?a}"
      by (rule set_eqI) (simp add: dom_def live not_None_eq [symmetric] del: not_None_eq)
    ultimately show "safe (heap_free h' (Some ?a)) (\<lambda>h''.
      view h'' p' ?as (take i L @ drop (Suc i) L)
      \<and> dom (cell h'') = dom (cell h) - {?a} \<and> brk h'' = brk h)"
      using c' h'(1) by (simp add: view_def same_data_def)
  qed
qed

text \<open>Objects outside the list do not matter.\<close>

lemma view_other:
  assumes "view h p as L" and "a \<notin> set as" and "a < b" and "brk h \<le> b"
  shows "view (h\<lparr>cell := (cell h)(a := x), brk := b\<rparr>) p as L"
proof -
  let ?h = "h\<lparr>cell := (cell h)(a := x), brk := b\<rparr>"
  have "ll_path nx ?h p as"
    using assms(1,2) by (auto simp: view_def intro: ll_path_frame)
  moreover have "heap_ok ?h"
    using assms by (auto simp: view_def heap_ok_def split: if_splits)
  moreover have "map (\<lambda>b. map_option erase (cell ?h b)) as = map (\<lambda>b. map_option erase (cell h b)) as"
    by (rule map_cong) (use assms(2) in auto)
  ultimately show ?thesis using assms(1) unfolding view_def by simp
qed

lemma view_push:
  assumes "view h p as L" and "cell h a = Some c" and "a \<notin> set as"
  shows "view (h\<lparr>cell := (cell h)(a \<mapsto> upd (\<lambda>_. p) c)\<rparr>) (Some a) (a # as) (erase c # L)"
proof -
  let ?h = "h\<lparr>cell := (cell h)(a \<mapsto> upd (\<lambda>_. p) c)\<rparr>"
  have "ll_path nx ?h p as"
    using assms by (auto simp: view_def intro: ll_path_frame)
  moreover have "heap_ok ?h"
    by (rule heap_ok_store) (use assms in \<open>auto simp: view_def intro: heap_ok_live\<close>)
  moreover have "map (\<lambda>b. map_option erase (cell ?h b)) as = map Some L"
  proof -
    have "map (\<lambda>b. map_option erase (cell ?h b)) as = map (\<lambda>b. map_option erase (cell h b)) as"
      by (rule map_cong) (use assms(3) in auto)
    also have "\<dots> = map Some L" using assms(1) by (simp add: view_def)
    finally show ?thesis .
  qed
  ultimately show ?thesis by (simp only: view_def list.map ll_path.simps) (simp add: nx_upd)
qed

end

end
