(* ===== verification/State.thy ===== *)
theory State imports Memory Packet Lib_Time Chunk begin

text \<open>
  The data of a running peer: the structs of \<open>job.h\<close>, \<open>connection.h\<close> and \<open>bt_parse.h\<close> and the
  globals of \<open>peer.h\<close>, as one record \<open>peer_s\<close>. Its first part, \<open>world\<close>, is what a peer shares with
  the machine it runs on: the clock, the contents of freshly allocated memory, the files and the
  datagrams handed to the socket.

  Pointers. Jobs and connections are objects of heaps, because the program frees them while other
  pointers to them exist. A pointer to a chunk of a job is the job's address and the chunk's index.
  The list of peers and the array \<open>has_chunks\<close> are built once and never freed, so pointers into them
  are indices. A chunk list node belongs to one connection and is freed with it, so the list hangs
  off the connection as a HOL list. Fields that the code leaves uninitialised at first are options.
\<close>

section \<open>The machine\<close>

record sockaddr_in =
  sin_port :: c_short
  sin_addr :: c_int

record world =
  clock :: "nat \<Rightarrow> timeval"
  uninit :: "nat \<Rightarrow> nat \<Rightarrow> byte"
  ticks :: nat
  files :: "byte list \<Rightarrow> byte list option"
  can_append :: "nat \<Rightarrow> byte list \<Rightarrow> bool"
  disk_room :: "nat \<Rightarrow> nat"
  outbox :: "(sockaddr_in \<times> byte list) list"
  log_start :: timeval
  window_log :: "(int \<times> int \<times> int) list"

text \<open>One reading of the clock, and the memory a \<open>malloc\<close> or a stack frame finds.\<close>

definition gettimeofday :: "'a world_scheme \<Rightarrow> timeval \<times> 'a world_scheme" where
  "gettimeofday s = (clock s (ticks s), s\<lparr>ticks := Suc (ticks s)\<rparr>)"

definition fresh_memory :: "'a world_scheme \<Rightarrow> (nat \<Rightarrow> byte) \<times> 'a world_scheme" where
  "fresh_memory s = (uninit s (ticks s), s\<lparr>ticks := Suc (ticks s)\<rparr>)"

definition elapsed_since :: "timeval \<Rightarrow> 'a world_scheme \<Rightarrow> int \<times> 'a world_scheme" where
  "elapsed_since before s =
     (case gettimeofday s of (now, s) \<Rightarrow> (get_time_diff before now, s))"

definition send_packet :: "network_packet_s \<Rightarrow> sockaddr_in \<Rightarrow> 'a world_scheme \<Rightarrow> 'a world_scheme" where
  "send_packet packet to s = s\<lparr>outbox := outbox s @ [(to, datagram packet)]\<rparr>"

section \<open>Jobs and chunks\<close>

datatype chunk_status =
    CHUNK_STATUS_NOT_FOUND
  | CHUNK_STATUS_DOWNDLOADING
  | CHUNK_STATUS_PENDING
  | CHUNK_STATUS_FINISHED

record chunk_s =
  ck_id :: int
  hash_binary :: "byte list"
  ck_status :: chunk_status
  received_seq_num :: int
  received_byte_num :: int
  ck_data :: "byte list option"

record job_s =
  output_file_name :: "byte list"
  chunks :: "chunk_s list"

type_synonym chunk_ref = "nat \<times> nat"

section \<open>Peers and connections\<close>

record bt_peer_s =
  peer_id :: int
  peer_addr :: sockaddr_in

datatype provider_status =
    PROVIDER_STATUS_SLOW_START
  | PROVIDER_STATUS_CONGESTION_AVOIDANCE

datatype receiver_status =
    RECEIVER_STATUS_PENGDING_DATA
  | RECEIVER_STATUS_RECEIVED_DATA

record provider_connection_s =
  pc_receiver :: ptr
  pc_id :: int
  pc_chunk :: nat
  ssthresh :: int
  window_size :: int
  pc_status :: provider_status
  CA_last_increase_time :: timeval
  RTT :: int
  RTT_data_sent_time :: "timeval option"
  RTT_ack_num :: int
  last_acked_received_time :: timeval
  last_data_send_time :: timeval
  num_duplicate_ack :: int
  last_packet_acked :: int
  last_packet_sent :: int
  pc_next :: ptr

record receiver_connection_s =
  rc_provider :: ptr
  chunk_list :: "chunk_ref list"
  rc_start_time :: timeval
  last_get_time :: "timeval option"
  last_data_time :: "timeval option"
  rc_status :: receiver_status
  rc_next :: ptr

record bt_config_s =
  chunk_file :: "byte list"
  has_chunk_file :: "byte list"
  output_file :: "byte list"
  peer_list_file :: "byte list"
  max_conn :: int
  identity :: int
  myport :: c_short
  peers :: "bt_peer_s list"

section \<open>The peer\<close>

record peer_s = world +
  config :: bt_config_s
  current_job :: ptr
  jobs :: "job_s heap"
  has_chunks :: "chunk_s list"
  max_provider_connection :: int
  provider_connection_head :: ptr
  providers :: "provider_connection_s heap"
  max_receiver_connection :: int
  receiver_connection_head :: ptr
  receivers :: "receiver_connection_s heap"
  provider_id :: int

text \<open>Loads and stores through the three kinds of pointer.\<close>

definition load_provider :: "peer_s \<Rightarrow> ptr \<Rightarrow> provider_connection_s result" where
  "load_provider s p = heap_load (providers s) p"

definition store_provider :: "peer_s \<Rightarrow> ptr \<Rightarrow> provider_connection_s \<Rightarrow> peer_s result" where
  "store_provider s p c = andThen (heap_store (providers s) p c) (\<lambda>h. Inr (s\<lparr>providers := h\<rparr>))"

definition load_receiver :: "peer_s \<Rightarrow> ptr \<Rightarrow> receiver_connection_s result" where
  "load_receiver s p = heap_load (receivers s) p"

definition store_receiver :: "peer_s \<Rightarrow> ptr \<Rightarrow> receiver_connection_s \<Rightarrow> peer_s result" where
  "store_receiver s p c = andThen (heap_store (receivers s) p c) (\<lambda>h. Inr (s\<lparr>receivers := h\<rparr>))"

definition load_job_chunk :: "peer_s \<Rightarrow> chunk_ref \<Rightarrow> chunk_s result" where
  "load_job_chunk s r =
     (case r of (j, i) \<Rightarrow> andThen (heap_load (jobs s) (Some j)) (\<lambda>job.
        if i < length (chunks job) then Inr (chunks job ! i) else Inl Buffer_Overflow))"

definition store_job_chunk :: "peer_s \<Rightarrow> chunk_ref \<Rightarrow> chunk_s \<Rightarrow> peer_s result" where
  "store_job_chunk s r c =
     (case r of (j, i) \<Rightarrow> andThen (heap_load (jobs s) (Some j)) (\<lambda>job.
        if i < length (chunks job)
        then andThen (heap_store (jobs s) (Some j) (job\<lparr>chunks := (chunks job)[i := c]\<rparr>))
               (\<lambda>h. Inr (s\<lparr>jobs := h\<rparr>))
        else Inl Buffer_Overflow))"

text \<open>\<open>peer->addr\<close>: the address of the peer a connection points to.\<close>

definition load_peer :: "peer_s \<Rightarrow> ptr \<Rightarrow> bt_peer_s result" where
  "load_peer s p =
     (case p of None \<Rightarrow> Inl Null_Dereference
      | Some i \<Rightarrow> (if i < length (peers (config s)) then Inr (peers (config s) ! i)
                   else Inl Buffer_Overflow))"

lemma outbox_send_packet [simp]: "outbox (send_packet p to s) = outbox s @ [(to, datagram p)]"
  by (simp add: send_packet_def)

lemma load_peer_Some [simp]: "i < length (peers (config s)) \<Longrightarrow> load_peer s (Some i) = Inr (peers (config s) ! i)"
  by (simp add: load_peer_def)

lemma load_peer_NULL [simp]: "load_peer s None = Inl Null_Dereference"
  by (simp add: load_peer_def)

section \<open>The two connection lists\<close>

interpretation pl: linked pc_next pc_next_update
  by unfold_locales (simp_all add: comp_def)

interpretation rl: linked rc_next rc_next_update
  by unfold_locales (simp_all add: comp_def)

section \<open>Concrete states\<close>

text \<open>States on which the theories below instantiate their theorems.\<close>

definition example_world :: world where
  "example_world =
     \<lparr>clock = (\<lambda>n. \<lparr>tv_sec = 0, tv_usec = 0\<rparr>), uninit = (\<lambda>_ _. 0), ticks = 0, files = (\<lambda>_. None),
      can_append = (\<lambda>_ _. True), disk_room = (\<lambda>_. 0), outbox = [],
      log_start = \<lparr>tv_sec = 0, tv_usec = 0\<rparr>, window_log = []\<rparr>"

definition example_chunk :: "int \<Rightarrow> byte \<Rightarrow> chunk_s" where
  "example_chunk i b =
     \<lparr>ck_id = i, hash_binary = replicate 20 b, ck_status = CHUNK_STATUS_NOT_FOUND,
      received_seq_num = 0, received_byte_num = 0, ck_data = None\<rparr>"

text \<open>A peer that owns one loaded chunk, knows one other peer and has no job and no connection.\<close>

definition example_peer :: peer_s where
  "example_peer =
     world.extend example_world
       \<lparr>config = \<lparr>chunk_file = [0x43], has_chunk_file = [0x48], output_file = [0x4f], peer_list_file = [0x4e], max_conn = 4,
                  identity = 1,
                  myport = 4, peers = [\<lparr>peer_id = 2, peer_addr = \<lparr>sin_port = 5, sin_addr = 6\<rparr>\<rparr>]\<rparr>,
        current_job = None, jobs = empty_heap,
        has_chunks = [(example_chunk 0 1)\<lparr>ck_data := Some (replicate CHUNK_DATA_SIZE 9)\<rparr>],
        max_provider_connection = 4, provider_connection_head = None, providers = empty_heap,
        max_receiver_connection = 4, receiver_connection_head = None, receivers = empty_heap,
        provider_id = 1\<rparr>"

lemma example_peer_simps [simp]:
  "clock example_peer = (\<lambda>n. \<lparr>tv_sec = 0, tv_usec = 0\<rparr>)" "uninit example_peer = (\<lambda>_ _. 0)"
  "ticks example_peer = 0" "outbox example_peer = []" "files example_peer = (\<lambda>_. None)"
  "peers (config example_peer) = [\<lparr>peer_id = 2, peer_addr = \<lparr>sin_port = 5, sin_addr = 6\<rparr>\<rparr>]"
  "identity (config example_peer) = 1"
  "current_job example_peer = None" "jobs example_peer = empty_heap"
  "has_chunks example_peer = [(example_chunk 0 1)\<lparr>ck_data := Some (replicate CHUNK_DATA_SIZE 9)\<rparr>]"
  "max_provider_connection example_peer = 4" "provider_connection_head example_peer = None"
  "providers example_peer = empty_heap" "max_receiver_connection example_peer = 4"
  "receiver_connection_head example_peer = None" "receivers example_peer = empty_heap"
  "provider_id example_peer = 1"
  by (simp_all add: example_peer_def world.defs example_world_def)

end
