(* ===== verification/Stdio.thy ===== *)
theory Stdio imports Prelude begin

text \<open>
  The parts of the C library's text input and output that the program uses, on byte lists: lines as
  \<open>fgets\<close> returns them, the conversions \<open>%d\<close> and \<open>%s\<close> of \<open>sscanf\<close>, \<open>atoi\<close>, and \<open>%d\<close> of \<open>printf\<close>.
  A string is a list of bytes up to its terminating zero.
\<close>

section \<open>Processes\<close>

text \<open>
  Code that may end the process: by \<open>exit\<close> with a code, by a failed \<open>assert\<close> (the program is compiled
  without \<open>NDEBUG\<close>), or not at all. Standard output and error are not modelled.
\<close>

datatype 'a process =
    Exited int
  | Aborted
  | Running 'a

definition andRun :: "'a process result \<Rightarrow> ('a \<Rightarrow> 'b process result) \<Rightarrow> 'b process result" where
  "andRun m f =
     andThen m (\<lambda>p. case p of Exited c \<Rightarrow> Inr (Exited c) | Aborted \<Rightarrow> Inr Aborted | Running v \<Rightarrow> f v)"

lemma andRun_simps [simp]:
  "andRun (Inl e) f = Inl e" "andRun (Inr (Exited c)) f = Inr (Exited c)"
  "andRun (Inr Aborted) f = Inr Aborted" "andRun (Inr (Running v)) f = f v"
  by (simp_all add: andRun_def)

lemma andRun_Running: "andRun m f = Inr (Running r) \<longleftrightarrow> (\<exists>v. m = Inr (Running v) \<and> f v = Inr (Running r))"
  by (cases m) (auto simp: andRun_def split: process.splits)

section \<open>Strings and lines\<close>

definition is_space :: "byte \<Rightarrow> bool" where
  "is_space c \<longleftrightarrow> c = 0x20 \<or> (0x09 \<le> c \<and> c \<le> 0x0d)"

definition is_digit :: "byte \<Rightarrow> bool" where
  "is_digit c \<longleftrightarrow> 0x30 \<le> c \<and> c \<le> 0x39"

definition c_string :: "byte list \<Rightarrow> byte list" where
  "c_string buf = takeWhile (\<lambda>c. c \<noteq> 0) buf"

text \<open>
  \<open>fgets\<close> into a buffer of \<open>bufsize\<close> bytes: the line up to its newline, at most \<open>bufsize - 1\<close> bytes.
\<close>

definition fgets_line :: "nat \<Rightarrow> byte list \<Rightarrow> byte list" where
  "fgets_line bufsize file =
     (let line = takeWhile (\<lambda>c. c \<noteq> 0x0a) file
      in take (bufsize - 1) (if length line < length file then line @ [0x0a] else line))"

lemma fgets_line_progress: "1 < bufsize \<Longrightarrow> input \<noteq> [] \<Longrightarrow> fgets_line bufsize input \<noteq> []"
  by (cases input) (auto simp: fgets_line_def Let_def)

text \<open>What \<open>while (fgets(...))\<close> sees of a file, one buffer after the other.\<close>

function fgets_lines :: "nat \<Rightarrow> byte list \<Rightarrow> byte list list" where
  "fgets_lines bufsize file =
     (if bufsize \<le> 1 \<or> file = [] then []
      else let line = fgets_line bufsize file in line # fgets_lines bufsize (drop (length line) file))"
  by pat_completeness auto

termination
proof (relation "measure (\<lambda>(bufsize, input). length input)")
  fix bufsize :: nat and input line :: "byte list"
  assume "\<not> (bufsize \<le> 1 \<or> input = [])" and "line = fgets_line bufsize input"
  with fgets_line_progress [of bufsize input] have "0 < length line" "0 < length input" by auto
  then show "((bufsize, drop (length line) input), bufsize, input) \<in> measure (\<lambda>(bufsize, input). length input)"
    by simp
qed simp

declare fgets_lines.simps [simp del]

lemma fgets_lines_Nil [simp]: "fgets_lines n [] = []"
  by (subst fgets_lines.simps) simp

text \<open>A line that fits comes out whole.\<close>

lemma fgets_lines_line:
  assumes "0x0a \<notin> set line" and "length line + 1 < n"
  shows "fgets_lines n (line @ 0x0a # file) = (line @ [0x0a]) # fgets_lines n file"
proof -
  have tw: "takeWhile (\<lambda>c. c \<noteq> 0x0a) (line @ 0x0a # file) = line"
    using assms(1) by (subst takeWhile_append2) auto
  have "fgets_line n (line @ 0x0a # file) = line @ [0x0a]"
    unfolding fgets_line_def tw Let_def using assms(2) by simp
  with assms(2) show ?thesis by (subst fgets_lines.simps) (simp add: Let_def)
qed

section \<open>Conversions\<close>

text \<open>
  An \<open>int\<close> from decimal digits: the value saturates at the limits of \<open>long\<close> and is then cut to 32 bits,
  as the library on a 64-bit machine does it.
\<close>

definition digits_value :: "byte list \<Rightarrow> nat" where
  "digits_value ds = foldl (\<lambda>n d. 10 * n + (unat d - 48)) 0 ds"

definition long_to_int :: "int \<Rightarrow> int" where
  "long_to_int v = sint (word_of_int (max (- (2 ^ 63)) (min (2 ^ 63 - 1) v)) :: c_int)"

definition scan_sign :: "byte list \<Rightarrow> bool \<times> byte list" where
  "scan_sign s =
     (case s of [] \<Rightarrow> (False, [])
      | c # r \<Rightarrow> if c = 0x2d then (True, r) else if c = 0x2b then (False, r) else (False, s))"

definition scan_d :: "byte list \<Rightarrow> (int \<times> byte list) option" where
  "scan_d str =
     (let (negative, s) = scan_sign (dropWhile is_space str);
          ds = takeWhile is_digit s;
          v = int (digits_value ds)
      in if ds = [] then None
         else Some (long_to_int (if negative then - v else v), drop (length ds) s))"

definition scan_s :: "byte list \<Rightarrow> (byte list \<times> byte list) option" where
  "scan_s str =
     (let s = dropWhile is_space str; w = takeWhile (\<lambda>c. \<not> is_space c) s
      in if w = [] then None else Some (w, drop (length w) s))"

text \<open>\<open>%120s\<close>: at most so many bytes of the word.\<close>

definition scan_s_max :: "nat \<Rightarrow> byte list \<Rightarrow> (byte list \<times> byte list) option" where
  "scan_s_max n str =
     (let s = dropWhile is_space str; w = take n (takeWhile (\<lambda>c. \<not> is_space c) s)
      in if w = [] then None else Some (w, drop (length w) s))"

definition atoi :: "byte list \<Rightarrow> int" where
  "atoi str = (case scan_d (c_string str) of None \<Rightarrow> 0 | Some (v, rest) \<Rightarrow> v)"

section \<open>Printing a number\<close>

fun decimal :: "nat \<Rightarrow> byte list" where
  "decimal n = (if n < 10 then [0x30 + of_nat n] else decimal (n div 10) @ [0x30 + of_nat (n mod 10)])"

declare decimal.simps [simp del]

lemma unat_digit: "n < 10 \<Longrightarrow> unat (0x30 + of_nat n :: byte) = 48 + n"
  by (simp add: unat_word_ariths unat_of_nat)

lemma digit_is_digit: "n < 10 \<Longrightarrow> is_digit (0x30 + of_nat n)"
  using unat_digit [of n] by (simp add: is_digit_def word_le_nat_alt)

lemma decimal_digits: "\<forall>c \<in> set (decimal n). is_digit c"
proof (induction n rule: decimal.induct)
  case (1 n)
  then show ?case by (subst decimal.simps) (auto simp: digit_is_digit)
qed

lemma decimal_not_Nil [simp]: "decimal n \<noteq> []"
  by (subst decimal.simps) simp

lemma digits_value_decimal: "digits_value (decimal n) = n"
proof (induction n rule: decimal.induct)
  case (1 n)
  show ?case
  proof (cases "n < 10")
    case True
    then show ?thesis by (subst decimal.simps) (simp add: digits_value_def unat_digit)
  next
    case False
    with 1 have "foldl (\<lambda>n d. 10 * n + (unat d - 48)) 0 (decimal (n div 10)) = n div 10"
      by (simp add: digits_value_def)
    with False show ?thesis by (subst decimal.simps) (simp add: digits_value_def unat_digit)
  qed
qed

lemma long_to_int_small: "- (2 ^ 31) \<le> v \<Longrightarrow> v < 2 ^ 31 \<Longrightarrow> long_to_int v = v"
proof -
  assume v: "- (2 ^ 31) \<le> v" "v < 2 ^ 31"
  then have "max (- (2 ^ 63)) (min (2 ^ 63 - 1) v) = v" by simp
  with v show ?thesis unfolding long_to_int_def by (simp only: sint_word_of_int_small)
qed

lemma digit_not_space: "is_digit c \<Longrightarrow> \<not> is_space c \<and> c \<noteq> 0x2d \<and> c \<noteq> 0x2b \<and> c \<noteq> 0 \<and> c \<noteq> 0x0a"
  by (auto simp: is_digit_def is_space_def word_le_nat_alt)

text \<open>What was printed is read back, if no digit follows.\<close>

lemma scan_d_decimal:
  assumes "n < 2 ^ 31" and "rest = [] \<or> \<not> is_digit (hd rest)"
  shows "scan_d (decimal n @ rest) = Some (int n, rest)"
proof -
  obtain c cs where d: "decimal n = c # cs" by (cases "decimal n") auto
  with decimal_digits [of n] have c: "is_digit c" by simp
  have "scan_sign (dropWhile is_space (decimal n @ rest)) = (False, decimal n @ rest)"
    using digit_not_space [OF c] by (simp add: d scan_sign_def)
  moreover have "takeWhile is_digit (decimal n @ rest) = decimal n"
    using assms(2) decimal_digits [of n] by (cases rest) auto
  ultimately show ?thesis
    using long_to_int_small [of "int n"] assms(1) by (simp add: scan_d_def digits_value_decimal)
qed

lemma scan_s_word:
  assumes "w \<noteq> []" and "\<forall>c \<in> set w. \<not> is_space c" and "rest = [] \<or> is_space (hd rest)"
  shows "scan_s (0x20 # w @ rest) = Some (w, rest)"
proof -
  have "dropWhile is_space (0x20 # w @ rest) = w @ rest"
    using assms(1,2) by (cases w) (auto simp: is_space_def)
  moreover have "takeWhile (\<lambda>c. \<not> is_space c) (w @ rest) = w"
    using assms(2,3) by (cases rest) auto
  ultimately show ?thesis using assms(1) by (simp add: scan_s_def)
qed

lemma length_decimal: "n < 10 ^ k \<Longrightarrow> 0 < k \<Longrightarrow> length (decimal n) \<le> k"
proof (induction k arbitrary: n)
  case 0
  then show ?case by simp
next
  case (Suc k)
  show ?case
  proof (cases "n < 10")
    case True
    then show ?thesis by (subst decimal.simps) simp
  next
    case False
    with Suc.prems have "n div 10 < 10 ^ k" by (auto simp: div_less_iff_less_mult)
    moreover have "0 < k" using False Suc.prems by (cases k) auto
    ultimately show ?thesis using Suc.IH [of "n div 10"] False by (subst decimal.simps) simp
  qed
qed

end
