(* ===== verification/Job.thy ===== *)
theory Job imports State Stdio begin

text \<open>
  \<open>job.c\<close>: looking chunks up by hash, the packet constructors, and loading an owned chunk from the
  data file. A packet is constructed in memory from \<open>malloc\<close>: \<open>mem\<close> is what that memory holds, and
  every payload byte the code does not write keeps it. Integers that index the payload are bounded
  by the packet size and are \<open>nat\<close>; the hash count field is the signed byte the code reads.
\<close>

section \<open>Constants\<close>

lemma sha1_hash_size [simp]: "SHA1_HASH_SIZE = 20"
  by (simp add: SHA1_HASH_SIZE_def)

definition new_header :: "int \<Rightarrow> nat \<Rightarrow> int \<Rightarrow> int \<Rightarrow> header_s" where
  "new_header ty len seq ack =
     \<lparr>magic_number = word_of_int MAGIC_NUMBER,
      version_number = word_of_int VERSION_NUMBER,
      packet_type = word_of_int ty,
      header_length = of_nat HEADER_SIZE,
      packet_length = of_nat len,
      seq_number = word_of_int seq,
      ack_number = word_of_int ack\<rparr>"

definition fresh_payload :: "(nat \<Rightarrow> byte) \<Rightarrow> byte list" where
  "fresh_payload mem = map mem [0..<MAX_PAYLOAD_LENGTH]"

text \<open>The \<open>i\<close>-th hash behind the count field and its alignment bytes.\<close>

definition hash_at :: "byte list \<Rightarrow> nat \<Rightarrow> byte list" where
  "hash_at pl i = take HASH_CHUNK_SIZE (drop (ALIGNMENT_BYTE_NUM + i * HASH_CHUNK_SIZE) pl)"

text \<open>
  The number of hashes a received list announces, as the code reads it: the first payload byte as
  a signed \<open>char\<close>, cut to the maximum. The loops over it run \<open>nat\<close> of it times.
\<close>

definition hash_count :: "byte list \<Rightarrow> int" where
  "hash_count pl =
     (let hash_num = sint (pl ! 0)
      in if hash_num > int MAX_HASH_LIST_NUM then int MAX_HASH_LIST_NUM else hash_num)"

definition announced_hashes :: "byte list \<Rightarrow> byte list list" where
  "announced_hashes pl = map (hash_at pl) [0..<nat (hash_count pl)]"

section \<open>Jobs and chunk list nodes\<close>

text \<open>
  A chunk list is a HOL list, so a new node is a list of one chunk; a node is freed by dropping it from the
  list.
\<close>

definition malloc_chunk_node :: "chunk_ref \<Rightarrow> chunk_ref list" where
  [simp]: "malloc_chunk_node chunk = [chunk]"

definition free_job :: "ptr \<Rightarrow> peer_s \<Rightarrow> peer_s result" where
  [simp]: "free_job job s =
     andThen (heap_load (jobs s) job) (\<lambda>_. andThen (heap_free (jobs s) job) (\<lambda>h. Inr (s\<lparr>jobs := h\<rparr>)))"

section \<open>Looking up a chunk by its hash\<close>

fun search_hash :: "byte list \<Rightarrow> nat \<Rightarrow> chunk_s list \<Rightarrow> nat option" where
  "search_hash h i [] = None"
| "search_hash h i (c # cs) = (if h = hash_binary c then Some i else search_hash h (Suc i) cs)"

definition seach_owned_chunk :: "chunk_s list \<Rightarrow> byte list \<Rightarrow> nat option" where
  "seach_owned_chunk has h = search_hash h 0 has"

text \<open>\<open>get_chunk\<close> reads \<open>current_job\<close> without a check.\<close>

definition get_chunk :: "byte list \<Rightarrow> peer_s \<Rightarrow> chunk_ref option result" where
  "get_chunk h s =
     andThen (heap_load (jobs s) (current_job s)) (\<lambda>job.
       Inr (map_option (\<lambda>i. (the (current_job s), i)) (search_hash h 0 (chunks job))))"

section \<open>Packets with one destination\<close>

definition malloc_get_packet :: "(nat \<Rightarrow> byte) \<Rightarrow> byte list \<Rightarrow> network_packet_s" where
  "malloc_get_packet mem hash =
     \<lparr>header = new_header TYPE_GET (HEADER_SIZE + HASH_CHUNK_SIZE) 0 0,
      payload = overwrite (fresh_payload mem) 0 hash\<rparr>"

definition malloc_data_packet :: "(nat \<Rightarrow> byte) \<Rightarrow> byte list \<Rightarrow> nat \<Rightarrow> int \<Rightarrow> network_packet_s" where
  "malloc_data_packet mem data data_size seq_num =
     \<lparr>header = new_header TYPE_DATA (HEADER_SIZE + data_size) seq_num 0,
      payload = overwrite (fresh_payload mem) 0 (take data_size data)\<rparr>"

definition malloc_ack_packet :: "(nat \<Rightarrow> byte) \<Rightarrow> int \<Rightarrow> network_packet_s" where
  "malloc_ack_packet mem ack_num =
     \<lparr>header = new_header TYPE_ACK HEADER_SIZE 0 ack_num,
      payload = fresh_payload mem\<rparr>"

section \<open>IHAVE\<close>

text \<open>
  The loop over the requested hashes: \<open>is\<close> are the indices still to come, \<open>pl\<close> the payload being
  filled and \<open>k\<close> is \<open>ihave_hash_number\<close>.
\<close>

fun ihave_loop :: "chunk_s list \<Rightarrow> byte list \<Rightarrow> nat list \<Rightarrow> byte list \<Rightarrow> nat \<Rightarrow> byte list \<times> nat" where
  "ihave_loop has req [] pl k = (pl, k)"
| "ihave_loop has req (i # is) pl k =
     (let h = hash_at req i
      in if seach_owned_chunk has h \<noteq> None
         then ihave_loop has req is (overwrite pl (ALIGNMENT_BYTE_NUM + k * HASH_CHUNK_SIZE) h) (Suc k)
         else ihave_loop has req is pl k)"

definition malloc_ihave_packet ::
  "(nat \<Rightarrow> byte) \<Rightarrow> chunk_s list \<Rightarrow> network_packet_s \<Rightarrow> network_packet_s option" where
  "malloc_ihave_packet mem has whohas =
     (let n = nat (hash_count (payload whohas));
          (pl, k) = ihave_loop has (payload whohas) [0..<n] (fresh_payload mem) 0
      in if k = 0 then None
         else Some \<lparr>header = new_header TYPE_IHAVE (HEADER_SIZE + ALIGNMENT_BYTE_NUM + HASH_CHUNK_SIZE * k) 0 0,
                    payload = pl[0 := of_nat k]\<rparr>)"

section \<open>WHOHAS\<close>

definition not_found :: "chunk_s \<Rightarrow> bool" where
  "not_found c \<longleftrightarrow> ck_status c = CHUNK_STATUS_NOT_FOUND"

fun count_not_found :: "chunk_s list \<Rightarrow> nat \<Rightarrow> nat" where
  "count_not_found [] n = n"
| "count_not_found (c # cs) n = count_not_found cs (if not_found c then Suc n else n)"

definition get_not_found_chunk_number :: "job_s \<Rightarrow> nat" where
  "get_not_found_chunk_number job = count_not_found (chunks job) 0"

text \<open>
  The inner loop over the chunks: \<open>cs\<close> are the chunks from \<open>chunk_count\<close> on. It stops behind the
  first chunk that is not found, and returns that chunk.
\<close>

fun next_not_found :: "chunk_s list \<Rightarrow> chunk_s option \<times> chunk_s list" where
  "next_not_found [] = (None, [])"
| "next_not_found (c # cs) = (if not_found c then (Some c, cs) else next_not_found cs)"

text \<open>The loop over \<open>j\<close>: \<open>n\<close> slots are left, \<open>j\<close> is the next slot.\<close>

fun whohas_fill :: "nat \<Rightarrow> nat \<Rightarrow> byte list \<Rightarrow> chunk_s list \<Rightarrow> byte list \<times> chunk_s list" where
  "whohas_fill 0 j pl cs = (pl, cs)"
| "whohas_fill (Suc n) j pl cs =
     (case next_not_found cs of
        (None, cs') \<Rightarrow> whohas_fill n (Suc j) pl cs'
      | (Some c, cs') \<Rightarrow>
          whohas_fill n (Suc j) (overwrite pl (ALIGNMENT_BYTE_NUM + j * HASH_CHUNK_SIZE) (hash_binary c)) cs')"

text \<open>
  The outer loop: \<open>r\<close> packets remain, \<open>nf\<close> is the number of chunks not found, \<open>k\<close> is
  \<open>packet_count\<close>. The memory of the packet array is given per packet.
\<close>

fun whohas_loop ::
  "(nat \<Rightarrow> nat \<Rightarrow> byte) \<Rightarrow> nat \<Rightarrow> nat \<Rightarrow> nat \<Rightarrow> chunk_s list \<Rightarrow> network_packet_s list" where
  "whohas_loop mem nf 0 k cs = []"
| "whohas_loop mem nf (Suc r) k cs =
     (let hash_num = (if Suc r > 1 then MAX_HASH_LIST_NUM else nf - k * MAX_HASH_LIST_NUM);
          (pl, cs') = whohas_fill hash_num 0 ((fresh_payload (mem k))[0 := of_nat hash_num]) cs
      in \<lparr>header = new_header TYPE_WHOHAS (HEADER_SIZE + ALIGNMENT_BYTE_NUM + HASH_CHUNK_SIZE * hash_num) 0 0,
          payload = pl\<rparr> # whohas_loop mem nf r (Suc k) cs')"

definition malloc_all_whohas_packet ::
  "(nat \<Rightarrow> nat \<Rightarrow> byte) \<Rightarrow> job_s \<Rightarrow> network_packet_s list" where
  "malloc_all_whohas_packet mem job =
     (let not_found_chunk_num = get_not_found_chunk_number job;
          packet_number = (if not_found_chunk_num mod MAX_HASH_LIST_NUM = 0
                           then not_found_chunk_num div MAX_HASH_LIST_NUM
                           else not_found_chunk_num div MAX_HASH_LIST_NUM + 1)
      in if not_found_chunk_num = 0 then []
         else whohas_loop mem not_found_chunk_num packet_number 0 (chunks job))"

section \<open>Loading an owned chunk\<close>

text \<open>
  \<open>sscanf("File:%s")\<close> on the first line, read into a buffer of 256 bytes: the literal must match, white space is skipped, and the name ends at the next white
  space or zero byte. Where the literal does not match, the name stays empty.
\<close>

definition File_literal :: "byte list" where
  "File_literal = [0x46, 0x69, 0x6c, 0x65, 0x3a]"

definition scan_data_file_name :: "byte list \<Rightarrow> byte list" where
  "scan_data_file_name line =
     (let str = c_string line
      in if take 5 str = File_literal
         then takeWhile (\<lambda>c. \<not> is_space c) (dropWhile is_space (drop 5 str))
         else [])"

text \<open>
  \<open>fseek\<close> to \<open>chunk->id * CHUNK_DATA_SIZE\<close>, an \<open>int\<close> product: a negative offset is refused and the
  position stays at the start. \<open>fread\<close> then yields what the file has from there on.
\<close>

definition chunk_offset :: "int \<Rightarrow> int" where
  "chunk_offset i = sint (word_of_int (i * int CHUNK_DATA_SIZE) :: c_int)"

definition read_chunk :: "byte list \<Rightarrow> int \<Rightarrow> byte list" where
  "read_chunk file i =
     (let offset = chunk_offset i
      in take CHUNK_DATA_SIZE (if offset < 0 then file else drop (nat offset) file))"

text \<open>The result is the index of the chunk in \<open>has_chunks\<close>, or \<open>None\<close> for \<open>NULL\<close>.\<close>

definition load_chunk :: "byte list \<Rightarrow> peer_s \<Rightarrow> nat option \<times> peer_s" where
  "load_chunk hash s =
     (case seach_owned_chunk (has_chunks s) hash of
        None \<Rightarrow> (None, s)
      | Some i \<Rightarrow>
          let chunk = has_chunks s ! i
          in if ck_data chunk \<noteq> None then (Some i, s)
             else case files s (chunk_file (config s)) of
                 None \<Rightarrow> (None, s)
               | Some master \<Rightarrow>
                   let data_file_name = scan_data_file_name (fgets_line 256 master)
                   in case files s data_file_name of
                        None \<Rightarrow> (None, s)
                      | Some data_file \<Rightarrow>
                          let data_buffer = read_chunk data_file (ck_id chunk)
                          in if length data_buffer \<noteq> CHUNK_DATA_SIZE then (None, s)
                             else (Some i,
                                   s\<lparr>has_chunks := (has_chunks s)[i := chunk\<lparr>ck_data := Some data_buffer\<rparr>]\<rparr>))"


section \<open>What the lookups find\<close>

lemma search_hash_None: "search_hash h i cs = None \<longleftrightarrow> h \<notin> hash_binary ` set cs"
  by (induction h i cs rule: search_hash.induct) auto

lemma search_hash_Some:
  "search_hash h i cs = Some j \<Longrightarrow>
    i \<le> j \<and> j - i < length cs \<and> hash_binary (cs ! (j - i)) = h
    \<and> (\<forall>k < j - i. hash_binary (cs ! k) \<noteq> h)"
proof (induction h i cs rule: search_hash.induct)
  case (1 h i)
  then show ?case by simp
next
  case (2 h i c cs)
  show ?case
  proof (cases "h = hash_binary c")
    case True
    with 2 show ?thesis by simp
  next
    case False
    with 2 have IH: "Suc i \<le> j \<and> j - Suc i < length cs \<and> hash_binary (cs ! (j - Suc i)) = h
      \<and> (\<forall>k < j - Suc i. hash_binary (cs ! k) \<noteq> h)" by simp
    then obtain m where m: "j - i = Suc m" "j - Suc i = m" by (cases "j - i") auto
    with IH False show ?thesis by (auto simp: nth_Cons split: nat.split)
  qed
qed

lemma seach_owned_chunk_SomeD:
  "seach_owned_chunk has h = Some j \<Longrightarrow> j < length has \<and> hash_binary (has ! j) = h"
  unfolding seach_owned_chunk_def by (drule search_hash_Some) simp

section \<open>Headers the program writes\<close>

lemma sint_of_nat_short: "n < 2 ^ 15 \<Longrightarrow> sint (of_nat n :: c_short) = int n"
  by (simp add: signed_of_nat signed_take_bit_int_eq_self)

lemma new_header_simps [simp]:
  "n < 2 ^ 15 \<Longrightarrow> sint (packet_length (new_header ty n seq ack)) = int n"
  "sint (header_length (new_header ty n seq ack)) = 16"
  "seq_number (new_header ty n seq ack) = word_of_int seq"
  "ack_number (new_header ty n seq ack) = word_of_int ack"
  by (simp_all add: new_header_def sint_of_nat_short)

lemma new_header_valid:
  assumes "ty \<in> {0..5}"
  shows "validate_packet (new_header ty n seq ack) = 1"
    and "get_packet_type (new_header ty n seq ack) = ty"
proof -
  have "ty = 0 \<or> ty = 1 \<or> ty = 2 \<or> ty = 3 \<or> ty = 4 \<or> ty = 5" using assms by auto
  then show "get_packet_type (new_header ty n seq ack) = ty"
    by (auto simp: get_packet_type_def new_header_def)
  with assms show "validate_packet (new_header ty n seq ack) = 1"
    by (simp add: validate_packet_1 new_header_def)
qed

section \<open>Hash lists in a payload\<close>

lemma nth_overwrite:
  assumes "off + length src \<le> length dst" and "n < length dst"
  shows "overwrite dst off src ! n =
    (if off \<le> n \<and> n < off + length src then src ! (n - off) else dst ! n)"
  using assms by (auto simp: overwrite_def nth_append min_def)

lemma length_hash_at: "ALIGNMENT_BYTE_NUM + Suc i * HASH_CHUNK_SIZE \<le> length pl \<Longrightarrow> length (hash_at pl i) = 20"
  by (simp add: hash_at_def)

lemma hash_at_overwrite:
  assumes "length h = 20" and "4 + Suc k * 20 \<le> length pl" and "4 + Suc i * 20 \<le> length pl"
  shows "hash_at (overwrite pl (4 + k * 20) h) i = (if i = k then h else hash_at pl i)"
proof (rule nth_equalityI)
  have off: "4 + k * 20 + length h \<le> length pl" using assms by simp
  show len: "length (hash_at (overwrite pl (4 + k * 20) h) i) = length (if i = k then h else hash_at pl i)"
    using assms off by (simp add: hash_at_def)
  fix n
  assume "n < length (hash_at (overwrite pl (4 + k * 20) h) i)"
  then have n: "n < 20" by (simp add: hash_at_def)
  have inner: "(4 + k * 20 \<le> 4 + i * 20 + n \<and> 4 + i * 20 + n < 4 + k * 20 + length h) \<longleftrightarrow> i = k"
    using n unfolding assms(1) by presburger
  have "hash_at (overwrite pl (4 + k * 20) h) i ! n = overwrite pl (4 + k * 20) h ! (4 + i * 20 + n)"
    using n assms off by (simp add: hash_at_def)
  also have "\<dots> = (if i = k then h ! n else pl ! (4 + i * 20 + n))"
    using n assms off inner by (subst nth_overwrite [OF off]) auto
  also have "\<dots> = (if i = k then h else hash_at pl i) ! n"
    using n assms by (simp add: hash_at_def)
  finally show "hash_at (overwrite pl (4 + k * 20) h) i ! n = (if i = k then h else hash_at pl i) ! n" .
qed


lemma hashes_overwrite:
  assumes "length h = 20" and "4 + Suc k * 20 \<le> length pl"
  shows "map (hash_at (overwrite pl (4 + k * 20) h)) [0..<Suc k] = map (hash_at pl) [0..<k] @ [h]"
  using assms by (auto simp: hash_at_overwrite)

lemma hash_at_update_0 [simp]: "hash_at (pl[0 := x]) = hash_at pl"
  by (rule ext) (simp add: hash_at_def)

lemma overwrite_nth_0: "0 < off \<Longrightarrow> off \<le> length pl \<Longrightarrow> overwrite pl off src ! 0 = pl ! 0"
  by (cases pl) (auto simp: overwrite_def nth_append)

lemma length_fresh_payload [simp]: "length (fresh_payload mem) = 1484"
  by (simp add: fresh_payload_def)

lemma hash_count_le: "nat (hash_count pl) \<le> 74"
  by (auto simp: hash_count_def Let_def nat_le_iff)

lemma sint_of_nat_byte: "n < 2 ^ 7 \<Longrightarrow> sint (of_nat n :: byte) = int n"
  by (simp add: signed_of_nat signed_take_bit_int_eq_self)

lemma hash_count_of_nat: "pl ! 0 = of_nat n \<Longrightarrow> n \<le> 74 \<Longrightarrow> hash_count pl = int n"
  by (simp add: hash_count_def Let_def sint_of_nat_byte)

lemma length_announced: "length (announced_hashes pl) = nat (hash_count pl)"
  by (simp add: announced_hashes_def)

lemma announced_length_20:
  assumes "length pl = 1484" and "h \<in> set (announced_hashes pl)"
  shows "length h = 20"
proof -
  from assms(2) obtain i where i: "i < nat (hash_count pl)" "h = hash_at pl i"
    by (auto simp: announced_hashes_def)
  with hash_count_le [of pl] have "Suc i \<le> 74" by linarith
  then have "4 + Suc i * 20 \<le> length pl" using assms(1) by simp
  with i show ?thesis by (simp add: length_hash_at)
qed

section \<open>The IHAVE packet answers with the owned ones\<close>

abbreviation owned :: "chunk_s list \<Rightarrow> byte list \<Rightarrow> bool" where
  "owned has h \<equiv> seach_owned_chunk has h \<noteq> None"

lemma ihave_loop_spec:
  assumes "length pl = 1484" and "k + length is \<le> 74" and "length req = 1484" and "\<forall>i \<in> set is. i < 74"
    and "ihave_loop has req is pl k = (pl', k')"
  shows "length pl' = 1484 \<and> k' = k + length (filter (owned has) (map (hash_at req) is)) \<and>
    map (hash_at pl') [0..<k'] = map (hash_at pl) [0..<k] @ filter (owned has) (map (hash_at req) is)"
  using assms
proof (induction "is" arbitrary: pl k)
  case Nil
  then show ?case by simp
next
  case (Cons i "is")
  let ?h = "hash_at req i"
  show ?case
  proof (cases "owned has ?h")
    case False
    then have "ihave_loop has req is pl k = (pl', k')" using Cons.prems(5) by (simp add: Let_def)
    from Cons.IH [OF Cons.prems(1) _ Cons.prems(3) _ this] Cons.prems(2,4) False show ?thesis by auto
  next
    case True
    let ?pl = "overwrite pl (4 + k * 20) ?h"
    have "i < 74" using Cons.prems(4) by simp
    then have h: "length ?h = 20" using Cons.prems(3) by (simp add: length_hash_at)
    have room: "4 + Suc k * 20 \<le> length pl" using Cons.prems(1,2) by simp
    have "length ?pl = 1484" using h room Cons.prems(1) by simp
    moreover have "ihave_loop has req is ?pl (Suc k) = (pl', k')"
      using Cons.prems(5) True by (simp add: Let_def)
    moreover have "Suc k + length is \<le> 74" "\<forall>i \<in> set is. i < 74" using Cons.prems(2,4) by auto
    ultimately have IH: "length pl' = 1484 \<and> k' = Suc k + length (filter (owned has) (map (hash_at req) is)) \<and>
      map (hash_at pl') [0..<k'] = map (hash_at ?pl) [0..<Suc k] @ filter (owned has) (map (hash_at req) is)"
      by (intro Cons.IH [OF _ _ Cons.prems(3)])
    with True hashes_overwrite [OF h room] show ?thesis by (auto simp del: upt_Suc)
  qed
qed

lemma malloc_ihave_packet_spec:
  assumes "length (payload req) = 1484" and found_def: "found = filter (owned has) (announced_hashes (payload req))"
  shows "found = [] \<Longrightarrow> malloc_ihave_packet mem has req = None"
    and "found \<noteq> [] \<Longrightarrow> \<exists>p. malloc_ihave_packet mem has req = Some p \<and>
      header p = new_header TYPE_IHAVE (20 + 20 * length found) 0 0 \<and>
      length (payload p) = 1484 \<and> announced_hashes (payload p) = found"
proof -
  let ?n = "nat (hash_count (payload req))"
  obtain pl k where loop: "ihave_loop has (payload req) [0..<?n] (fresh_payload mem) 0 = (pl, k)"
    by fastforce
  have n: "?n \<le> 74" by (rule hash_count_le)
  have pl: "length pl = 1484" "k = length found" "map (hash_at pl) [0..<k] = found"
    using ihave_loop_spec [OF _ _ assms(1) _ loop] n by (auto simp: found_def announced_hashes_def)
  have "length found \<le> 74"
    using n length_filter_le [of "owned has" "announced_hashes (payload req)"]
    by (simp add: found_def length_announced)
  with pl have count: "hash_count (pl[0 := of_nat k]) = int k"
    by (intro hash_count_of_nat) auto
  show "malloc_ihave_packet mem has req = None" if "found = []"
    using that loop pl by (simp add: malloc_ihave_packet_def)
  show "\<exists>p. malloc_ihave_packet mem has req = Some p \<and>
      header p = new_header TYPE_IHAVE (20 + 20 * length found) 0 0 \<and>
      length (payload p) = 1484 \<and> announced_hashes (payload p) = found" if "found \<noteq> []"
    using that loop pl count by (simp add: malloc_ihave_packet_def announced_hashes_def)
qed

section \<open>The WHOHAS packets ask for exactly the missing chunks\<close>

definition hashes_ok :: "chunk_s list \<Rightarrow> bool" where
  "hashes_ok cs \<longleftrightarrow> (\<forall>c \<in> set cs. length (hash_binary c) = 20)"

lemma count_not_found_filter: "count_not_found cs n = n + length (filter not_found cs)"
  by (induction cs n rule: count_not_found.induct) auto

lemma next_not_found_filter:
  "filter not_found cs = c # rest \<Longrightarrow> \<exists>cs'. next_not_found cs = (Some c, cs') \<and> filter not_found cs' = rest
    \<and> set cs' \<subseteq> set cs \<and> c \<in> set cs"
  by (induction cs) (auto split: if_splits)

lemma whohas_fill_spec:
  assumes "n \<le> length (filter not_found cs)" and "j + n \<le> 74" and "length pl = 1484" and "hashes_ok cs"
    and "whohas_fill n j pl cs = (pl', cs')"
  shows "length pl' = 1484 \<and> pl' ! 0 = pl ! 0 \<and> hashes_ok cs' \<and>
    filter not_found cs' = drop n (filter not_found cs) \<and>
    map (hash_at pl') [0..<j + n] =
      map (hash_at pl) [0..<j] @ map hash_binary (take n (filter not_found cs))"
  using assms
proof (induction n arbitrary: j pl cs)
  case 0
  then show ?case by simp
next
  case (Suc n)
  then obtain c rest where nf: "filter not_found cs = c # rest"
    by (cases "filter not_found cs") auto
  from next_not_found_filter [OF nf] obtain ds where ds: "next_not_found cs = (Some c, ds)"
    "filter not_found ds = rest" "set ds \<subseteq> set cs" "c \<in> set cs" by blast
  let ?pl = "overwrite pl (4 + j * 20) (hash_binary c)"
  have h: "length (hash_binary c) = 20" "hashes_ok ds" using Suc.prems(4) ds by (auto simp: hashes_ok_def)
  have room: "4 + Suc j * 20 \<le> length pl" using Suc.prems(2,3) by simp
  have pl: "length ?pl = 1484" "?pl ! 0 = pl ! 0"
    using h room Suc.prems(3) by (simp_all add: overwrite_nth_0)
  have fill: "whohas_fill n (Suc j) ?pl ds = (pl', cs')" using Suc.prems(5) ds by simp
  have "n \<le> length (filter not_found ds)" "Suc j + n \<le> 74" using Suc.prems(1,2) nf ds by auto
  from Suc.IH [OF this pl(1) h(2) fill] pl(2) ds(2) nf show ?case
    using hashes_overwrite [OF h(1) room] by simp
qed

lemma whohas_loop_spec:
  assumes "length (filter not_found cs) = nf - k * 74" and "nf - k * 74 \<le> r * 74"
    and "r \<noteq> 0 \<longrightarrow> (r - 1) * 74 < nf - k * 74" and "hashes_ok cs"
  shows "concat (map (\<lambda>p. announced_hashes (payload p)) (whohas_loop mem nf r k cs)) =
      map hash_binary (filter not_found cs) \<and>
    length (whohas_loop mem nf r k cs) = r \<and>
    (\<forall>p \<in> set (whohas_loop mem nf r k cs).
       \<exists>n. 1 \<le> n \<and> n \<le> 74 \<and> header p = new_header TYPE_WHOHAS (20 + 20 * n) 0 0 \<and>
           length (payload p) = 1484 \<and> payload p ! 0 = of_nat n \<and> length (announced_hashes (payload p)) = n)"
  using assms
proof (induction r arbitrary: k cs)
  case 0
  then show ?case by simp
next
  case (Suc r)
  define n where "n = (if Suc r > 1 then 74 else nf - k * 74)"
  let ?rem = "nf - k * 74"
  have n: "1 \<le> n" "n \<le> 74" "n \<le> ?rem" "?rem - n = nf - Suc k * 74"
    using Suc.prems(2,3) by (auto simp: n_def split: if_splits)
  obtain pl cs' where fill: "whohas_fill n 0 ((fresh_payload (mem k))[0 := of_nat n]) cs = (pl, cs')"
    by fastforce
  have fs: "length pl = 1484 \<and> pl ! 0 = (fresh_payload (mem k))[0 := of_nat n] ! 0 \<and> hashes_ok cs' \<and>
      filter not_found cs' = drop n (filter not_found cs) \<and>
      map (hash_at pl) [0..<0 + n] = map (hash_at ((fresh_payload (mem k))[0 := of_nat n])) [0..<0] @
        map hash_binary (take n (filter not_found cs))"
    by (rule whohas_fill_spec [OF _ _ _ Suc.prems(4) fill]) (use n Suc.prems(1) in auto)
  then have pl: "length pl = 1484" "pl ! 0 = of_nat n" "hashes_ok cs'"
    "filter not_found cs' = drop n (filter not_found cs)"
    "map (hash_at pl) [0..<n] = map hash_binary (take n (filter not_found cs))"
    by (simp_all add: fresh_payload_def)
  have count: "hash_count pl = int n" by (rule hash_count_of_nat [OF pl(2) n(2)])
  then have ann: "announced_hashes pl = map hash_binary (take n (filter not_found cs))"
    by (simp add: announced_hashes_def pl(5))
  have step: "whohas_loop mem nf (Suc r) k cs =
      \<lparr>header = new_header TYPE_WHOHAS (20 + 20 * n) 0 0, payload = pl\<rparr> # whohas_loop mem nf r (Suc k) cs'"
    using fill by (simp add: n_def Let_def)
  have rest: "length (filter not_found cs') = nf - Suc k * 74" "nf - Suc k * 74 \<le> r * 74"
    "r \<noteq> 0 \<longrightarrow> (r - 1) * 74 < nf - Suc k * 74"
    using n Suc.prems pl(4) by (auto simp: n_def split: if_splits)
  note IH = Suc.IH [OF rest pl(3)]
  note IH1 = IH [THEN conjunct1] and IH2 = IH [THEN conjunct2, THEN conjunct1]
    and IH3 = IH [THEN conjunct2, THEN conjunct2]
  have "concat (map (\<lambda>p. announced_hashes (payload p)) (whohas_loop mem nf (Suc r) k cs)) =
      map hash_binary (take n (filter not_found cs)) @ map hash_binary (drop n (filter not_found cs))"
    unfolding step list.map concat.simps IH1 pl(4) by (simp add: ann)
  also have "\<dots> = map hash_binary (filter not_found cs)" by (simp flip: map_append)
  finally have "concat (map (\<lambda>p. announced_hashes (payload p)) (whohas_loop mem nf (Suc r) k cs)) =
    map hash_binary (filter not_found cs)" .
  moreover have "length (whohas_loop mem nf (Suc r) k cs) = Suc r"
    unfolding step using IH2 by simp
  moreover have "length (announced_hashes pl) = n" using count by (simp add: length_announced)
  ultimately show ?case
    using IH3 n(1,2) pl(1,2) step by simp
qed


lemma packet_number_bounds:
  fixes nf :: nat
  defines "r \<equiv> (if nf mod 74 = 0 then nf div 74 else nf div 74 + 1)"
  shows "nf \<le> r * 74" and "r \<noteq> 0 \<longrightarrow> (r - 1) * 74 < nf" and "r = (nf + 73) div 74"
proof -
  define m d where "m = nf div 74" and "d = nf mod 74"
  have nf: "nf = 74 * m + d" and d: "d < 74" by (simp_all add: m_def d_def)
  have r: "r = (if d = 0 then m else m + 1)" by (simp add: r_def m_def d_def)
  show "nf \<le> r * 74" using d by (simp add: r nf)
  show "r \<noteq> 0 \<longrightarrow> (r - 1) * 74 < nf" using d by (auto simp: r nf)
  have "(74 * m + d + 73) div 74 = m + (d + 73) div 74" by simp
  moreover have "(d + 73) div 74 = (if d = 0 then 0 else 1)"
    using d by (auto intro!: div_nat_eqI)
  ultimately show "r = (nf + 73) div 74" by (simp add: r nf)
qed

lemma malloc_all_whohas_packet_spec:
  assumes "hashes_ok (chunks job)"
  shows "concat (map (\<lambda>p. announced_hashes (payload p)) (malloc_all_whohas_packet mem job)) =
      map hash_binary (filter not_found (chunks job))"
    and "length (malloc_all_whohas_packet mem job) = (length (filter not_found (chunks job)) + 73) div 74"
    and "p \<in> set (malloc_all_whohas_packet mem job) \<Longrightarrow>
      \<exists>n. 1 \<le> n \<and> n \<le> 74 \<and> header p = new_header TYPE_WHOHAS (20 + 20 * n) 0 0 \<and>
          length (payload p) = 1484 \<and> payload p ! 0 = of_nat n \<and> length (announced_hashes (payload p)) = n"
proof -
  let ?nf = "length (filter not_found (chunks job))"
  define r where "r = (if ?nf mod 74 = 0 then ?nf div 74 else ?nf div 74 + 1)"
  have r: "?nf \<le> r * 74" "r \<noteq> 0 \<longrightarrow> (r - 1) * 74 < ?nf" "r = (?nf + 73) div 74"
    using packet_number_bounds [of ?nf] unfolding r_def by simp_all
  have eq: "malloc_all_whohas_packet mem job =
      (if ?nf = 0 then [] else whohas_loop mem ?nf r 0 (chunks job))"
    by (simp add: malloc_all_whohas_packet_def get_not_found_chunk_number_def count_not_found_filter
        r_def Let_def)
  have "?nf = ?nf - 0 * 74" "?nf - 0 * 74 \<le> r * 74" "r \<noteq> 0 \<longrightarrow> (r - 1) * 74 < ?nf - 0 * 74"
    using r by auto
  note spec = whohas_loop_spec [OF this assms, of mem]
  show "concat (map (\<lambda>p. announced_hashes (payload p)) (malloc_all_whohas_packet mem job)) =
      map hash_binary (filter not_found (chunks job))"
    using spec by (simp add: eq)
  show "length (malloc_all_whohas_packet mem job) = (?nf + 73) div 74"
    using spec r(3) by (simp add: eq)
  show "\<exists>n. 1 \<le> n \<and> n \<le> 74 \<and> header p = new_header TYPE_WHOHAS (20 + 20 * n) 0 0 \<and>
      length (payload p) = 1484 \<and> payload p ! 0 = of_nat n \<and> length (announced_hashes (payload p)) = n"
    if "p \<in> set (malloc_all_whohas_packet mem job)"
    using spec that by (auto simp: eq split: if_splits)
qed

section \<open>Properties\<close>

text \<open>
  C17. The answer to a WHOHAS packet: no packet is built if none of the requested chunks is owned;
  otherwise an IHAVE packet that lists exactly the requested hashes that are owned, in their order,
  with the length that announces them.
\<close>

theorem ihave_offers_exactly_owned:
  assumes "length (payload req) = MAX_PAYLOAD_LENGTH"
  shows "case malloc_ihave_packet mem has req of
      None \<Rightarrow> filter (owned has) (announced_hashes (payload req)) = []
    | Some p \<Rightarrow>
        filter (owned has) (announced_hashes (payload req)) \<noteq> []
        \<and> announced_hashes (payload p) = filter (owned has) (announced_hashes (payload req))
        \<and> header p = new_header TYPE_IHAVE (20 + 20 * length (announced_hashes (payload p))) 0 0
        \<and> length (payload p) = MAX_PAYLOAD_LENGTH"
  using malloc_ihave_packet_spec [OF assms refl, of has mem]
  by (cases "filter (owned has) (announced_hashes (payload req)) = []") auto

theorem ihave_offers_exactly_owned_witness:
  "malloc_ihave_packet (\<lambda>_. 7) [] \<lparr>header = new_header TYPE_WHOHAS 40 0 0, payload = 1 # replicate 1483 0\<rparr> = None"
proof -
  let ?req = "\<lparr>header = new_header TYPE_WHOHAS 40 0 0, payload = 1 # replicate 1483 0\<rparr>"
  have none: "filter (owned []) (announced_hashes (payload ?req)) = []"
    by (rule filter_False) (simp add: seach_owned_chunk_def)
  have "length (payload ?req) = 1484" by simp
  from ihave_offers_exactly_owned [OF this, of "[]" "\<lambda>_. 7"] none show ?thesis
    by (cases "malloc_ihave_packet (\<lambda>_. 7) [] ?req") auto
qed

text \<open>
  C16. The WHOHAS packets of a job ask, taken together and in order, for exactly the chunks that are
  not found yet; there are as few as fit (74 hashes each), each asks for at least one and at most 74
  chunks, and none is longer than the largest packet.
\<close>

theorem whohas_asks_exactly_missing:
  assumes "hashes_ok (chunks job)"
  shows "concat (map (\<lambda>p. announced_hashes (payload p)) (malloc_all_whohas_packet mem job)) =
      map hash_binary (filter not_found (chunks job))
    \<and> length (malloc_all_whohas_packet mem job) = (length (filter not_found (chunks job)) + 73) div 74
    \<and> (\<forall>p \<in> set (malloc_all_whohas_packet mem job).
        length (announced_hashes (payload p)) \<in> {1..74}
        \<and> header p = new_header TYPE_WHOHAS (20 + 20 * length (announced_hashes (payload p))) 0 0
        \<and> sint (packet_length (header p)) \<le> int MAX_PACKET_LENGTH)"
proof -
  have "length (announced_hashes (payload p)) \<in> {1..74}
        \<and> header p = new_header TYPE_WHOHAS (20 + 20 * length (announced_hashes (payload p))) 0 0
        \<and> sint (packet_length (header p)) \<le> int MAX_PACKET_LENGTH"
    if "p \<in> set (malloc_all_whohas_packet mem job)" for p
    using malloc_all_whohas_packet_spec(3) [OF assms that] by auto
  with malloc_all_whohas_packet_spec(1,2) [OF assms, of mem] show ?thesis by blast
qed

theorem whohas_asks_exactly_missing_witness:
  "concat (map (\<lambda>p. announced_hashes (payload p))
     (malloc_all_whohas_packet (\<lambda>_ _. 9)
        \<lparr>output_file_name = [], chunks = [example_chunk 0 1, (example_chunk 1 2)\<lparr>ck_status := CHUNK_STATUS_FINISHED\<rparr>,
           example_chunk 2 3]\<rparr>)) = [replicate 20 1, replicate 20 3]"
  using whohas_asks_exactly_missing [of "\<lparr>output_file_name = [], chunks = [example_chunk 0 1,
      (example_chunk 1 2)\<lparr>ck_status := CHUNK_STATUS_FINISHED\<rparr>, example_chunk 2 3]\<rparr>" "\<lambda>_ _. 9"]
  by (simp add: hashes_ok_def example_chunk_def not_found_def)



end
