(* ===== verification/Control.thy ===== *)
theory Control imports State "HOL-Library.Signed_Division" begin

text \<open>
  \<open>control.c\<close>: the round-trip estimate and the congestion control of a provider connection. These
  functions touch one connection, the clock and the window log, so they map a connection and a
  world to a new connection and world; the caller loads the connection and stores it back. Integer
  division truncates towards zero (\<open>sdiv\<close>), as in C.
\<close>

abbreviation (input) DEFAULT_RTT_MS :: int where "DEFAULT_RTT_MS \<equiv> 2000"
abbreviation (input) PEER_CRASH_TIMEOUT :: int where "PEER_CRASH_TIMEOUT \<equiv> 10000"
abbreviation (input) GET_TIMEOUT :: int where "GET_TIMEOUT \<equiv> 4000"
abbreviation (input) ACK_TIMEOUT :: int where "ACK_TIMEOUT \<equiv> 500"
abbreviation (input) WHOHAS_FLOOD_INTERVAL_MS :: int where "WHOHAS_FLOOD_INTERVAL_MS \<equiv> 3000"
abbreviation (input) SLOW_START_INIT_WINDOW_SIZE :: int where "SLOW_START_INIT_WINDOW_SIZE \<equiv> 1"
abbreviation (input) DEFAULT_SLOW_START_THRESHOLD :: int where "DEFAULT_SLOW_START_THRESHOLD \<equiv> 64"
abbreviation (input) DUPLICATE_ACK_NUM :: int where "DUPLICATE_ACK_NUM \<equiv> 3"
abbreviation (input) RTT_NOT_START :: int where "RTT_NOT_START \<equiv> - 1"

section \<open>Initialisation\<close>

definition init_provider_connection ::
  "provider_connection_s \<Rightarrow> 'w world_scheme \<Rightarrow> provider_connection_s \<times> 'w world_scheme" where
  "init_provider_connection c s =
     (let c = c\<lparr>ssthresh := DEFAULT_SLOW_START_THRESHOLD,
                window_size := SLOW_START_INIT_WINDOW_SIZE,
                pc_status := PROVIDER_STATUS_SLOW_START\<rparr>;
          (t1, s) = gettimeofday s;
          c = c\<lparr>CA_last_increase_time := t1, RTT := DEFAULT_RTT_MS, RTT_ack_num := RTT_NOT_START\<rparr>;
          (t2, s) = gettimeofday s;
          (t3, s) = gettimeofday s
      in (c\<lparr>last_acked_received_time := t2, last_data_send_time := t3, num_duplicate_ack := 0\<rparr>, s))"

definition init_receiver_connection ::
  "receiver_connection_s \<Rightarrow> 'w world_scheme \<Rightarrow> receiver_connection_s \<times> 'w world_scheme" where
  "init_receiver_connection c s =
     (let (t, s) = gettimeofday s
      in (c\<lparr>rc_start_time := t, rc_status := RECEIVER_STATUS_PENGDING_DATA\<rparr>, s))"

section \<open>Window and status\<close>

definition change_window_size_to ::
  "provider_connection_s \<Rightarrow> int \<Rightarrow> 'w world_scheme \<Rightarrow> provider_connection_s \<times> 'w world_scheme" where
  "change_window_size_to c new_size s =
     (let c = c\<lparr>window_size := new_size\<rparr>;
          (elapsed, s) = elapsed_since (log_start s) s
      in (c, s\<lparr>window_log := window_log s @ [(pc_id c, elapsed, window_size c)]\<rparr>))"

definition change_connection_status :: "provider_connection_s \<Rightarrow> provider_connection_s" where
  "change_connection_status c =
     (if window_size c \<ge> ssthresh c
      then c\<lparr>pc_status := PROVIDER_STATUS_CONGESTION_AVOIDANCE\<rparr>
      else c\<lparr>pc_status := PROVIDER_STATUS_SLOW_START\<rparr>)"

definition slow_start_increase ::
  "provider_connection_s \<Rightarrow> 'w world_scheme \<Rightarrow> provider_connection_s \<times> 'w world_scheme" where
  "slow_start_increase c s =
     (let new_window_size = 1 + window_size c;
          (c, s) = change_window_size_to c new_window_size s
      in (change_connection_status c, s))"

definition halved_window :: "provider_connection_s \<Rightarrow> int" where
  "halved_window c = (if window_size c sdiv 2 > 2 then window_size c sdiv 2 else 2)"

definition slow_start_decrease :: "provider_connection_s \<Rightarrow> provider_connection_s" where
  "slow_start_decrease c =
     (let c = c\<lparr>ssthresh := halved_window c\<rparr>
      in change_connection_status c)"

definition congestion_control_increase ::
  "provider_connection_s \<Rightarrow> 'w world_scheme \<Rightarrow> provider_connection_s \<times> 'w world_scheme" where
  "congestion_control_increase c s =
     (let (elapsed, s) = elapsed_since (CA_last_increase_time c) s
      in if elapsed > RTT c
         then let new_window_size = 1 + window_size c;
                  (c, s) = change_window_size_to c new_window_size s;
                  (t, s) = gettimeofday s
              in (c\<lparr>CA_last_increase_time := t\<rparr>, s)
         else (c, s))"

definition congestion_control_decrease ::
  "provider_connection_s \<Rightarrow> 'w world_scheme \<Rightarrow> provider_connection_s \<times> 'w world_scheme" where
  "congestion_control_decrease c s =
     (let c = c\<lparr>ssthresh := halved_window c\<rparr>;
          (c, s) = change_window_size_to c SLOW_START_INIT_WINDOW_SIZE s
      in (change_connection_status c, s))"

definition connection_scale_up ::
  "provider_connection_s \<Rightarrow> 'w world_scheme \<Rightarrow> provider_connection_s \<times> 'w world_scheme" where
  "connection_scale_up c s =
     (case pc_status c of
        PROVIDER_STATUS_SLOW_START \<Rightarrow> slow_start_increase c s
      | PROVIDER_STATUS_CONGESTION_AVOIDANCE \<Rightarrow> congestion_control_increase c s)"

definition connection_scale_down ::
  "provider_connection_s \<Rightarrow> 'w world_scheme \<Rightarrow> provider_connection_s \<times> 'w world_scheme" where
  "connection_scale_down c s =
     (case pc_status c of
        PROVIDER_STATUS_SLOW_START \<Rightarrow> (slow_start_decrease c, s)
      | PROVIDER_STATUS_CONGESTION_AVOIDANCE \<Rightarrow> congestion_control_decrease c s)"

definition reset_sender_buffer :: "provider_connection_s \<Rightarrow> provider_connection_s" where
  "reset_sender_buffer c = c\<lparr>last_packet_sent := last_packet_acked c\<rparr>"

section \<open>Acknowledgements\<close>

definition set_RTT ::
  "int \<Rightarrow> provider_connection_s \<Rightarrow> 'w world_scheme \<Rightarrow> (provider_connection_s \<times> 'w world_scheme) result" where
  "set_RTT ack_num c s =
     (if RTT_ack_num c = RTT_NOT_START then Inr (c, s)
      else if RTT_ack_num c \<noteq> ack_num then Inr (c, s)
      else case RTT_data_sent_time c of
             None \<Rightarrow> Inl Uninitialised_Read
           | Some sent_time \<Rightarrow>
               let (new_RTT, s) = elapsed_since sent_time s
               in Inr (c\<lparr>RTT := (RTT c + new_RTT) sdiv 2, RTT_ack_num := RTT_NOT_START\<rparr>, s))"

text \<open>The part of \<open>provider_control_by_ack\<close> behind \<open>set_RTT\<close>.\<close>

definition provider_react_to_ack ::
  "provider_connection_s \<Rightarrow> int \<Rightarrow> 'w world_scheme \<Rightarrow> provider_connection_s \<times> 'w world_scheme" where
  "provider_react_to_ack c ack s =
     (if ack < last_packet_acked c then (c, s)
      else if ack > last_packet_sent c then (c, s)
      else
        let (c, s) =
          (if ack = last_packet_acked c
           then let c = c\<lparr>num_duplicate_ack := 1 + num_duplicate_ack c\<rparr>
                in if num_duplicate_ack c \<ge> DUPLICATE_ACK_NUM
                   then let c = c\<lparr>num_duplicate_ack := 0\<rparr>;
                            (c, s) = connection_scale_down c s
                        in (reset_sender_buffer c, s)
                   else (c, s)
           else connection_scale_up (c\<lparr>num_duplicate_ack := 1, last_packet_acked := ack\<rparr>) s);
            (t, s) = gettimeofday s
        in (c\<lparr>last_acked_received_time := t\<rparr>, s))"

definition provider_control_by_ack ::
  "provider_connection_s \<Rightarrow> int \<Rightarrow> 'w world_scheme \<Rightarrow> (provider_connection_s \<times> 'w world_scheme) result" where
  "provider_control_by_ack c ack s =
     andThen (set_RTT ack c s) (\<lambda>(c, s). Inr (provider_react_to_ack c ack s))"

section \<open>What the clock readings and the log leave alone\<close>

definition only_time :: "'w world_scheme \<Rightarrow> 'w world_scheme \<Rightarrow> bool" where
  "only_time s s' \<longleftrightarrow> s' = s\<lparr>ticks := ticks s', window_log := window_log s'\<rparr>"

named_theorems control_defs "the operations of control.c and the clock"

declare
  gettimeofday_def [control_defs]
  elapsed_since_def [control_defs]
  change_window_size_to_def [control_defs]
  change_connection_status_def [control_defs]
  slow_start_increase_def [control_defs]
  slow_start_decrease_def [control_defs]
  congestion_control_increase_def [control_defs]
  congestion_control_decrease_def [control_defs]
  connection_scale_up_def [control_defs]
  connection_scale_down_def [control_defs]
  reset_sender_buffer_def [control_defs]

lemma only_time_refl [simp]: "only_time s s"
  by (simp add: only_time_def)

lemma only_time_trans: "only_time s s' \<Longrightarrow> only_time s' s'' \<Longrightarrow> only_time s s''"
  unfolding only_time_def by (erule ssubst, erule ssubst) simp

lemma only_time_ticks [simp]: "only_time s (s'\<lparr>ticks := t\<rparr>) \<longleftrightarrow> only_time s s'"
proof -
  have "only_time (s'\<lparr>ticks := t\<rparr>) s'" "only_time s' (s'\<lparr>ticks := t\<rparr>)"
    by (simp_all add: only_time_def)
  then show ?thesis by (blast intro: only_time_trans)
qed

lemma only_time_log [simp]: "only_time s (s'\<lparr>window_log := w\<rparr>) \<longleftrightarrow> only_time s s'"
proof -
  have "only_time (s'\<lparr>window_log := w\<rparr>) s'" "only_time s' (s'\<lparr>window_log := w\<rparr>)"
    by (simp_all add: only_time_def)
  then show ?thesis by (blast intro: only_time_trans)
qed

lemma only_time_scale_up: "only_time s (snd (connection_scale_up c s))"
  by (cases "pc_status c") (simp_all add: control_defs Let_def)

lemma only_time_scale_down: "only_time s (snd (connection_scale_down c s))"
  by (cases "pc_status c") (simp_all add: control_defs Let_def)

lemma only_time_react: "only_time s (snd (provider_react_to_ack c ack s))"
  using only_time_scale_up [of s "c\<lparr>num_duplicate_ack := 1, last_packet_acked := ack\<rparr>"]
    only_time_scale_down [of s "c\<lparr>num_duplicate_ack := 0\<rparr>"]
  by (auto simp: provider_react_to_ack_def gettimeofday_def Let_def split: prod.split)

section \<open>The invariant of a provider connection\<close>

text \<open>
  The window is at least one packet, and grows by at most one for each packet acknowledged; the
  packets in flight fit into it; the status is the comparison of window and threshold; the round
  trip is only measured for a packet whose sending time was recorded.
\<close>

definition pc_ok :: "provider_connection_s \<Rightarrow> bool" where
  "pc_ok c \<longleftrightarrow>
     0 \<le> last_packet_acked c \<and> last_packet_acked c \<le> last_packet_sent c \<and>
     last_packet_sent c \<le> int CHUNK_DATA_NUM \<and>
     1 \<le> window_size c \<and> window_size c \<le> 1 + last_packet_acked c \<and>
     last_packet_sent c - last_packet_acked c \<le> window_size c \<and>
     2 \<le> ssthresh c \<and> ssthresh c \<le> 256 \<and>
     (pc_status c = PROVIDER_STATUS_CONGESTION_AVOIDANCE \<longleftrightarrow> ssthresh c \<le> window_size c) \<and>
     0 \<le> num_duplicate_ack c \<and> num_duplicate_ack c < DUPLICATE_ACK_NUM \<and>
     (RTT_ack_num c = RTT_NOT_START \<or>
       1 \<le> RTT_ack_num c \<and> RTT_ack_num c \<le> int CHUNK_DATA_NUM \<and> RTT_data_sent_time c \<noteq> None)"

lemma halved_window_bounds:
  "1 \<le> window_size c \<Longrightarrow> window_size c \<le> 513 \<Longrightarrow> 2 \<le> halved_window c \<and> halved_window c \<le> 256"
  by (auto simp: halved_window_def signed_divide_int_def sgn_if)

lemma init_provider_connection_ok:
  "pc_ok (fst (init_provider_connection c s)\<lparr>last_packet_acked := 0, last_packet_sent := 0\<rparr>)"
  by (simp add: init_provider_connection_def gettimeofday_def Let_def pc_ok_def)

lemma scale_up_ok:
  assumes "pc_ok c" and "last_packet_acked c < a" and "a \<le> last_packet_sent c"
  shows "pc_ok (fst (connection_scale_up (c\<lparr>num_duplicate_ack := 1, last_packet_acked := a\<rparr>) s))"
  using assms by (cases "pc_status c") (auto simp: pc_ok_def control_defs Let_def)

lemma scale_down_ok:
  assumes "pc_ok c"
  shows "pc_ok (reset_sender_buffer (fst (connection_scale_down (c\<lparr>num_duplicate_ack := 0\<rparr>) s)))"
  using assms halved_window_bounds [of "c\<lparr>num_duplicate_ack := 0\<rparr>"]
  by (cases "pc_status c") (auto simp: pc_ok_def control_defs Let_def)

lemma react_ok:
  assumes "pc_ok c"
  shows "pc_ok (fst (provider_react_to_ack c a s))"
proof -
  have same: "pc_ok (c'\<lparr>last_acked_received_time := t\<rparr>) = pc_ok c'" for c' t
    by (simp add: pc_ok_def)
  consider "a < last_packet_acked c \<or> last_packet_sent c < a"
    | "a = last_packet_acked c" "2 \<le> num_duplicate_ack c" "a \<le> last_packet_sent c"
    | "a = last_packet_acked c" "num_duplicate_ack c < 2" "a \<le> last_packet_sent c"
    | "last_packet_acked c < a" "a \<le> last_packet_sent c"
    by linarith
  then show ?thesis
  proof cases
    case 2
    with scale_down_ok [OF assms, of s] show ?thesis
      by (auto simp: provider_react_to_ack_def gettimeofday_def same Let_def split: prod.split)
  next
    case 3
    with assms show ?thesis
      by (auto simp: provider_react_to_ack_def gettimeofday_def same Let_def) (simp add: pc_ok_def)
  next
    case 4
    with scale_up_ok [OF assms 4, of s] show ?thesis
      by (auto simp: provider_react_to_ack_def gettimeofday_def same Let_def split: prod.split)
  qed (use assms in \<open>auto simp: provider_react_to_ack_def\<close>)
qed

lemma set_RTT_ok:
  "pc_ok c \<Longrightarrow> safe (set_RTT a c s) (\<lambda>(c', s'). pc_ok c' \<and> only_time s s' \<and>
     last_packet_acked c' = last_packet_acked c \<and> last_packet_sent c' = last_packet_sent c \<and>
     pc_receiver c' = pc_receiver c \<and> pc_chunk c' = pc_chunk c \<and> pc_next c' = pc_next c)"
  by (auto simp: set_RTT_def elapsed_since_def gettimeofday_def Let_def pc_ok_def split: option.split)

text \<open>What no reaction to an acknowledgement touches.\<close>

lemma scale_fields [simp]:
  "pc_receiver (fst (connection_scale_up c s)) = pc_receiver c"
  "pc_chunk (fst (connection_scale_up c s)) = pc_chunk c"
  "pc_next (fst (connection_scale_up c s)) = pc_next c"
  "last_packet_acked (fst (connection_scale_up c s)) = last_packet_acked c"
  "last_packet_sent (fst (connection_scale_up c s)) = last_packet_sent c"
  "pc_receiver (fst (connection_scale_down c s)) = pc_receiver c"
  "pc_chunk (fst (connection_scale_down c s)) = pc_chunk c"
  "pc_next (fst (connection_scale_down c s)) = pc_next c"
  "last_packet_acked (fst (connection_scale_down c s)) = last_packet_acked c"
  "last_packet_sent (fst (connection_scale_down c s)) = last_packet_sent c"
  by (cases "pc_status c"; simp add: control_defs Let_def)+

text \<open>The sequence numbers after an acknowledgement: the go-back-N sender.\<close>

lemma react_fields:
  "pc_receiver (fst (provider_react_to_ack c a s)) = pc_receiver c"
  "pc_chunk (fst (provider_react_to_ack c a s)) = pc_chunk c"
  "pc_next (fst (provider_react_to_ack c a s)) = pc_next c"
  "last_packet_acked (fst (provider_react_to_ack c a s)) =
     (if last_packet_acked c < a \<and> a \<le> last_packet_sent c then a else last_packet_acked c)"
  "last_packet_sent (fst (provider_react_to_ack c a s)) =
     (if a = last_packet_acked c \<and> a \<le> last_packet_sent c \<and> 2 \<le> num_duplicate_ack c
      then last_packet_acked c else last_packet_sent c)"
  by (simp_all add: provider_react_to_ack_def gettimeofday_def Let_def reset_sender_buffer_def
      case_prod_beta)

lemma provider_control_by_ack_safe:
  assumes "pc_ok c"
  shows "safe (provider_control_by_ack c a s) (\<lambda>(c', s'). pc_ok c' \<and> only_time s s' \<and>
     pc_receiver c' = pc_receiver c \<and> pc_chunk c' = pc_chunk c \<and> pc_next c' = pc_next c \<and>
     last_packet_acked c' =
       (if last_packet_acked c < a \<and> a \<le> last_packet_sent c then a else last_packet_acked c))"
  unfolding provider_control_by_ack_def safe_andThen
proof (rule safe_mono [OF set_RTT_ok [OF assms]], clarify)
  fix c1 s1
  assume 1: "pc_ok c1" "only_time s s1" "last_packet_acked c1 = last_packet_acked c"
    "last_packet_sent c1 = last_packet_sent c" "pc_receiver c1 = pc_receiver c"
    "pc_chunk c1 = pc_chunk c" "pc_next c1 = pc_next c"
  then show "safe (Inr (provider_react_to_ack c1 a s1)) (\<lambda>(c', s'). pc_ok c' \<and> only_time s s' \<and>
     pc_receiver c' = pc_receiver c \<and> pc_chunk c' = pc_chunk c \<and> pc_next c' = pc_next c \<and>
     last_packet_acked c' =
       (if last_packet_acked c < a \<and> a \<le> last_packet_sent c then a else last_packet_acked c))"
    using react_ok [OF 1(1), of a s1] only_time_react [of s1 c1 a] react_fields [of c1 a s1]
    by (auto simp: case_prod_beta intro: only_time_trans)
qed

section \<open>Properties\<close>

text \<open>
  C11. Every acknowledgement number, from anyone, keeps the invariant of the provider's connection
  (window of at least one packet and at most one more than the packets acknowledged, packets in
  flight within the window, threshold at least two, status agreeing with window and threshold) and
  reads no uninitialised field; only the clock and the log are touched besides.
\<close>

theorem ack_keeps_connection_ok:
  assumes "pc_ok c"
  shows "safe (provider_control_by_ack c a s) (\<lambda>(c', s'). pc_ok c' \<and> only_time s s'
     \<and> last_packet_acked c \<le> last_packet_acked c')"
  by (rule safe_mono [OF provider_control_by_ack_safe [OF assms]]) (auto split: if_splits)

definition example_connection :: "int \<Rightarrow> int \<Rightarrow> int \<Rightarrow> provider_connection_s" where
  "example_connection acked sent window =
     \<lparr>pc_receiver = Some 0, pc_id = 1, pc_chunk = 0, ssthresh = 4, window_size = window,
      pc_status = (if window < 4 then PROVIDER_STATUS_SLOW_START else PROVIDER_STATUS_CONGESTION_AVOIDANCE),
      CA_last_increase_time = \<lparr>tv_sec = 0, tv_usec = 0\<rparr>, RTT = 2000, RTT_data_sent_time = None,
      RTT_ack_num = -1, last_acked_received_time = \<lparr>tv_sec = 0, tv_usec = 0\<rparr>,
      last_data_send_time = \<lparr>tv_sec = 0, tv_usec = 0\<rparr>, num_duplicate_ack = 2,
      last_packet_acked = acked, last_packet_sent = sent, pc_next = None\<rparr>"

theorem ack_keeps_connection_ok_witness:
  "safe (provider_control_by_ack (example_connection 7 10 8) 9 example_world) (\<lambda>(c', s'). pc_ok c')"
proof -
  have "pc_ok (example_connection 7 10 8)" by (simp add: pc_ok_def example_connection_def)
  from ack_keeps_connection_ok [OF this, of 9 example_world] show ?thesis
    by (rule safe_mono) auto
qed

text \<open>
  C12. Fast retransmit: the third acknowledgement of the same packet makes the sender go back to
  that packet (nothing remains in flight, so all packets behind it are sent again), halves the
  window into the threshold, at least two, and in congestion avoidance restarts with a window of
  one; the duplicate count starts again.
\<close>

theorem fast_retransmit:
  assumes "pc_ok c" and "num_duplicate_ack c = 2" and "a = last_packet_acked c"
    and "provider_control_by_ack c a s = Inr (c', s')"
  shows "last_packet_sent c' = last_packet_acked c \<and> last_packet_acked c' = last_packet_acked c
    \<and> num_duplicate_ack c' = 0 \<and> ssthresh c' = max 2 (window_size c div 2)
    \<and> window_size c' = (if pc_status c = PROVIDER_STATUS_CONGESTION_AVOIDANCE then 1 else window_size c)"
proof -
  have half: "halved_window c = max 2 (window_size c div 2)"
    using assms(1) by (auto simp: halved_window_def pc_ok_def signed_divide_int_def sgn_if)
  obtain c1 s1 where 1: "set_RTT a c s = Inr (c1, s1)" and
    same: "last_packet_acked c1 = last_packet_acked c" "last_packet_sent c1 = last_packet_sent c"
      "num_duplicate_ack c1 = num_duplicate_ack c" "window_size c1 = window_size c"
      "pc_status c1 = pc_status c" "halved_window c1 = halved_window c"
    using assms(4) by (auto simp: provider_control_by_ack_def set_RTT_def Let_def halved_window_def
        split: if_splits option.splits prod.splits)
  have fields: "window_size (reset_sender_buffer x) = window_size x"
    "ssthresh (reset_sender_buffer x) = ssthresh x" "num_duplicate_ack (reset_sender_buffer x) = num_duplicate_ack x" for x
    by (simp_all add: reset_sender_buffer_def)
  have down: "num_duplicate_ack (fst (connection_scale_down d t)) = num_duplicate_ack d"
    "ssthresh (fst (connection_scale_down d t)) = halved_window d"
    "window_size (fst (connection_scale_down d t)) =
      (if pc_status d = PROVIDER_STATUS_CONGESTION_AVOIDANCE then 1 else window_size d)" for d t
    by (cases "pc_status d"; simp add: control_defs Let_def)+
  have "halved_window (d\<lparr>num_duplicate_ack := n\<rparr>) = halved_window d" for d n
    by (simp add: halved_window_def)
  moreover have "last_packet_acked c \<le> last_packet_sent c" using assms(1) by (simp add: pc_ok_def)
  moreover have "provider_react_to_ack c1 a s1 = (c', s')"
    using assms(4) 1 by (simp add: provider_control_by_ack_def)
  ultimately show ?thesis
    using assms(2,3) half same react_fields [of c1 a s1]
    by (auto simp: provider_react_to_ack_def gettimeofday_def Let_def fields down case_prod_beta)
qed

theorem fast_retransmit_witness:
  "\<exists>c' s'. provider_control_by_ack (example_connection 9 14 8) 9 example_world = Inr (c', s')
     \<and> last_packet_sent c' = 9 \<and> window_size c' = 1 \<and> ssthresh c' = 4"
proof -
  have ok: "pc_ok (example_connection 9 14 8)" by (simp add: pc_ok_def example_connection_def)
  obtain c' s' where r: "provider_control_by_ack (example_connection 9 14 8) 9 example_world = Inr (c', s')"
    by (simp add: provider_control_by_ack_def set_RTT_def example_connection_def) (metis surj_pair)
  have "num_duplicate_ack (example_connection 9 14 8) = 2"
    "9 = last_packet_acked (example_connection 9 14 8)" by (simp_all add: example_connection_def)
  from fast_retransmit [OF ok this r] r show ?thesis
    by (simp add: example_connection_def)
qed

end
