(* ===== verification/Connection.thy ===== *)
theory Connection imports Control Job begin

text \<open>
  \<open>connection.c\<close>, and the timeouts of \<open>control.c\<close> that call it: the two lists of connections and
  what happens to a connection. A connection is passed as the pointer the C code passes; every field
  access loads the object, so a null or freed connection is a fault. The loops over the lists are
  those of theory \<open>Memory\<close>; \<open>brk\<close> steps are enough for them, because a list of live objects is no
  longer than that.
\<close>

section \<open>The two lists\<close>

definition init_connections :: "peer_s \<Rightarrow> peer_s" where
  "init_connections s =
     s\<lparr>max_provider_connection := max_conn (config s),
       provider_connection_head := None,
       max_receiver_connection := max_conn (config s),
       receiver_connection_head := None\<rparr>"

definition search_receiver_connection :: "ptr \<Rightarrow> peer_s \<Rightarrow> ptr result" where
  "search_receiver_connection provider s =
     ll_search rc_next (\<lambda>c. rc_provider c = provider) (receivers s) (brk (receivers s))
       (receiver_connection_head s)"

definition search_provider_connection :: "ptr \<Rightarrow> peer_s \<Rightarrow> ptr result" where
  "search_provider_connection receiver s =
     ll_search pc_next (\<lambda>c. pc_receiver c = receiver) (providers s) (brk (providers s))
       (provider_connection_head s)"

definition get_provider_connection_number :: "peer_s \<Rightarrow> int result" where
  "get_provider_connection_number s =
     ll_count pc_next (providers s) (brk (providers s)) 0 (provider_connection_head s)"

definition get_receiver_connection_number :: "peer_s \<Rightarrow> int result" where
  "get_receiver_connection_number s =
     ll_count rc_next (receivers s) (brk (receivers s)) 0 (receiver_connection_head s)"

definition add_receiver_connection :: "ptr \<Rightarrow> peer_s \<Rightarrow> peer_s result" where
  "add_receiver_connection new s =
     (if new = None then Inr s
      else andThen (load_receiver s new) (\<lambda>c.
           andThen (store_receiver s new (c\<lparr>rc_next := receiver_connection_head s\<rparr>)) (\<lambda>s.
           Inr (s\<lparr>receiver_connection_head := new\<rparr>))))"

definition remove_receiver_connection :: "ptr \<Rightarrow> peer_s \<Rightarrow> peer_s result" where
  "remove_receiver_connection target s =
     andThen (ll_remove rc_next rc_next_update (receivers s) (receiver_connection_head s) target)
       (\<lambda>(head, h). Inr (s\<lparr>receivers := h, receiver_connection_head := head\<rparr>))"

definition add_provider_connection :: "ptr \<Rightarrow> peer_s \<Rightarrow> peer_s result" where
  "add_provider_connection new s =
     (if new = None then Inr s
      else andThen (load_provider s new) (\<lambda>c.
           andThen (store_provider s new (c\<lparr>pc_next := provider_connection_head s\<rparr>)) (\<lambda>s.
           Inr (s\<lparr>provider_connection_head := new\<rparr>))))"

definition remove_provider_connection :: "ptr \<Rightarrow> peer_s \<Rightarrow> peer_s result" where
  "remove_provider_connection target s =
     andThen (ll_remove pc_next pc_next_update (providers s) (provider_connection_head s) target)
       (\<lambda>(head, h). Inr (s\<lparr>providers := h, provider_connection_head := head\<rparr>))"

definition free_provider_connection :: "ptr \<Rightarrow> peer_s \<Rightarrow> peer_s result" where
  "free_provider_connection target s =
     andThen (heap_free (providers s) target) (\<lambda>h. Inr (s\<lparr>providers := h\<rparr>))"

text \<open>The chunk list nodes go with the connection.\<close>

definition free_receiver_connection :: "ptr \<Rightarrow> peer_s \<Rightarrow> peer_s result" where
  "free_receiver_connection p s =
     andThen (load_receiver s p) (\<lambda>_.
     andThen (heap_free (receivers s) p) (\<lambda>h. Inr (s\<lparr>receivers := h\<rparr>)))"

section \<open>IHAVE: the chunks a provider offers\<close>

definition add_chunk_to_receiver_connection :: "chunk_ref \<Rightarrow> ptr \<Rightarrow> peer_s \<Rightarrow> peer_s result" where
  "add_chunk_to_receiver_connection r p s =
     andThen (load_job_chunk s r) (\<lambda>chunk.
     andThen (store_job_chunk s r (chunk\<lparr>ck_status := CHUNK_STATUS_PENDING\<rparr>)) (\<lambda>s.
     andThen (load_receiver s p) (\<lambda>c.
     store_receiver s p (c\<lparr>chunk_list := chunk_list c @ malloc_chunk_node r\<rparr>))))"

fun add_ihave_loop :: "ptr \<Rightarrow> byte list list \<Rightarrow> peer_s \<Rightarrow> peer_s result" where
  "add_ihave_loop p [] s = Inr s"
| "add_ihave_loop p (h # hs) s =
     andThen (get_chunk h s) (\<lambda>temp_chunk.
     case temp_chunk of
       None \<Rightarrow> add_ihave_loop p hs s
     | Some r \<Rightarrow>
         andThen (load_job_chunk s r) (\<lambda>c.
         if ck_status c = CHUNK_STATUS_NOT_FOUND
         then andThen (add_chunk_to_receiver_connection r p s) (add_ihave_loop p hs)
         else add_ihave_loop p hs s))"

definition add_ihave_to_receiver_connection :: "ptr \<Rightarrow> network_packet_s \<Rightarrow> peer_s \<Rightarrow> peer_s result" where
  "add_ihave_to_receiver_connection p ihave_packet s =
     add_ihave_loop p (announced_hashes (payload ihave_packet)) s"

text \<open>The fields of a connection before they are set are arbitrary, as \<open>malloc\<close> leaves them.\<close>

definition blank_receiver_connection :: "ptr \<Rightarrow> receiver_connection_s" where
  "blank_receiver_connection from =
     \<lparr>rc_provider = from, chunk_list = [], rc_start_time = \<lparr>tv_sec = 0, tv_usec = 0\<rparr>,
      last_get_time = None, last_data_time = None, rc_status = RECEIVER_STATUS_PENGDING_DATA,
      rc_next = None\<rparr>"

definition malloc_receiver_connection ::
  "network_packet_s \<Rightarrow> ptr \<Rightarrow> peer_s \<Rightarrow> (ptr \<times> peer_s) result" where
  "malloc_receiver_connection ihave_packet from s =
     (let (c, s) = init_receiver_connection (blank_receiver_connection from) s;
          (a, h) = heap_alloc (receivers s) c;
          s = s\<lparr>receivers := h\<rparr>
      in andThen (add_ihave_to_receiver_connection (Some a) ihave_packet s) (\<lambda>s.
         andThen (load_receiver s (Some a)) (\<lambda>c.
         if chunk_list c = []
         then andThen (free_receiver_connection (Some a) s) (\<lambda>s. Inr (None, s))
         else Inr (Some a, s))))"

text \<open>
  \<open>start_connection\<close> sends the GET for the first chunk of the list; its callers free the packet.
\<close>

definition start_connection :: "ptr \<Rightarrow> peer_s \<Rightarrow> peer_s result" where
  "start_connection p s =
     andThen (load_receiver s p) (\<lambda>c.
     case chunk_list c of
       [] \<Rightarrow> Inl Null_Dereference
     | r # _ \<Rightarrow>
         andThen (load_job_chunk s r) (\<lambda>chunk.
         let (mem, s) = fresh_memory s;
             get_packet = malloc_get_packet mem (hash_binary chunk)
         in andThen (store_job_chunk s r (chunk\<lparr>ck_status := CHUNK_STATUS_DOWNDLOADING\<rparr>)) (\<lambda>s.
            let (t, s) = gettimeofday s
            in andThen (store_receiver s p (c\<lparr>last_get_time := Some t\<rparr>)) (\<lambda>s.
               andThen (load_peer s (rc_provider c)) (\<lambda>peer.
               Inr (send_packet get_packet (peer_addr peer) s))))))"

fun cancel_chunks :: "chunk_ref list \<Rightarrow> peer_s \<Rightarrow> peer_s result" where
  "cancel_chunks [] s = Inr s"
| "cancel_chunks (r # rs) s =
     andThen (load_job_chunk s r) (\<lambda>chunk.
     andThen
       (if ck_status chunk \<noteq> CHUNK_STATUS_FINISHED
        then store_job_chunk s r (chunk\<lparr>ck_status := CHUNK_STATUS_NOT_FOUND,
                                       received_seq_num := 0, received_byte_num := 0\<rparr>)
        else Inr s)
       (cancel_chunks rs))"

definition cancel_receiver_connection :: "ptr \<Rightarrow> peer_s \<Rightarrow> peer_s result" where
  "cancel_receiver_connection p s =
     andThen (load_receiver s p) (\<lambda>c.
     andThen (cancel_chunks (chunk_list c) s) (\<lambda>s.
     free_receiver_connection p s))"

section \<open>The provider of a chunk\<close>

definition blank_provider_connection :: "ptr \<Rightarrow> int \<Rightarrow> nat \<Rightarrow> provider_connection_s" where
  "blank_provider_connection from connection_id chunk =
     \<lparr>pc_receiver = from, pc_id = connection_id, pc_chunk = chunk, ssthresh = 0, window_size = 0,
      pc_status = PROVIDER_STATUS_SLOW_START,
      CA_last_increase_time = \<lparr>tv_sec = 0, tv_usec = 0\<rparr>, RTT = 0,
      RTT_data_sent_time = None, RTT_ack_num = 0,
      last_acked_received_time = \<lparr>tv_sec = 0, tv_usec = 0\<rparr>,
      last_data_send_time = \<lparr>tv_sec = 0, tv_usec = 0\<rparr>, num_duplicate_ack = 0,
      last_packet_acked = 0, last_packet_sent = 0, pc_next = None\<rparr>"

definition malloc_provider_connection :: "network_packet_s \<Rightarrow> ptr \<Rightarrow> peer_s \<Rightarrow> ptr \<times> peer_s" where
  "malloc_provider_connection get_packet from s =
     (case load_chunk (take SHA1_HASH_SIZE (payload get_packet)) s of
        (None, s) \<Rightarrow> (None, s)
      | (Some chunk_requested, s) \<Rightarrow>
          let c = blank_provider_connection from (provider_id s) chunk_requested;
              s = s\<lparr>provider_id := provider_id s + 1\<rparr>;
              (c, s) = init_provider_connection c s;
              c = c\<lparr>last_packet_acked := 0, last_packet_sent := 0, pc_next := None\<rparr>;
              (a, h) = heap_alloc (providers s) c
          in (Some a, s\<lparr>providers := h\<rparr>))"

text \<open>The bytes a DATA packet is copied from; reading past the chunk's memory is a fault.\<close>

definition chunk_slice :: "peer_s \<Rightarrow> nat \<Rightarrow> int \<Rightarrow> byte list result" where
  "chunk_slice s i seq =
     (if i < length (has_chunks s)
      then case ck_data (has_chunks s ! i) of
             None \<Rightarrow> Inl Null_Dereference
           | Some data \<Rightarrow>
               if 1 \<le> seq \<and> nat seq * DATA_PACKET_PAYLAOD_SIZE \<le> length data
               then Inr (take DATA_PACKET_PAYLAOD_SIZE (drop (nat (seq - 1) * DATA_PACKET_PAYLAOD_SIZE) data))
               else Inl Buffer_Overflow
      else Inl Buffer_Overflow)"

definition send_data_packet :: "ptr \<Rightarrow> peer_s \<Rightarrow> peer_s result" where
  "send_data_packet p s =
     andThen (load_provider s p) (\<lambda>c.
     let packet_pending_ack_num = last_packet_sent c - last_packet_acked c
     in if packet_pending_ack_num = window_size c then Inr s
        else if packet_pending_ack_num > window_size c then Inr s
        else if last_packet_sent c = int CHUNK_DATA_NUM then Inr s
        else
          let c = c\<lparr>last_packet_sent := last_packet_sent c + 1\<rparr>
          in andThen (chunk_slice s (pc_chunk c) (last_packet_sent c)) (\<lambda>data.
             let (mem, s) = fresh_memory s;
                 data_packet = malloc_data_packet mem data DATA_PACKET_PAYLAOD_SIZE (last_packet_sent c)
             in andThen (load_peer s (pc_receiver c)) (\<lambda>peer.
                let s = send_packet data_packet (peer_addr peer) s;
                    (c, s) =
                      (if RTT_ack_num c = RTT_NOT_START
                       then let (t, s) = gettimeofday s
                            in (c\<lparr>RTT_data_sent_time := Some t,
                                  RTT_ack_num := sint (seq_number (header data_packet))\<rparr>, s)
                       else (c, s));
                    (t, s) = gettimeofday s
                in store_provider s p (c\<lparr>last_data_send_time := t\<rparr>))))"

definition finish_provider_connection :: "ptr \<Rightarrow> peer_s \<Rightarrow> peer_s result" where
  "finish_provider_connection p s =
     andThen (load_provider s p) (\<lambda>c.
     andThen (load_peer s (pc_receiver c)) (\<lambda>_.
     andThen (remove_provider_connection p s) (free_provider_connection p)))"

section \<open>The receiver of a chunk\<close>

text \<open>
  \<open>data_size\<close> of \<open>save_data_packet\<close>, and its \<open>memcpy\<close> into the chunk's buffer of \<open>CHUNK_DATA_SIZE\<close>
  bytes.
\<close>

definition received_data_size :: "header_s \<Rightarrow> int" where
  "received_data_size h =
     (let data_size = sint (packet_length h) - sint (header_length h);
          data_size = (if data_size < 0 then 0 else data_size)
      in if data_size > int MAX_PAYLOAD_LENGTH then int MAX_PAYLOAD_LENGTH else data_size)"

definition save_data_packet :: "network_packet_s \<Rightarrow> ptr \<Rightarrow> peer_s \<Rightarrow> peer_s result" where
  "save_data_packet data_packet p s =
     andThen (load_receiver s p) (\<lambda>c.
     case chunk_list c of
       [] \<Rightarrow> Inl Null_Dereference
     | r # _ \<Rightarrow>
         andThen (load_job_chunk s r) (\<lambda>chunk.
         let seq_num = sint (seq_number (header data_packet));
             (data, s) =
               (case ck_data chunk of
                  None \<Rightarrow> (let (mem, s) = fresh_memory s in (map mem [0..<CHUNK_DATA_SIZE], s))
                | Some data \<Rightarrow> (data, s));
             data_size = received_data_size (header data_packet);
             offset = received_byte_num chunk
         in if offset < 0 \<or> nat offset + nat data_size > length data then Inl Buffer_Overflow
            else store_job_chunk s r
              (chunk\<lparr>ck_data := Some (overwrite data (nat offset) (take (nat data_size) (payload data_packet))),
                     received_seq_num := seq_num,
                     received_byte_num := offset + data_size\<rparr>)))"

text \<open>
  Writing a verified chunk: \<open>fopen\<close> with mode \<open>a+\<close> may fail, \<open>fseek\<close> does not affect writing in
  this mode, and \<open>fwrite\<close> appends as much as the disk takes. The result is the chunk's new status.
\<close>

definition append_chunk :: "byte list \<Rightarrow> byte list \<Rightarrow> peer_s \<Rightarrow> chunk_status \<times> peer_s" where
  "append_chunk name data s =
     (let tick = ticks s;
          s = s\<lparr>ticks := Suc tick\<rparr>
      in if \<not> can_append s tick name then (CHUNK_STATUS_NOT_FOUND, s)
         else
           let old = (case files s name of None \<Rightarrow> [] | Some f \<Rightarrow> f);
               write_size = min (disk_room s tick) CHUNK_DATA_SIZE;
               s = s\<lparr>files := (files s)(name \<mapsto> old @ take write_size data)\<rparr>
           in if write_size \<noteq> CHUNK_DATA_SIZE then (CHUNK_STATUS_NOT_FOUND, s)
              else (CHUNK_STATUS_FINISHED, s))"

definition save_chunk :: "ptr \<Rightarrow> peer_s \<Rightarrow> peer_s result" where
  "save_chunk p s =
     andThen (load_receiver s p) (\<lambda>c.
     case chunk_list c of
       [] \<Rightarrow> Inl Null_Dereference
     | r # _ \<Rightarrow>
         andThen (load_job_chunk s r) (\<lambda>chunk.
         if received_byte_num chunk \<noteq> int CHUNK_DATA_SIZE then Inr s
         else case ck_data chunk of
           None \<Rightarrow> Inl Null_Dereference
         | Some data \<Rightarrow>
             let (mem, s) = fresh_memory s
             in case shahash mem data (of_nat CHUNK_DATA_SIZE) of
                  None \<Rightarrow> Inl Endless_Loop
                | Some hash \<Rightarrow>
                    andThen
                      (if hash \<noteq> hash_binary chunk then Inr (CHUNK_STATUS_NOT_FOUND, s)
                       else andThen (heap_load (jobs s) (current_job s)) (\<lambda>job.
                            Inr (append_chunk (output_file_name job) data s)))
                      (\<lambda>(status, s).
                        store_job_chunk s r
                          (chunk\<lparr>ck_status := status, ck_data := None,
                                 received_seq_num := 0, received_byte_num := 0\<rparr>))))"

definition reset_receiver_connection :: "ptr \<Rightarrow> peer_s \<Rightarrow> peer_s result" where
  "reset_receiver_connection p s =
     andThen (load_receiver s p) (\<lambda>c.
     case chunk_list c of
       [] \<Rightarrow> Inl Null_Dereference
     | r # rs \<Rightarrow>
         andThen (load_job_chunk s r) (\<lambda>chunk.
         if ck_status chunk = CHUNK_STATUS_DOWNDLOADING then Inr s
         else
           andThen (store_receiver s p (c\<lparr>chunk_list := rs\<rparr>)) (\<lambda>s.
           andThen (load_peer s (rc_provider c)) (\<lambda>_.
           if rs \<noteq> [] then start_connection p s
           else andThen (remove_receiver_connection p s) (free_receiver_connection p)))))"

section \<open>Timeouts\<close>

definition provider_control_by_timeout :: "ptr \<Rightarrow> peer_s \<Rightarrow> peer_s result" where
  "provider_control_by_timeout p s =
     andThen (load_provider s p) (\<lambda>c.
     let (silent, s) = elapsed_since (last_acked_received_time c) s
     in if silent > PEER_CRASH_TIMEOUT
        then andThen (load_peer s (pc_receiver c)) (\<lambda>_. finish_provider_connection p s)
        else
          let (silent, s) = elapsed_since (last_acked_received_time c) s
          in if silent > ACK_TIMEOUT
             then let (idle, s) = elapsed_since (last_data_send_time c) s
                  in if idle > ACK_TIMEOUT
                     then let (c, s) = connection_scale_down c s
                          in store_provider s p (reset_sender_buffer c)
                     else Inr s
             else Inr s)"

definition receiver_control_by_timeout :: "ptr \<Rightarrow> peer_s \<Rightarrow> peer_s result" where
  "receiver_control_by_timeout p s =
     andThen (load_receiver s p) (\<lambda>c.
     case rc_status c of
       RECEIVER_STATUS_PENGDING_DATA \<Rightarrow>
         let (waited, s) = elapsed_since (rc_start_time c) s
         in if waited > PEER_CRASH_TIMEOUT
            then andThen (load_peer s (rc_provider c)) (\<lambda>_.
                 andThen (cancel_receiver_connection p s) (remove_receiver_connection p))
            else case last_get_time c of
                   None \<Rightarrow> Inl Uninitialised_Read
                 | Some get_time \<Rightarrow>
                     let (since_get, s) = elapsed_since get_time s
                     in if since_get > GET_TIMEOUT
                        then andThen (load_peer s (rc_provider c)) (\<lambda>_. start_connection p s)
                        else Inr s
     | RECEIVER_STATUS_RECEIVED_DATA \<Rightarrow>
         case last_data_time c of
           None \<Rightarrow> Inl Uninitialised_Read
         | Some data_time \<Rightarrow>
             let (silent, s) = elapsed_since data_time s
             in if silent > PEER_CRASH_TIMEOUT
                then andThen (load_peer s (rc_provider c)) (\<lambda>_.
                     andThen (cancel_receiver_connection p s) (remove_receiver_connection p))
                else Inr s)"

end
