(* ===== verification/Peer.thy ===== *)
theory Peer imports Connection begin

text \<open>
  \<open>peer.c\<close>, with the peer lookups of \<open>bt_parse.c\<close>: the handler of each packet type, the tasks of
  the main loop and one turn of the loop. The datagram, its sender and the user's GET command are
  the inputs of a turn. Diagnostics are not modelled, but a \<open>printf\<close> that reads a field through a
  pointer can fault and is.
\<close>

section \<open>Peers\<close>

fun search_peers :: "(bt_peer_s \<Rightarrow> bool) \<Rightarrow> nat \<Rightarrow> bt_peer_s list \<Rightarrow> ptr" where
  "search_peers P i [] = None"
| "search_peers P i (p # ps) = (if P p then Some i else search_peers P (Suc i) ps)"

definition search_bt_peer :: "bt_config_s \<Rightarrow> sockaddr_in \<Rightarrow> ptr" where
  "search_bt_peer cfg from = search_peers (\<lambda>p. sin_port (peer_addr p) = sin_port from) 0 (peers cfg)"

definition bt_peer_info :: "bt_config_s \<Rightarrow> int \<Rightarrow> ptr" where
  "bt_peer_info cfg i = search_peers (\<lambda>p. peer_id p = i) 0 (peers cfg)"

section \<open>The packet handlers\<close>

definition process_whohas :: "network_packet_s \<Rightarrow> sockaddr_in \<Rightarrow> peer_s \<Rightarrow> peer_s" where
  "process_whohas network_packet from s =
     (let (mem, s) = fresh_memory s
      in case malloc_ihave_packet mem (has_chunks s) network_packet of
           None \<Rightarrow> s
         | Some ihave_packet \<Rightarrow> send_packet ihave_packet from s)"

definition process_ihave :: "network_packet_s \<Rightarrow> ptr \<Rightarrow> peer_s \<Rightarrow> peer_s result" where
  "process_ihave network_packet peer s =
     (if current_job s = None then Inr s
      else andThen (search_receiver_connection peer s) (\<lambda>existing_connection.
        if existing_connection \<noteq> None
        then add_ihave_to_receiver_connection existing_connection network_packet s
        else andThen (get_receiver_connection_number s) (\<lambda>number.
          if number \<ge> max_receiver_connection s then Inr s
          else andThen (malloc_receiver_connection network_packet peer s) (\<lambda>(new_connection, s).
            if new_connection = None then Inr s
            else andThen (add_receiver_connection new_connection s) (start_connection new_connection)))))"

definition process_get_packet :: "network_packet_s \<Rightarrow> ptr \<Rightarrow> peer_s \<Rightarrow> peer_s result" where
  "process_get_packet network_packet peer s =
     andThen (search_provider_connection peer s) (\<lambda>existing_connection.
     if existing_connection \<noteq> None then andThen (load_peer s peer) (\<lambda>_. Inr s)
     else andThen (get_provider_connection_number s) (\<lambda>number.
       if number \<ge> max_provider_connection s then andThen (load_peer s peer) (\<lambda>_. Inr s)
       else
         let (new_connection, s) = malloc_provider_connection network_packet peer s
         in if new_connection = None then Inr s
            else andThen (load_peer s peer) (\<lambda>_. add_provider_connection new_connection s)))"

text \<open>\<open>1 + existing_seq_num\<close> is the packet the connection waits for.\<close>

definition process_data :: "network_packet_s \<Rightarrow> sockaddr_in \<Rightarrow> ptr \<Rightarrow> peer_s \<Rightarrow> peer_s result" where
  "process_data network_packet from peer s =
     andThen (search_receiver_connection peer s) (\<lambda>receiver_connection.
     if receiver_connection = None then Inr s
     else andThen (load_receiver s receiver_connection) (\<lambda>c.
       case chunk_list c of
         [] \<Rightarrow> Inl Null_Dereference
       | r # _ \<Rightarrow>
           andThen (load_job_chunk s r) (\<lambda>chunk.
           let existing_seq_num = received_seq_num chunk;
               packet_seq_num = sint (seq_number (header network_packet))
           in if packet_seq_num < 0 then Inr s
              else if packet_seq_num < existing_seq_num + 1 then Inr s
              else if packet_seq_num > existing_seq_num + 1
              then let (mem, s) = fresh_memory s
                   in Inr (send_packet (malloc_ack_packet mem existing_seq_num) from s)
              else
                let (t, s) = gettimeofday s
                in andThen (store_receiver s receiver_connection
                       (c\<lparr>last_data_time := Some t, rc_status := RECEIVER_STATUS_RECEIVED_DATA\<rparr>)) (\<lambda>s.
                   let (mem, s) = fresh_memory s;
                       s = send_packet (malloc_ack_packet mem (1 + existing_seq_num)) from s
                   in andThen (save_data_packet network_packet receiver_connection s) (\<lambda>s.
                      andThen (save_chunk receiver_connection s)
                        (reset_receiver_connection receiver_connection))))))"

definition process_ack :: "network_packet_s \<Rightarrow> ptr \<Rightarrow> peer_s \<Rightarrow> peer_s result" where
  "process_ack network_packet peer s =
     andThen (search_provider_connection peer s) (\<lambda>provider_connection.
     if provider_connection = None then Inr s
     else andThen (load_provider s provider_connection) (\<lambda>c.
       andThen (provider_control_by_ack c (sint (ack_number (header network_packet))) s) (\<lambda>(c, s).
       andThen (store_provider s provider_connection c) (\<lambda>s.
       if last_packet_acked c = int CHUNK_DATA_NUM
       then finish_provider_connection provider_connection s
       else Inr s))))"

text \<open>
  The receive buffer lies on the stack: what the datagram does not fill is whatever was there.
\<close>

definition receive_buffer :: "(nat \<Rightarrow> byte) \<Rightarrow> byte list \<Rightarrow> byte list" where
  "receive_buffer mem bytes = overwrite (map mem [0..<MAX_PACKET_LENGTH]) 0 (take MAX_PACKET_LENGTH bytes)"

definition process_inbound_udp :: "byte list \<Rightarrow> sockaddr_in \<Rightarrow> peer_s \<Rightarrow> peer_s result" where
  "process_inbound_udp bytes from s =
     (let (mem, s) = fresh_memory s;
          network_packet = received_packet (receive_buffer mem bytes)
      in if validate_packet (header network_packet) < 0 then Inr s
         else
           let packet_type = get_packet_type (header network_packet);
               peer = search_bt_peer (config s) from
           in if packet_type = TYPE_WHOHAS then Inr (process_whohas network_packet from s)
              else if packet_type = TYPE_IHAVE then process_ihave network_packet peer s
              else if packet_type = TYPE_GET then process_get_packet network_packet peer s
              else if packet_type = TYPE_DATA then process_data network_packet from peer s
              else if packet_type = TYPE_ACK then process_ack network_packet peer s
              else Inr s)"

section \<open>The tasks of the main loop\<close>

text \<open>\<open>while (temp != NULL) { op(temp); temp = temp->next; }\<close>\<close>

fun for_each ::
  "(peer_s \<Rightarrow> ptr \<Rightarrow> ptr result) \<Rightarrow> (ptr \<Rightarrow> peer_s \<Rightarrow> peer_s result) \<Rightarrow> nat \<Rightarrow> ptr \<Rightarrow> peer_s \<Rightarrow> peer_s result" where
  "for_each nxt op n None s = Inr s"
| "for_each nxt op 0 (Some a) s = Inl Endless_Loop"
| "for_each nxt op (Suc n) (Some a) s =
     andThen (op (Some a) s) (\<lambda>s.
     andThen (nxt s (Some a)) (\<lambda>p. for_each nxt op n p s))"

definition provider_next :: "peer_s \<Rightarrow> ptr \<Rightarrow> ptr result" where
  "provider_next s p = andThen (load_provider s p) (\<lambda>c. Inr (pc_next c))"

definition receiver_next :: "peer_s \<Rightarrow> ptr \<Rightarrow> ptr result" where
  "receiver_next s p = andThen (load_receiver s p) (\<lambda>c. Inr (rc_next c))"

definition all_provider_connection_send_data :: "peer_s \<Rightarrow> peer_s result" where
  "all_provider_connection_send_data s =
     for_each provider_next send_data_packet (brk (providers s)) (provider_connection_head s) s"

definition providers_timeout :: "peer_s \<Rightarrow> peer_s result" where
  "providers_timeout s =
     for_each provider_next provider_control_by_timeout (brk (providers s)) (provider_connection_head s) s"

definition receivers_timeout :: "peer_s \<Rightarrow> peer_s result" where
  "receivers_timeout s =
     for_each receiver_next receiver_control_by_timeout (brk (receivers s)) (receiver_connection_head s) s"

definition finish_job :: "peer_s \<Rightarrow> peer_s result" where
  "finish_job s =
     (if current_job s = None then Inr s
      else andThen (get_receiver_connection_number s) (\<lambda>number.
        if number \<noteq> 0 then Inr s
        else andThen (heap_load (jobs s) (current_job s)) (\<lambda>job.
          if get_not_found_chunk_number job \<noteq> 0 then Inr s
          else andThen (free_job (current_job s) s) (\<lambda>s. Inr (s\<lparr>current_job := None\<rparr>)))))"

fun send_all_whohas_packet :: "network_packet_s list \<Rightarrow> sockaddr_in \<Rightarrow> peer_s \<Rightarrow> peer_s" where
  "send_all_whohas_packet [] to s = s"
| "send_all_whohas_packet (p # ps) to s = send_all_whohas_packet ps to (send_packet p to s)"

fun send_whohas_to_peers :: "network_packet_s list \<Rightarrow> bt_peer_s list \<Rightarrow> peer_s \<Rightarrow> peer_s" where
  "send_whohas_to_peers packets [] s = s"
| "send_whohas_to_peers packets (peer # ps) s =
     send_whohas_to_peers packets ps
       (if peer_id peer \<noteq> identity (config s) then send_all_whohas_packet packets (peer_addr peer) s else s)"

text \<open>The packets are one array: packet \<open>k\<close> starts at byte \<open>k * MAX_PACKET_LENGTH\<close> of it.\<close>

definition flood_whohas :: "peer_s \<Rightarrow> peer_s result" where
  "flood_whohas s =
     (if current_job s = None then Inr s
      else andThen (get_receiver_connection_number s) (\<lambda>number.
        if number \<ge> max_receiver_connection s then Inr s
        else andThen (heap_load (jobs s) (current_job s)) (\<lambda>job.
          let (mem, s) = fresh_memory s;
              whohas_packets = malloc_all_whohas_packet
                (\<lambda>k i. mem (k * MAX_PACKET_LENGTH + HEADER_SIZE + i)) job
          in if length whohas_packets = 0 then Inr s
             else Inr (send_whohas_to_peers whohas_packets (peers (config s)) s))))"

text \<open>
  A GET command of the user; the argument is what \<open>malloc_new_job\<close> returns for its chunk file. The
  job it replaces is not freed.
\<close>

definition process_get :: "job_s option \<Rightarrow> peer_s \<Rightarrow> peer_s result" where
  "process_get new_job s =
     (case new_job of
        None \<Rightarrow> Inr s
      | Some job \<Rightarrow>
          let (a, h) = heap_alloc (jobs s) job
          in flood_whohas (s\<lparr>jobs := h, current_job := Some a\<rparr>))"

section \<open>One turn of the main loop\<close>

text \<open>
  The tasks at the end of every turn. The pair of the last flooding time and the peer's state is what a
  turn carries over.
\<close>

definition peer_run_tasks :: "timeval \<times> peer_s \<Rightarrow> (timeval \<times> peer_s) result" where
  "peer_run_tasks = (\<lambda>(last_flood_whohas_time, s).
     andThen (providers_timeout s) (\<lambda>s.
     andThen (receivers_timeout s) (\<lambda>s.
     andThen (all_provider_connection_send_data s) (\<lambda>s.
     let (elapsed, s) = elapsed_since last_flood_whohas_time s
     in andThen
          (if elapsed > WHOHAS_FLOOD_INTERVAL_MS
           then andThen (flood_whohas s) (\<lambda>s. let (t, s) = gettimeofday s in Inr (t, s))
           else Inr (last_flood_whohas_time, s))
          (\<lambda>(last, s). andThen (finish_job s) (\<lambda>s. Inr (last, s)))))))"

text \<open>
  \<open>inbound\<close> is the datagram waiting at the socket, if any; \<open>user\<close> the job of a GET command, if one
  was typed.
\<close>

definition peer_run_turn ::
  "(byte list \<times> sockaddr_in) option \<Rightarrow> job_s option \<Rightarrow> timeval \<times> peer_s \<Rightarrow> (timeval \<times> peer_s) result" where
  "peer_run_turn inbound user = (\<lambda>(last_flood_whohas_time, s).
     andThen (case inbound of None \<Rightarrow> Inr s | Some (bytes, from) \<Rightarrow> process_inbound_udp bytes from s) (\<lambda>s.
     andThen (process_get user s) (\<lambda>s. peer_run_tasks (last_flood_whohas_time, s))))"

section \<open>Loops over a list\<close>

text \<open>
  A loop over the objects at \<open>as\<close>: if the body and the step to the next object keep \<open>Q\<close> and lead on
  to the next address, or end in one of the faults \<open>F\<close>, so does the loop, within the steps given.
\<close>

definition address_from :: "nat list \<Rightarrow> nat \<Rightarrow> ptr" where
  "address_from as i = (if i < length as then Some (as ! i) else None)"

lemma for_each_outcome:
  assumes body: "\<And>s i. Q s \<Longrightarrow> i < length as \<Longrightarrow>
      outcome F (andThen (op (Some (as ! i)) s) (\<lambda>s. andThen (nxt s (Some (as ! i))) (\<lambda>p. Inr (s, p))))
        (\<lambda>(s, p). Q s \<and> p = address_from as (Suc i))"
    and "Q s" and "i \<le> length as" and "length as - i \<le> n"
  shows "outcome F (for_each nxt op n (address_from as i) s) Q"
  using assms(2-)
proof (induction n arbitrary: i s)
  case 0
  then show ?case by (simp add: address_from_def)
next
  case (Suc n)
  show ?case
  proof (cases "i < length as")
    case False
    with Suc.prems show ?thesis by (simp add: address_from_def)
  next
    case True
    have "outcome F (andThen (op (Some (as ! i)) s)
        (\<lambda>s. andThen (nxt s (Some (as ! i))) (\<lambda>p. for_each nxt op n p s))) Q"
      using body [OF Suc.prems(1) True] Suc.IH [of _ "Suc i"] Suc.prems(3) True
      by (auto simp: outcome_andThen elim!: outcome_mono)
    with True show ?thesis by (simp add: address_from_def)
  qed
qed

end
