(* ===== verification/Receiver_Inv.thy ===== *)
theory Receiver_Inv imports Peer begin

text \<open>
  The receiving side of a peer: what the job's chunks and the list of receiver connections always
  satisfy, and that the handlers for IHAVE and DATA keep it. The central fact is that a chunk is
  wanted from at most one peer: the chunks that are pending or being downloaded are exactly those in
  the chunk lists of the connections, each once, and the first of each list is the one being
  downloaded.
\<close>

text \<open>A chunk reference is taken as a whole, not split into its two numbers.\<close>

declare split_paired_All [simp del] split_paired_Ex [simp del]

section \<open>Chunks of jobs\<close>

definition jchunk :: "job_s heap \<Rightarrow> chunk_ref \<Rightarrow> chunk_s option" where
  "jchunk J r =
     (case cell J (fst r) of
        None \<Rightarrow> None
      | Some job \<Rightarrow> if snd r < length (chunks job) then Some (chunks job ! snd r) else None)"

definition put_chunk :: "job_s heap \<Rightarrow> chunk_ref \<Rightarrow> chunk_s \<Rightarrow> job_s heap" where
  "put_chunk J r c =
     (case cell J (fst r) of
        None \<Rightarrow> J
      | Some job \<Rightarrow> J\<lparr>cell := (cell J)(fst r \<mapsto> job\<lparr>chunks := (chunks job)[snd r := c]\<rparr>)\<rparr>)"

lemma load_job_chunk_eq [simp]: "jchunk (jobs s) r = Some c \<Longrightarrow> load_job_chunk s r = Inr c"
  by (cases r) (auto simp: load_job_chunk_def jchunk_def heap_load_def split: option.splits if_splits)

lemma store_job_chunk_eq [simp]:
  "jchunk (jobs s) r = Some c \<Longrightarrow> store_job_chunk s r c' = Inr (s\<lparr>jobs := put_chunk (jobs s) r c'\<rparr>)"
  by (cases r)
    (auto simp: store_job_chunk_def jchunk_def put_chunk_def heap_load_def heap_store_def
      split: option.splits if_splits)

lemma jchunk_put [simp]:
  "jchunk J r = Some c \<Longrightarrow> jchunk (put_chunk J r c') r' = (if r' = r then Some c' else jchunk J r')"
  by (cases r; cases r') (auto simp: jchunk_def put_chunk_def nth_list_update split: option.splits if_splits)

text \<open>What a change of chunks keeps of the jobs: which exist, their files and sizes.\<close>

definition job_frame :: "job_s heap \<Rightarrow> job_s heap \<Rightarrow> bool" where
  "job_frame J J' \<longleftrightarrow>
     brk J' = brk J \<and>
     (\<forall>j. map_option (\<lambda>job. (output_file_name job, length (chunks job))) (cell J' j) =
          map_option (\<lambda>job. (output_file_name job, length (chunks job))) (cell J j))"

lemma job_frame_refl [simp]: "job_frame J J"
  by (simp add: job_frame_def)

lemma job_frame_trans: "job_frame J J' \<Longrightarrow> job_frame J' J'' \<Longrightarrow> job_frame J J''"
  by (simp add: job_frame_def)

lemma job_frame_put [simp]:
  assumes "jchunk J r = Some c"
  shows "job_frame J' (put_chunk J r c') \<longleftrightarrow> job_frame J' J"
proof -
  let ?shape = "\<lambda>job. (output_file_name job, length (chunks job))"
  obtain job where job: "cell J (fst r) = Some job"
    using assms by (auto simp: jchunk_def split: option.splits)
  then have "brk (put_chunk J r c') = brk J"
    "map_option ?shape (cell (put_chunk J r c') j) = map_option ?shape (cell J j)" for j
    by (simp_all add: put_chunk_def)
  then show ?thesis by (simp add: job_frame_def)
qed

lemma job_frame_live:
  assumes "job_frame J J'"
  shows "cell J' j = None \<longleftrightarrow> cell J j = None"
proof -
  have "map_option (\<lambda>job. (output_file_name job, length (chunks job))) (cell J' j) =
    map_option (\<lambda>job. (output_file_name job, length (chunks job))) (cell J j)"
    using assms by (simp add: job_frame_def)
  then show ?thesis by (cases "cell J' j"; cases "cell J j") auto
qed

lemma job_frame_heap_ok:
  assumes "job_frame J J'" and "heap_ok J"
  shows "heap_ok J'"
  unfolding heap_ok_def
proof (intro allI impI)
  fix a c
  assume "cell J' a = Some c"
  then have "cell J a \<noteq> None" using job_frame_live [OF assms(1), of a] by auto
  then show "a < brk J'" using assms by (auto simp: heap_ok_def job_frame_def)
qed

text \<open>The status of every chunk, as far as it exists.\<close>

definition chunk_states :: "job_s heap \<Rightarrow> chunk_ref \<Rightarrow> chunk_status option" where
  "chunk_states J r = map_option ck_status (jchunk J r)"

lemma chunk_states_put [simp]:
  "jchunk J r = Some c \<Longrightarrow> chunk_states (put_chunk J r c') = (chunk_states J)(r \<mapsto> ck_status c')"
  by (rule ext) (simp add: chunk_states_def)

lemma chunk_statesD: "chunk_states J r = Some x \<Longrightarrow> \<exists>c. jchunk J r = Some c \<and> ck_status c = x"
  by (auto simp: chunk_states_def)

text \<open>
  A chunk at rest: nothing received unless it is being downloaded, and the bytes received are
  \<open>DATA_PACKET_PAYLAOD_SIZE\<close> for each packet.
\<close>

definition chunk_ok :: "chunk_s \<Rightarrow> bool" where
  "chunk_ok c \<longleftrightarrow>
     0 \<le> received_seq_num c \<and> received_seq_num c < int CHUNK_DATA_NUM \<and>
     received_byte_num c = 1024 * received_seq_num c \<and>
     (ck_status c \<noteq> CHUNK_STATUS_DOWNDLOADING \<longrightarrow> received_seq_num c = 0) \<and>
     (\<forall>d. ck_data c = Some d \<longrightarrow> length d = CHUNK_DATA_SIZE) \<and>
     length (hash_binary c) = SHA1_HASH_SIZE"

definition jobs_ok :: "job_s heap \<Rightarrow> ptr \<Rightarrow> bool" where
  "jobs_ok J current \<longleftrightarrow>
     heap_ok J \<and> (\<forall>r c. jchunk J r = Some c \<longrightarrow> chunk_ok c) \<and>
     (\<forall>j. current = Some j \<longrightarrow> cell J j \<noteq> None)"

lemma jobs_ok_put:
  "jobs_ok J cur \<Longrightarrow> jchunk J r = Some c \<Longrightarrow> chunk_ok c' \<Longrightarrow> jobs_ok (put_chunk J r c') cur"
proof -
  assume 1: "jobs_ok J cur" "jchunk J r = Some c" "chunk_ok c'"
  then have f: "job_frame J (put_chunk J r c')" by simp
  have "chunk_ok k" if "jchunk (put_chunk J r c') q = Some k" for q k
    using that 1 by (auto simp: jobs_ok_def split: if_splits)
  with 1 job_frame_live [OF f] job_frame_heap_ok [OF f] show ?thesis
    by (simp add: jobs_ok_def)
qed

lemma jobs_okD: "jobs_ok J cur \<Longrightarrow> jchunk J r = Some c \<Longrightarrow> chunk_ok c"
  by (auto simp: jobs_ok_def)

section \<open>The receiver connections\<close>

definition rc_ok :: "(chunk_ref \<Rightarrow> chunk_status option) \<Rightarrow> nat \<Rightarrow> receiver_connection_s \<Rightarrow> bool" where
  "rc_ok st np c \<longleftrightarrow>
     (\<exists>r rs. chunk_list c = r # rs \<and> st r = Some CHUNK_STATUS_DOWNDLOADING \<and>
        (\<forall>r' \<in> set rs. st r' = Some CHUNK_STATUS_PENDING)) \<and>
     (\<exists>i. rc_provider c = Some i \<and> i < np) \<and>
     last_get_time c \<noteq> None \<and>
     (rc_status c = RECEIVER_STATUS_RECEIVED_DATA \<longrightarrow> last_data_time c \<noteq> None)"

definition wanted :: "receiver_connection_s list \<Rightarrow> chunk_ref list" where
  "wanted L = concat (map chunk_list L)"

definition rinv :: "(chunk_ref \<Rightarrow> chunk_status option) \<Rightarrow> nat \<Rightarrow> receiver_connection_s list \<Rightarrow> bool" where
  "rinv st np L \<longleftrightarrow>
     (\<forall>c \<in> set L. rc_ok st np c) \<and> distinct (map rc_provider L) \<and> distinct (wanted L) \<and>
     (\<forall>r. st r = Some CHUNK_STATUS_PENDING \<or> st r = Some CHUNK_STATUS_DOWNDLOADING \<longrightarrow> r \<in> set (wanted L))"

lemma wanted_simps [simp]: "wanted [] = []" "wanted (c # L) = chunk_list c @ wanted L"
  "wanted (L @ M) = wanted L @ wanted M"
  by (simp_all add: wanted_def)

text \<open>An element of a list, with what is before and behind it.\<close>

lemma rc_ok_cong:
  "rc_ok st np c \<Longrightarrow> (\<And>r. r \<in> set (chunk_list c) \<Longrightarrow> st' r = st r) \<Longrightarrow> rc_ok st' np c"
  by (auto simp: rc_ok_def)

lemma rc_ok_wanted:
  "rc_ok st np c \<Longrightarrow> r \<in> set (chunk_list c) \<Longrightarrow>
    st r = Some CHUNK_STATUS_PENDING \<or> st r = Some CHUNK_STATUS_DOWNDLOADING"
  by (auto simp: rc_ok_def)

lemma rinv_others:
  assumes "rinv st np (X @ c # Y)" and "d \<in> set X \<union> set Y"
    and "\<And>r. r \<notin> set (chunk_list c) \<Longrightarrow> st r = Some CHUNK_STATUS_PENDING \<or> st r = Some CHUNK_STATUS_DOWNDLOADING \<Longrightarrow>
      st' r = st r"
  shows "rc_ok st' np d"
proof (rule rc_ok_cong)
  show ok: "rc_ok st np d" using assms(1,2) by (auto simp: rinv_def)
  fix r
  assume r: "r \<in> set (chunk_list d)"
  then have "st r = Some CHUNK_STATUS_PENDING \<or> st r = Some CHUNK_STATUS_DOWNDLOADING"
    by (rule rc_ok_wanted [OF ok])
  moreover have "r \<notin> set (chunk_list c)"
    using assms(1,2) r by (auto simp: rinv_def wanted_def)
  ultimately show "st' r = st r" using assms(3) by blast
qed

text \<open>A connection replaced by one with the same list and provider.\<close>

lemma rinv_same:
  assumes "rinv st np (X @ c # Y)" and "chunk_list c' = chunk_list c" and "rc_provider c' = rc_provider c"
    and "last_get_time c' \<noteq> None"
    and "rc_status c' = RECEIVER_STATUS_RECEIVED_DATA \<longrightarrow> last_data_time c' \<noteq> None"
  shows "rinv st np (X @ c' # Y)"
  using assms by (auto simp: rinv_def rc_ok_def)

definition mark :: "chunk_ref list \<Rightarrow> (chunk_ref \<Rightarrow> chunk_status option) \<Rightarrow> chunk_ref \<Rightarrow> chunk_status option" where
  "mark news st r = (if r \<in> set news then Some CHUNK_STATUS_PENDING else st r)"

text \<open>More chunks for an existing connection.\<close>

lemma rinv_extend:
  assumes "rinv st np (X @ c # Y)" and "distinct news"
    and "\<forall>r \<in> set news. st r = Some CHUNK_STATUS_NOT_FOUND"
  shows "rinv (mark news st) np (X @ c\<lparr>chunk_list := chunk_list c @ news\<rparr> # Y)"
proof -
  have fresh: "r \<notin> set news" if "r \<in> set (wanted (X @ c # Y))" for r
  proof
    assume r: "r \<in> set news"
    from that obtain d where d: "d \<in> set (X @ c # Y)" "r \<in> set (chunk_list d)"
      unfolding wanted_def set_concat set_map by blast
    then have "rc_ok st np d" using assms(1) by (auto simp: rinv_def)
    from rc_ok_wanted [OF this d(2)] assms(3) r show False by auto
  qed
  have "rc_ok (mark news st) np d" if "d \<in> set X \<union> set Y" for d
    by (rule rinv_others [OF assms(1) that]) (use assms(3) in \<open>auto simp: mark_def\<close>)
  moreover have "rc_ok st np c" using assms(1) by (auto simp: rinv_def)
  then have "rc_ok (mark news st) np (c\<lparr>chunk_list := chunk_list c @ news\<rparr>)"
  proof -
    obtain r rs where c: "chunk_list c = r # rs" "st r = Some CHUNK_STATUS_DOWNDLOADING"
        "\<forall>r' \<in> set rs. st r' = Some CHUNK_STATUS_PENDING"
      using \<open>rc_ok st np c\<close> by (auto simp: rc_ok_def)
    then have "r \<notin> set news" using fresh [of r] by simp
    with c have "\<exists>r rs. chunk_list c @ news = r # rs \<and> mark news st r = Some CHUNK_STATUS_DOWNDLOADING \<and>
        (\<forall>r' \<in> set rs. mark news st r' = Some CHUNK_STATUS_PENDING)"
      by (intro exI [of _ r] exI [of _ "rs @ news"]) (auto simp: mark_def)
    with \<open>rc_ok st np c\<close> show ?thesis by (simp add: rc_ok_def)
  qed
  moreover have "distinct (wanted (X @ c\<lparr>chunk_list := chunk_list c @ news\<rparr> # Y))"
    using assms(1,2) fresh by (auto simp: rinv_def)
  ultimately show ?thesis
    using assms(1) by (auto simp: rinv_def mark_def split: if_splits)
qed

text \<open>A new connection, whose first chunk is being downloaded.\<close>

lemma rinv_new:
  assumes "rinv st np L" and "distinct (n # ns)" and "\<forall>r \<in> set (n # ns). st r = Some CHUNK_STATUS_NOT_FOUND"
    and "chunk_list c = n # ns" and "rc_provider c = Some i" and "i < np" and "last_get_time c \<noteq> None"
    and "rc_status c = RECEIVER_STATUS_PENGDING_DATA" and "\<forall>d \<in> set L. rc_provider d \<noteq> Some i"
  shows "rinv ((mark (n # ns) st)(n \<mapsto> CHUNK_STATUS_DOWNDLOADING)) np (c # L)"
proof -
  let ?st = "(mark (n # ns) st)(n \<mapsto> CHUNK_STATUS_DOWNDLOADING)"
  have ok: "\<And>d. d \<in> set L \<Longrightarrow> rc_ok st np d" using assms(1) by (simp add: rinv_def)
  have fresh: "r \<notin> set (n # ns)" if "r \<in> set (chunk_list d)" "d \<in> set L" for r d
    using rc_ok_wanted [OF ok [OF that(2)] that(1)] assms(3) by auto
  have "rc_ok ?st np d" if "d \<in> set L" for d
    by (rule rc_ok_cong [OF ok [OF that]]) (use fresh that in \<open>auto simp: mark_def\<close>)
  moreover have "rc_ok ?st np c" using assms(2,4-8) by (auto simp: rc_ok_def mark_def)
  moreover have "distinct (wanted (c # L))"
  proof -
    have "set (n # ns) \<inter> set (wanted L) = {}"
      using fresh unfolding wanted_def set_concat set_map by blast
    with assms(1,2,4) show ?thesis by (simp add: rinv_def)
  qed
  ultimately show ?thesis
    using assms(1,4,5,9) by (auto simp: rinv_def mark_def split: if_splits)
qed

text \<open>The first chunk is done with: the next one is downloaded, or the connection goes.\<close>

lemma rinv_next:
  assumes "rinv st np (X @ c # Y)" and "chunk_list c = r # n # ns"
    and "x \<noteq> CHUNK_STATUS_PENDING" and "x \<noteq> CHUNK_STATUS_DOWNDLOADING"
    and "chunk_list c' = n # ns" and "rc_provider c' = rc_provider c"
    and "last_get_time c' \<noteq> None" and "last_data_time c' \<noteq> None"
  shows "rinv (st(r \<mapsto> x, n \<mapsto> CHUNK_STATUS_DOWNDLOADING)) np (X @ c' # Y)"
proof -
  have dist: "distinct (wanted (X @ c # Y))" using assms(1) by (simp add: rinv_def)
  have "rc_ok (st(r \<mapsto> x, n \<mapsto> CHUNK_STATUS_DOWNDLOADING)) np d" if "d \<in> set X \<union> set Y" for d
    by (rule rinv_others [OF assms(1) that]) (use assms(2) in auto)
  moreover have "rc_ok st np c" using assms(1) by (auto simp: rinv_def)
  then have "rc_ok (st(r \<mapsto> x, n \<mapsto> CHUNK_STATUS_DOWNDLOADING)) np c'"
    using assms(2,5-8) dist by (auto simp: rc_ok_def)
  ultimately show ?thesis
    using assms dist by (auto simp: rinv_def split: if_splits)
qed

lemma rinv_last:
  assumes "rinv st np (X @ c # Y)" and "chunk_list c = [r]"
    and "x \<noteq> CHUNK_STATUS_PENDING" and "x \<noteq> CHUNK_STATUS_DOWNDLOADING"
  shows "rinv (st(r \<mapsto> x)) np (X @ Y)"
proof -
  have dist: "distinct (wanted (X @ c # Y))" using assms(1) by (simp add: rinv_def)
  have "rc_ok (st(r \<mapsto> x)) np d" if "d \<in> set X \<union> set Y" for d
    by (rule rinv_others [OF assms(1) that]) (use assms(2) in auto)
  then show ?thesis
    using assms dist by (auto simp: rinv_def split: if_splits)
qed

section \<open>The receiving side\<close>

definition receive_ok :: "peer_s \<Rightarrow> nat list \<Rightarrow> receiver_connection_s list \<Rightarrow> bool" where
  "receive_ok s as L \<longleftrightarrow>
     jobs_ok (jobs s) (current_job s) \<and>
     rl.view (receivers s) (receiver_connection_head s) as L \<and> dom (cell (receivers s)) = set as \<and>
     rinv (chunk_states (jobs s)) (length (peers (config s))) L \<and>
     int (length L) \<le> max 0 (max_receiver_connection s) \<and>
     (L \<noteq> [] \<longrightarrow> current_job s \<noteq> None)"

text \<open>What the handlers of the receiving side leave alone.\<close>

definition provider_frame :: "peer_s \<Rightarrow> peer_s \<Rightarrow> bool" where
  "provider_frame s s' \<longleftrightarrow>
     config s' = config s \<and> has_chunks s' = has_chunks s \<and> providers s' = providers s \<and>
     provider_connection_head s' = provider_connection_head s \<and>
     max_provider_connection s' = max_provider_connection s"

lemma provider_frame_refl [simp]: "provider_frame s s"
  by (simp add: provider_frame_def)

lemma erased_fields [simp]:
  "chunk_list (rl.erase c) = chunk_list c" "rc_provider (rl.erase c) = rc_provider c"
  "rc_status (rl.erase c) = rc_status c" "last_get_time (rl.erase c) = last_get_time c"
  "last_data_time (rl.erase c) = last_data_time c"
  by (simp_all add: rl.erase_def)

lemma receive_search:
  "receive_ok s as L \<Longrightarrow> search_receiver_connection p s =
    Inr (map_option (\<lambda>i. as ! i) (find (\<lambda>i. rc_provider (L ! i) = p) [0..<length L]))"
  unfolding search_receiver_connection_def receive_ok_def
  by (rule rl.view_search) auto

lemma receive_number: "receive_ok s as L \<Longrightarrow> get_receiver_connection_number s = Inr (int (length L))"
  unfolding get_receiver_connection_number_def receive_ok_def by (blast intro: rl.view_count)

lemma get_chunk_cases:
  assumes "jobs_ok (jobs s) (current_job s)" and "current_job s = Some j"
  shows "get_chunk h s = Inr None \<or> (\<exists>r k. get_chunk h s = Inr (Some r) \<and> jchunk (jobs s) r = Some k
    \<and> hash_binary k = h)"
proof -
  obtain job where job: "cell (jobs s) j = Some job" using assms by (auto simp: jobs_ok_def)
  show ?thesis
  proof (cases "search_hash h 0 (chunks job)")
    case None
    with job assms show ?thesis by (simp add: get_chunk_def)
  next
    case (Some i)
    from search_hash_Some [OF Some] have "i < length (chunks job)" "hash_binary (chunks job ! i) = h" by auto
    with Some job assms show ?thesis by (simp add: get_chunk_def jchunk_def)
  qed
qed

lemma upd_cell_same: "cell h a = Some c \<Longrightarrow> h\<lparr>cell := (cell h)(a \<mapsto> c)\<rparr> = h"
  by (cases h) (simp add: fun_upd_idem)

lemma no_news: "c\<lparr>chunk_list := chunk_list c\<rparr> = (c :: receiver_connection_s)"
  by simp

lemma mark_Nil [simp]: "mark [] st = st"
  by (rule ext) (simp add: mark_def)

lemma mark_Cons: "mark news (st(r \<mapsto> CHUNK_STATUS_PENDING)) = mark (r # news) st"
  by (rule ext) (simp add: mark_def)

lemma chunk_ok_pending:
  "chunk_ok k \<Longrightarrow> ck_status k = CHUNK_STATUS_NOT_FOUND \<Longrightarrow> chunk_ok (k\<lparr>ck_status := CHUNK_STATUS_PENDING\<rparr>)"
  by (simp add: chunk_ok_def)

lemma chunk_ok_downloading: "chunk_ok k \<Longrightarrow> chunk_ok (k\<lparr>ck_status := CHUNK_STATUS_DOWNDLOADING\<rparr>)"
  by (simp add: chunk_ok_def)

lemma add_chunk_eq:
  assumes "jchunk (jobs s) r = Some k" and "cell (receivers s) a = Some c"
  shows "add_chunk_to_receiver_connection r (Some a) s =
    Inr (s\<lparr>jobs := put_chunk (jobs s) r (k\<lparr>ck_status := CHUNK_STATUS_PENDING\<rparr>),
           receivers := (receivers s)\<lparr>cell := (cell (receivers s))(a \<mapsto> c\<lparr>chunk_list := chunk_list c @ [r]\<rparr>)\<rparr>\<rparr>)"
  using assms by (simp add: add_chunk_to_receiver_connection_def load_receiver_def store_receiver_def)

lemma add_ihave_loop_spec:
  assumes "jobs_ok (jobs s) (current_job s)" and "current_job s = Some j" and "cell (receivers s) a = Some c"
  shows "safe (add_ihave_loop (Some a) hs s) (\<lambda>s'. \<exists>news. distinct news
    \<and> (\<forall>r \<in> set news. chunk_states (jobs s) r = Some CHUNK_STATUS_NOT_FOUND)
    \<and> chunk_states (jobs s') = mark news (chunk_states (jobs s))
    \<and> jobs_ok (jobs s') (current_job s) \<and> job_frame (jobs s) (jobs s')
    \<and> s' = s\<lparr>jobs := jobs s', receivers := (receivers s)\<lparr>cell := (cell (receivers s))(a \<mapsto>
         c\<lparr>chunk_list := chunk_list c @ news\<rparr>)\<rparr>\<rparr>)"
  using assms
proof (induction hs arbitrary: s c)
  case Nil
  have "s = s\<lparr>jobs := jobs s, receivers := (receivers s)\<lparr>cell := (cell (receivers s))(a \<mapsto>
      c\<lparr>chunk_list := chunk_list c @ []\<rparr>)\<rparr>\<rparr>"
    unfolding append_Nil2 no_news upd_cell_same [OF Nil(3)] by simp
  then show ?case
    unfolding add_ihave_loop.simps safe_Inr
    by (intro exI [of _ "[]"] conjI) (simp_all only: distinct.simps mark_Nil Nil(1) job_frame_refl
        list.set ball_empty)
next
  case (Cons h hs)
  from get_chunk_cases [OF Cons.prems(1,2), of h] show ?case
  proof (elim disjE exE conjE)
    assume "get_chunk h s = Inr None"
    with Cons.IH [OF Cons.prems] show ?case by simp
  next
    fix r k
    assume r: "get_chunk h s = Inr (Some r)" "jchunk (jobs s) r = Some k"
    show ?case
    proof (cases "ck_status k = CHUNK_STATUS_NOT_FOUND")
      case False
      with r Cons.IH [OF Cons.prems] show ?thesis by simp
    next
      case True
      let ?k = "k\<lparr>ck_status := CHUNK_STATUS_PENDING\<rparr>" and ?c = "c\<lparr>chunk_list := chunk_list c @ [r]\<rparr>"
      let ?s = "s\<lparr>jobs := put_chunk (jobs s) r ?k,
           receivers := (receivers s)\<lparr>cell := (cell (receivers s))(a \<mapsto> ?c)\<rparr>\<rparr>"
      have "chunk_ok ?k" using jobs_okD [OF Cons.prems(1) r(2)] True by (rule chunk_ok_pending)
      then have ok: "jobs_ok (jobs ?s) (current_job ?s)"
        using jobs_ok_put [OF Cons.prems(1) r(2)] by simp
      have states: "chunk_states (jobs ?s) = (chunk_states (jobs s))(r \<mapsto> CHUNK_STATUS_PENDING)"
        using r(2) by simp
      have cur: "current_job ?s = Some j" and cl: "cell (receivers ?s) a = Some ?c"
        using Cons.prems by simp_all
      have step: "add_ihave_loop (Some a) (h # hs) s = add_ihave_loop (Some a) hs ?s"
        using r True Cons.prems(3) by (simp add: add_chunk_eq)
      show ?thesis
        unfolding step
      proof (rule safe_mono [OF Cons.IH [OF ok cur cl]], elim exE conjE)
        fix s' news
        assume h: "distinct news"
          "\<forall>r \<in> set news. chunk_states (jobs ?s) r = Some CHUNK_STATUS_NOT_FOUND"
          "chunk_states (jobs s') = mark news (chunk_states (jobs ?s))"
          "jobs_ok (jobs s') (current_job ?s)" "job_frame (jobs ?s) (jobs s')"
          "s' = ?s\<lparr>jobs := jobs s', receivers := (receivers ?s)\<lparr>cell := (cell (receivers ?s))(a \<mapsto>
             ?c\<lparr>chunk_list := chunk_list ?c @ news\<rparr>)\<rparr>\<rparr>"
        have "r \<notin> set news" using h(2) unfolding states by auto
        moreover have "\<forall>q \<in> set (r # news). chunk_states (jobs s) q = Some CHUNK_STATUS_NOT_FOUND"
          using h(2) True r(2) unfolding states by (auto simp: chunk_states_def split: if_splits)
        moreover have "chunk_states (jobs s') = mark (r # news) (chunk_states (jobs s))"
          unfolding h(3) states by (rule mark_Cons)
        moreover have "job_frame (jobs s) (jobs s')"
          using h(5) r(2) by (auto elim: job_frame_trans [rotated])
        moreover have "s' = s\<lparr>jobs := jobs s', receivers := (receivers s)\<lparr>cell := (cell (receivers s))(a \<mapsto>
             c\<lparr>chunk_list := chunk_list c @ r # news\<rparr>)\<rparr>\<rparr>"
          by (subst h(6)) simp
        ultimately show "\<exists>news. distinct news
          \<and> (\<forall>r \<in> set news. chunk_states (jobs s) r = Some CHUNK_STATUS_NOT_FOUND)
          \<and> chunk_states (jobs s') = mark news (chunk_states (jobs s))
          \<and> jobs_ok (jobs s') (current_job s) \<and> job_frame (jobs s) (jobs s')
          \<and> s' = s\<lparr>jobs := jobs s', receivers := (receivers s)\<lparr>cell := (cell (receivers s))(a \<mapsto>
               c\<lparr>chunk_list := chunk_list c @ news\<rparr>)\<rparr>\<rparr>"
          using h(1,4) by (intro exI [of _ "r # news"]) simp
      qed
    qed
  qed
qed

text \<open>Sending the GET for the first chunk of the list.\<close>

lemma start_connection_eq:
  assumes "cell (receivers s) a = Some c" and "chunk_list c = r # rs" and "jchunk (jobs s) r = Some k"
    and "rc_provider c = Some i" and "i < length (peers (config s))"
  shows "start_connection (Some a) s = Inr (s\<lparr>
      jobs := put_chunk (jobs s) r (k\<lparr>ck_status := CHUNK_STATUS_DOWNDLOADING\<rparr>),
      receivers := (receivers s)\<lparr>cell := (cell (receivers s))(a \<mapsto>
        c\<lparr>last_get_time := Some (clock s (Suc (ticks s)))\<rparr>)\<rparr>,
      ticks := Suc (Suc (ticks s)),
      outbox := outbox s @ [(peer_addr (peers (config s) ! i),
        datagram (malloc_get_packet (uninit s (ticks s)) (hash_binary k)))]\<rparr>)"
  using assms
  by (simp add: start_connection_def load_receiver_def store_receiver_def fresh_memory_def
      gettimeofday_def Let_def send_packet_def)

end
