(* ===== verification/Receiver_Steps.thy ===== *)
theory Receiver_Steps imports Receiver_Inv begin

text \<open>
  The handlers of the receiving side keep its invariant and never fault: IHAVE and GET packets for
  known peers, and DATA packets of the size the protocol prescribes.
\<close>

lemma receive_at:
  assumes "receive_ok s as L" and "i < length L"
  shows "\<exists>c. cell (receivers s) (as ! i) = Some c \<and> rl.erase c = L ! i"
  using assms rl.view_at rl.view_length by (metis receive_ok_def)

lemma erase_updates [simp]:
  "rl.erase (c\<lparr>chunk_list := x\<rparr>) = (rl.erase c)\<lparr>chunk_list := x\<rparr>"
  "rl.erase (c\<lparr>last_get_time := t\<rparr>) = (rl.erase c)\<lparr>last_get_time := t\<rparr>"
  "rl.erase (c\<lparr>last_data_time := t\<rparr>) = (rl.erase c)\<lparr>last_data_time := t\<rparr>"
  "rl.erase (c\<lparr>rc_status := x'\<rparr>) = (rl.erase c)\<lparr>rc_status := x'\<rparr>"
  by (simp_all add: rl.erase_def)

lemma split_at: "i < length L \<Longrightarrow> L = take i L @ L ! i # drop (Suc i) L"
  by (rule id_take_nth_drop)

lemma update_at: "i < length L \<Longrightarrow> L[i := x] = take i L @ x # drop (Suc i) L"
  by (rule upd_conv_take_nth_drop)

text \<open>The parts of the invariant after a change of one connection and of the chunks.\<close>

lemma receive_ok_store:
  assumes "receive_ok s as L" and "i < length L" and "cell (receivers s) (as ! i) = Some c"
    and "rc_next c' = rc_next c" and "jobs_ok J (current_job s)"
    and "rinv (chunk_states J) (length (peers (config s))) (L[i := rl.erase c'])"
    and "jobs s' = J" and "current_job s' = current_job s" and "config s' = config s"
    and "receivers s' = (receivers s)\<lparr>cell := (cell (receivers s))(as ! i \<mapsto> c')\<rparr>"
    and "receiver_connection_head s' = receiver_connection_head s"
    and "max_receiver_connection s' = max_receiver_connection s"
  shows "receive_ok s' as (L[i := rl.erase c'])"
proof -
  have view: "rl.view (receivers s) (receiver_connection_head s) as L" using assms(1) by (simp add: receive_ok_def)
  have i: "i < length as" using rl.view_length [OF view] assms(2) by simp
  have "dom (cell (receivers s')) = set as"
    using assms(1,10) i by (auto simp: receive_ok_def)
  with assms rl.view_store [OF view i assms(3,4)] show ?thesis
    by (auto simp: receive_ok_def)
qed

section \<open>IHAVE\<close>

lemma ihave_existing_ok:
  assumes "receive_ok s as L" and "i < length L"
  shows "safe (add_ihave_to_receiver_connection (Some (as ! i)) pkt s)
    (\<lambda>s'. (\<exists>as' L'. receive_ok s' as' L') \<and> provider_frame s s')"
proof -
  obtain c where c: "cell (receivers s) (as ! i) = Some c" "rl.erase c = L ! i"
    using receive_at [OF assms] by blast
  have ok: "jobs_ok (jobs s) (current_job s)" using assms(1) by (simp add: receive_ok_def)
  have "L \<noteq> []" using assms(2) by auto
  then obtain j where j: "current_job s = Some j" using assms(1) by (auto simp: receive_ok_def)
  show ?thesis
    unfolding add_ihave_to_receiver_connection_def
  proof (rule safe_mono [OF add_ihave_loop_spec [OF ok j c(1)]], elim exE conjE)
    fix s' news
    let ?c = "c\<lparr>chunk_list := chunk_list c @ news\<rparr>"
    assume h: "distinct news" "\<forall>r \<in> set news. chunk_states (jobs s) r = Some CHUNK_STATUS_NOT_FOUND"
      "chunk_states (jobs s') = mark news (chunk_states (jobs s))"
      "jobs_ok (jobs s') (current_job s)" "job_frame (jobs s) (jobs s')"
      "s' = s\<lparr>jobs := jobs s', receivers := (receivers s)\<lparr>cell := (cell (receivers s))(as ! i \<mapsto> ?c)\<rparr>\<rparr>"
    have "rinv (chunk_states (jobs s)) (length (peers (config s))) (take i L @ L ! i # drop (Suc i) L)"
      using assms by (simp add: receive_ok_def flip: split_at)
    from rinv_extend [OF this h(1,2)]
    have inv: "rinv (chunk_states (jobs s')) (length (peers (config s))) (L[i := rl.erase ?c])"
      using assms(2) c(2) by (simp add: update_at h(3)) (metis erased_fields(1))
    have fields: "current_job s' = current_job s" "config s' = config s"
      "receivers s' = (receivers s)\<lparr>cell := (cell (receivers s))(as ! i \<mapsto> ?c)\<rparr>"
      "receiver_connection_head s' = receiver_connection_head s"
      "max_receiver_connection s' = max_receiver_connection s" "provider_frame s s'"
      by (subst h(6), simp add: provider_frame_def)+
    have "receive_ok s' as (L[i := rl.erase ?c])"
      by (rule receive_ok_store [OF assms c(1) _ h(4) inv refl fields(1-5)]) simp
    with fields(6) show "(\<exists>as' L'. receive_ok s' as' L') \<and> provider_frame s s'" by blast
  qed
qed

text \<open>The connection made for an IHAVE of a peer there is no connection with.\<close>

lemma malloc_receiver_spec:
  assumes "receive_ok s as L" and "current_job s = Some j"
  shows "safe (malloc_receiver_connection pkt from s) (\<lambda>(p, s').
    let a = brk (receivers s); c = fst (init_receiver_connection (blank_receiver_connection from) s);
        h = snd (heap_alloc (receivers s) c)
    in (case p of
          None \<Rightarrow> s' = s\<lparr>ticks := ticks s', jobs := jobs s', receivers := h\<lparr>cell := (cell h)(a := None)\<rparr>\<rparr>
            \<and> chunk_states (jobs s') = chunk_states (jobs s)
        | Some a' \<Rightarrow> a' = a \<and> (\<exists>n ns. distinct (n # ns)
            \<and> (\<forall>r \<in> set (n # ns). chunk_states (jobs s) r = Some CHUNK_STATUS_NOT_FOUND)
            \<and> chunk_states (jobs s') = mark (n # ns) (chunk_states (jobs s))
            \<and> s' = s\<lparr>ticks := ticks s', jobs := jobs s', receivers := h\<lparr>cell := (cell h)(a \<mapsto> c\<lparr>chunk_list := n # ns\<rparr>)\<rparr>\<rparr>))
      \<and> jobs_ok (jobs s') (current_job s) \<and> job_frame (jobs s) (jobs s'))"
proof -
  let ?a = "brk (receivers s)"
  let ?c = "fst (init_receiver_connection (blank_receiver_connection from) s)"
  let ?h = "snd (heap_alloc (receivers s) ?c)"
  let ?s = "s\<lparr>ticks := Suc (ticks s), receivers := ?h\<rparr>"
  have cell: "cell (receivers ?s) ?a = Some ?c" by (simp add: heap_alloc_def)
  have empty: "chunk_list ?c = []"
    by (simp add: init_receiver_connection_def blank_receiver_connection_def gettimeofday_def)
  have ok: "jobs_ok (jobs ?s) (current_job ?s)" and cur: "current_job ?s = Some j"
    using assms by (simp_all add: receive_ok_def)
  have call: "malloc_receiver_connection pkt from s =
      andThen (add_ihave_loop (Some ?a) (announced_hashes (payload pkt)) ?s) (\<lambda>s.
         andThen (load_receiver s (Some ?a)) (\<lambda>c.
         if chunk_list c = []
         then andThen (free_receiver_connection (Some ?a) s) (\<lambda>s. Inr (None, s))
         else Inr (Some ?a, s)))"
    by (simp add: malloc_receiver_connection_def init_receiver_connection_def gettimeofday_def
        heap_alloc_def add_ihave_to_receiver_connection_def Let_def cong: if_cong)
  show ?thesis
    unfolding call
  proof (subst safe_andThen, rule safe_mono [OF add_ihave_loop_spec [OF ok cur cell]], elim exE conjE)
    fix s1 news
    let ?h1 = "?h\<lparr>cell := (cell ?h)(?a \<mapsto> ?c\<lparr>chunk_list := news\<rparr>)\<rparr>"
    assume h: "distinct news" "\<forall>r \<in> set news. chunk_states (jobs ?s) r = Some CHUNK_STATUS_NOT_FOUND"
      "chunk_states (jobs s1) = mark news (chunk_states (jobs ?s))"
      "jobs_ok (jobs s1) (current_job ?s)" "job_frame (jobs ?s) (jobs s1)"
      "s1 = ?s\<lparr>jobs := jobs s1, receivers := (receivers ?s)\<lparr>cell := (cell (receivers ?s))(?a \<mapsto>
         ?c\<lparr>chunk_list := chunk_list ?c @ news\<rparr>)\<rparr>\<rparr>"
    have fields: "receivers s1 = ?h1" "ticks s1 = Suc (ticks s)"
      by (subst h(6), simp add: empty)+
    have s1: "s1 = s\<lparr>ticks := Suc (ticks s), jobs := jobs s1, receivers := ?h1\<rparr>"
      by (subst h(6)) (simp add: empty)
    have load: "load_receiver s1 (Some ?a) = Inr (?c\<lparr>chunk_list := news\<rparr>)"
      by (simp add: load_receiver_def fields(1))
    show "safe (andThen (load_receiver s1 (Some ?a)) (\<lambda>c.
         if chunk_list c = []
         then andThen (free_receiver_connection (Some ?a) s1) (\<lambda>s. Inr (None, s))
         else Inr (Some ?a, s1))) (\<lambda>(p, s').
      let a = ?a; c = ?c; h = snd (heap_alloc (receivers s) c)
      in (case p of
          None \<Rightarrow> s' = s\<lparr>ticks := ticks s', jobs := jobs s', receivers := h\<lparr>cell := (cell h)(a := None)\<rparr>\<rparr>
            \<and> chunk_states (jobs s') = chunk_states (jobs s)
        | Some a' \<Rightarrow> a' = a \<and> (\<exists>n ns. distinct (n # ns)
            \<and> (\<forall>r \<in> set (n # ns). chunk_states (jobs s) r = Some CHUNK_STATUS_NOT_FOUND)
            \<and> chunk_states (jobs s') = mark (n # ns) (chunk_states (jobs s))
            \<and> s' = s\<lparr>ticks := ticks s', jobs := jobs s', receivers := h\<lparr>cell := (cell h)(a \<mapsto> c\<lparr>chunk_list := n # ns\<rparr>)\<rparr>\<rparr>))
      \<and> jobs_ok (jobs s') (current_job s) \<and> job_frame (jobs s) (jobs s'))"
    proof (cases news)
      case Nil
      have free: "free_receiver_connection (Some ?a) s1 = Inr (s1\<lparr>receivers := ?h\<lparr>cell := (cell ?h)(?a := None)\<rparr>\<rparr>)"
        by (simp add: free_receiver_connection_def load load_receiver_def fields(1))
      have "s1\<lparr>receivers := ?h\<lparr>cell := (cell ?h)(?a := None)\<rparr>\<rparr> = s\<lparr>ticks := Suc (ticks s), jobs := jobs s1,
          receivers := ?h\<lparr>cell := (cell ?h)(?a := None)\<rparr>\<rparr>"
        by (subst s1) simp
      then show ?thesis
        using h(3-5) Nil by (simp add: load free fields(2) Let_def)
    next
      case (Cons n ns)
      then show ?thesis
        using h(1-5) s1 by (simp add: load fields(2) Let_def) (blast intro: exI [of _ n])
    qed
  qed
qed

lemma fresh_not_listed:
  assumes "receive_ok s as L"
  shows "brk (receivers s) \<notin> set as" and "cell (receivers s) (brk (receivers s)) = None"
proof -
  have "heap_ok (receivers s)" using assms rl.view_heap_ok by (auto simp: receive_ok_def)
  then show "cell (receivers s) (brk (receivers s)) = None" by (rule heap_ok_fresh)
  with assms show "brk (receivers s) \<notin> set as" by (auto simp: receive_ok_def)
qed

lemma receive_ok_unlisted:
  assumes "receive_ok s as L" and "jobs_ok J (current_job s)" and "chunk_states J = chunk_states (jobs s)"
    and "s' = s\<lparr>ticks := t, jobs := J, receivers := (snd (heap_alloc (receivers s) c))
            \<lparr>cell := (cell (snd (heap_alloc (receivers s) c)))(brk (receivers s) := None)\<rparr>\<rparr>"
  shows "receive_ok s' as L"
proof -
  let ?a = "brk (receivers s)"
  have r: "receivers s' = (receivers s)\<lparr>cell := (cell (receivers s))(?a := None), brk := Suc ?a\<rparr>"
    by (simp add: assms(4) heap_alloc_def)
  have "rl.view (receivers s') (receiver_connection_head s) as L"
    unfolding r by (rule rl.view_other) (use assms(1) fresh_not_listed [OF assms(1)] in \<open>auto simp: receive_ok_def\<close>)
  moreover have "dom (cell (receivers s')) = set as"
    using assms(1) fresh_not_listed [OF assms(1)] by (auto simp: r receive_ok_def)
  ultimately show ?thesis using assms by (simp add: receive_ok_def)
qed

lemma ihave_connect_ok:
  assumes "receive_ok s as L" and "current_job s = Some j" and "int (length L) < max_receiver_connection s"
    and "p < length (peers (config s))" and "\<forall>d \<in> set L. rc_provider d \<noteq> Some p"
    and "c = fst (init_receiver_connection (blank_receiver_connection (Some p)) s)"
    and "h = snd (heap_alloc (receivers s) c)" and "a = brk (receivers s)"
    and "distinct (n # ns)" and "\<forall>r \<in> set (n # ns). chunk_states (jobs s) r = Some CHUNK_STATUS_NOT_FOUND"
    and "chunk_states J = mark (n # ns) (chunk_states (jobs s))" and "jobs_ok J (current_job s)"
    and "s1 = s\<lparr>ticks := t, jobs := J, receivers := h\<lparr>cell := (cell h)(a \<mapsto> c\<lparr>chunk_list := n # ns\<rparr>)\<rparr>\<rparr>"
  shows "safe (andThen (add_receiver_connection (Some a) s1) (start_connection (Some a)))
    (\<lambda>s'. (\<exists>as' L'. receive_ok s' as' L') \<and> provider_frame s s')"
proof -
  let ?c1 = "c\<lparr>chunk_list := n # ns\<rparr>" and ?head = "receiver_connection_head s"
  let ?c2 = "?c1\<lparr>rc_next := ?head\<rparr>"
  let ?h1 = "h\<lparr>cell := (cell h)(a \<mapsto> ?c1)\<rparr>"
  let ?h2 = "?h1\<lparr>cell := (cell ?h1)(a \<mapsto> ?c2)\<rparr>"
  let ?s2 = "s1\<lparr>receivers := ?h2, receiver_connection_head := Some a\<rparr>"
  have c: "chunk_list c = []" "rc_provider c = Some p" "rc_status c = RECEIVER_STATUS_PENGDING_DATA" "rc_next c = None"
    by (simp_all add: assms(6) init_receiver_connection_def blank_receiver_connection_def gettimeofday_def)
  have view: "rl.view (receivers s) ?head as L" and dom: "dom (cell (receivers s)) = set as"
    using assms(1) by (simp_all add: receive_ok_def)
  have fresh: "a \<notin> set as" "cell (receivers s) a = None"
    using fresh_not_listed [OF assms(1)] by (simp_all add: assms(8))
  have h1: "?h1 = (receivers s)\<lparr>cell := (cell (receivers s))(a := Some ?c1), brk := Suc a\<rparr>"
    by (simp add: assms(7,8) heap_alloc_def)
  have "rl.view ?h1 ?head as L"
    unfolding h1 by (rule rl.view_other [OF view fresh(1)]) (simp_all add: assms(8))
  from rl.view_push [OF this _ fresh(1), of ?c1]
  have view2: "rl.view ?h2 (Some a) (a # as) (rl.erase ?c1 # L)" by simp
  have dom2: "dom (cell ?h2) = set (a # as)"
    using dom unfolding h1 by auto
  have add: "add_receiver_connection (Some a) s1 = Inr ?s2"
    by (simp add: add_receiver_connection_def load_receiver_def store_receiver_def assms(13))
  have "chunk_states J n = Some CHUNK_STATUS_PENDING" by (simp add: assms(11) mark_def)
  then obtain k where k: "jchunk J n = Some k" by (auto dest: chunk_statesD)
  let ?J = "put_chunk J n (k\<lparr>ck_status := CHUNK_STATUS_DOWNDLOADING\<rparr>)"
  let ?t = "Some (clock ?s2 (Suc (ticks ?s2)))"
  let ?c3 = "?c2\<lparr>last_get_time := ?t\<rparr>"
  let ?h3 = "?h2\<lparr>cell := (cell ?h2)(a \<mapsto> ?c3)\<rparr>"
  have start: "start_connection (Some a) ?s2 = Inr (?s2\<lparr>jobs := ?J, receivers := ?h3,
      ticks := Suc (Suc (ticks ?s2)),
      outbox := outbox ?s2 @ [(peer_addr (peers (config ?s2) ! p),
        datagram (malloc_get_packet (uninit ?s2 (ticks ?s2)) (hash_binary k)))]\<rparr>)" (is "_ = Inr ?s3")
    by (subst start_connection_eq [where c = ?c2 and r = n and k = k and i = p])
      (use k assms(4) c in \<open>simp_all add: assms(13)\<close>)
  have J: "jobs_ok ?J (current_job s)"
    by (rule jobs_ok_put [OF assms(12) k chunk_ok_downloading [OF jobs_okD [OF assms(12) k]]])
  have view3: "rl.view ?h3 (Some a) (a # as) (rl.erase ?c3 # L)"
    using rl.view_store [OF view2, of 0 ?c2 ?c3] by simp
  have dom3: "dom (cell ?h3) = set (a # as)" using dom2 by auto
  have "rinv (chunk_states (jobs s)) (length (peers (config s))) L" using assms(1) by (simp add: receive_ok_def)
  from rinv_new [OF this assms(9,10), of "rl.erase ?c3" p]
  have inv: "rinv (chunk_states ?J) (length (peers (config s))) (rl.erase ?c3 # L)"
    using assms(4,5) c k by (simp add: assms(11))
  have "receive_ok ?s3 (a # as) (rl.erase ?c3 # L)"
    using J view3 dom3 inv assms(2,3) by (simp add: receive_ok_def assms(13))
  moreover have "provider_frame s ?s3" by (simp add: provider_frame_def assms(13))
  ultimately show ?thesis unfolding add andThen_Inr start safe_Inr by blast
qed

theorem process_ihave_ok:
  assumes "receive_ok s as L" and "p < length (peers (config s))"
  shows "safe (process_ihave pkt (Some p) s) (\<lambda>s'. (\<exists>as' L'. receive_ok s' as' L') \<and> provider_frame s s')"
proof (cases "current_job s")
  case None
  with assms(1) show ?thesis by (auto simp: process_ihave_def)
next
  case (Some j)
  show ?thesis
  proof (cases "find (\<lambda>i. rc_provider (L ! i) = Some p) [0..<length L]")
    case (Some i)
    then have "i < length L" by (auto simp: find_Some_iff)
    with Some \<open>current_job s = Some j\<close> ihave_existing_ok [OF assms(1), of i pkt] show ?thesis
      by (simp add: process_ihave_def receive_search [OF assms(1)])
  next
    case None
    then have new: "\<forall>d \<in> set L. rc_provider d \<noteq> Some p"
      by (auto simp: find_None_iff in_set_conv_nth)
    show ?thesis
    proof (cases "int (length L) < max_receiver_connection s")
      case False
      with None Some assms(1) show ?thesis
        by (auto simp: process_ihave_def receive_search [OF assms(1)] receive_number [OF assms(1)])
    next
      case True
      have call: "process_ihave pkt (Some p) s = andThen (malloc_receiver_connection pkt (Some p) s)
        (\<lambda>(new_connection, s). if new_connection = None then Inr s
            else andThen (add_receiver_connection new_connection s) (start_connection new_connection))"
        using None Some True
        by (simp add: process_ihave_def receive_search [OF assms(1)] receive_number [OF assms(1)])
      show ?thesis
        unfolding call
      proof (subst safe_andThen, rule safe_mono [OF malloc_receiver_spec [OF assms(1) Some]], clarify)
        fix q s1
        let ?a = "brk (receivers s)"
        let ?c = "fst (init_receiver_connection (blank_receiver_connection (Some p)) s)"
        let ?h = "snd (heap_alloc (receivers s) ?c)"
        assume "let a = ?a; c = ?c; h = snd (heap_alloc (receivers s) c)
          in (case q of
            None \<Rightarrow> s1 = s\<lparr>ticks := ticks s1, jobs := jobs s1, receivers := h\<lparr>cell := (cell h)(a := None)\<rparr>\<rparr>
              \<and> chunk_states (jobs s1) = chunk_states (jobs s)
          | Some a' \<Rightarrow> a' = a \<and> (\<exists>n ns. distinct (n # ns)
              \<and> (\<forall>r \<in> set (n # ns). chunk_states (jobs s) r = Some CHUNK_STATUS_NOT_FOUND)
              \<and> chunk_states (jobs s1) = mark (n # ns) (chunk_states (jobs s))
              \<and> s1 = s\<lparr>ticks := ticks s1, jobs := jobs s1, receivers := h\<lparr>cell := (cell h)(a \<mapsto> c\<lparr>chunk_list := n # ns\<rparr>)\<rparr>\<rparr>))
          \<and> jobs_ok (jobs s1) (current_job s) \<and> job_frame (jobs s) (jobs s1)"
        note spec = this [unfolded Let_def]
        show "safe (if q = None then Inr s1
            else andThen (add_receiver_connection q s1) (start_connection q))
          (\<lambda>s'. (\<exists>as' L'. receive_ok s' as' L') \<and> provider_frame s s')"
        proof (cases q)
          case None
          with spec have h: "s1 = s\<lparr>ticks := ticks s1, jobs := jobs s1, receivers := ?h\<lparr>cell := (cell ?h)(?a := None)\<rparr>\<rparr>"
            "chunk_states (jobs s1) = chunk_states (jobs s)" "jobs_ok (jobs s1) (current_job s)" by auto
          have "provider_frame s s1" by (subst h(1)) (simp add: provider_frame_def)
          with receive_ok_unlisted [OF assms(1) h(3,2,1)] None show ?thesis by auto
        next
          case (Some a')
          with spec obtain n ns where h: "a' = ?a" "distinct (n # ns)"
            "\<forall>r \<in> set (n # ns). chunk_states (jobs s) r = Some CHUNK_STATUS_NOT_FOUND"
            "chunk_states (jobs s1) = mark (n # ns) (chunk_states (jobs s))"
            "s1 = s\<lparr>ticks := ticks s1, jobs := jobs s1, receivers := ?h\<lparr>cell := (cell ?h)(?a \<mapsto> ?c\<lparr>chunk_list := n # ns\<rparr>)\<rparr>\<rparr>"
            and J: "jobs_ok (jobs s1) (current_job s)" by auto
          from ihave_connect_ok [OF assms(1) \<open>current_job s = Some j\<close> True assms(2) new refl refl refl h(2-4) J h(5)]
          show ?thesis by (simp add: Some h(1))
        qed
      qed
    qed
  qed
qed

section \<open>DATA\<close>

text \<open>The buffer a chunk is received into: its own, or a fresh one.\<close>

definition receive_data :: "peer_s \<Rightarrow> chunk_s \<Rightarrow> byte list" where
  "receive_data s k = (case ck_data k of Some d \<Rightarrow> d | None \<Rightarrow> map (uninit s (ticks s)) [0..<CHUNK_DATA_SIZE])"

definition stored_packet :: "peer_s \<Rightarrow> chunk_s \<Rightarrow> network_packet_s \<Rightarrow> chunk_s" where
  "stored_packet s k pkt =
     k\<lparr>ck_data := Some (overwrite (receive_data s k) (1024 * nat (received_seq_num k)) (take 1024 (payload pkt))),
       received_seq_num := sint (seq_number (header pkt)),
       received_byte_num := 1024 * received_seq_num k + 1024\<rparr>"

lemma length_receive_data: "chunk_ok k \<Longrightarrow> length (receive_data s k) = CHUNK_DATA_SIZE"
  by (auto simp: receive_data_def chunk_ok_def split: option.split)

lemma save_data_packet_eq:
  assumes "cell (receivers s) a = Some c" and "chunk_list c = r # rs" and "jchunk (jobs s) r = Some k"
    and "chunk_ok k" and "received_data_size (header pkt) = 1024"
  shows "save_data_packet pkt (Some a) s =
    Inr (s\<lparr>ticks := (if ck_data k = None then Suc (ticks s) else ticks s),
           jobs := put_chunk (jobs s) r (stored_packet s k pkt)\<rparr>)"
proof -
  have k: "0 \<le> received_seq_num k" "received_seq_num k < 512" "received_byte_num k = 1024 * received_seq_num k"
    using assms(4) by (simp_all add: chunk_ok_def)
  then have n: "nat (received_byte_num k) = 1024 * nat (received_seq_num k)"
    by (simp add: nat_mult_distrib)
  have room: "1024 * nat (received_seq_num k) + 1024 \<le> CHUNK_DATA_SIZE" using k by simp
  have len: "ck_data k = Some d \<Longrightarrow> length d = CHUNK_DATA_SIZE" for d
    using assms(4) by (simp add: chunk_ok_def)
  show ?thesis
  proof (cases "ck_data k")
    case None
    with assms k n room show ?thesis
      by (simp add: save_data_packet_def load_receiver_def fresh_memory_def stored_packet_def
          receive_data_def Let_def)
  next
    case (Some d)
    with assms k n room len [OF Some] show ?thesis
      by (simp add: save_data_packet_def load_receiver_def stored_packet_def receive_data_def Let_def)
  qed
qed

text \<open>What happens to a complete chunk: its new status, and the state with the output file.\<close>

definition verdict :: "byte list \<Rightarrow> byte list \<Rightarrow> byte list \<Rightarrow> peer_s \<Rightarrow> chunk_status \<times> peer_s" where
  "verdict name d hash s =
     (let s = s\<lparr>ticks := Suc (ticks s)\<rparr>
      in if sha1 d \<noteq> hash then (CHUNK_STATUS_NOT_FOUND, s) else append_chunk name d s)"

lemma save_chunk_incomplete:
  assumes "cell (receivers s) a = Some c" and "chunk_list c = r # rs" and "jchunk (jobs s) r = Some k"
    and "received_byte_num k \<noteq> int CHUNK_DATA_SIZE"
  shows "save_chunk (Some a) s = Inr s"
  using assms by (simp add: save_chunk_def load_receiver_def)

lemma append_chunk_frame:
  "snd (append_chunk name d s) = s\<lparr>ticks := ticks (snd (append_chunk name d s)), files := files (snd (append_chunk name d s))\<rparr>"
  "fst (append_chunk name d s) = CHUNK_STATUS_FINISHED \<or> fst (append_chunk name d s) = CHUNK_STATUS_NOT_FOUND"
  by (auto simp: append_chunk_def Let_def)

lemma verdict_frame:
  "snd (verdict name d h s) = s\<lparr>ticks := ticks (snd (verdict name d h s)), files := files (snd (verdict name d h s))\<rparr>"
  "fst (verdict name d h s) = CHUNK_STATUS_FINISHED \<or> fst (verdict name d h s) = CHUNK_STATUS_NOT_FOUND"
  using append_chunk_frame [of name d "s\<lparr>ticks := Suc (ticks s)\<rparr>"]
  by (auto simp: verdict_def Let_def)

lemma save_chunk_eq:
  assumes "cell (receivers s) a = Some c" and "chunk_list c = r # rs" and "jchunk (jobs s) r = Some k"
    and "received_byte_num k = int CHUNK_DATA_SIZE" and "ck_data k = Some d" and "length d = CHUNK_DATA_SIZE"
    and "current_job s = Some j" and "cell (jobs s) j = Some job"
  shows "save_chunk (Some a) s =
    Inr ((snd (verdict (output_file_name job) d (hash_binary k) s))
      \<lparr>jobs := put_chunk (jobs s) r (k\<lparr>ck_status := fst (verdict (output_file_name job) d (hash_binary k) s),
         ck_data := None, received_seq_num := 0, received_byte_num := 0\<rparr>)\<rparr>)"
proof -
  have sha: "shahash mem d 524288 = Some (sha1 d)" for mem
    using shahash_sha1 [of d mem] assms(6) by simp
  have jobs: "jobs (snd (append_chunk n d s')) = jobs s'" for n s'
    by (subst append_chunk_frame(1)) simp
  show ?thesis
  proof (cases "sha1 d = hash_binary k")
    case False
    with assms sha show ?thesis
      by (simp add: save_chunk_def load_receiver_def fresh_memory_def verdict_def Let_def)
  next
    case True
    let ?s1 = "s\<lparr>ticks := Suc (ticks s)\<rparr>"
    obtain st s2 where ap: "append_chunk (output_file_name job) d ?s1 = (st, s2)" by fastforce
    have "jobs s2 = jobs s" using jobs [of "output_file_name job" ?s1] ap by simp
    with True assms sha ap show ?thesis
      by (simp add: save_chunk_def load_receiver_def fresh_memory_def verdict_def Let_def)
  qed
qed

text \<open>
  Behind a finished first chunk: the next GET, or the end of the connection. \<open>s\<close> is the state with
  the finished chunk stored, \<open>L\<close> the connections and \<open>st\<close> the chunk states as they were before.
\<close>

definition receive_parts :: "peer_s \<Rightarrow> nat list \<Rightarrow> receiver_connection_s list \<Rightarrow> bool" where
  "receive_parts s as L \<longleftrightarrow>
     jobs_ok (jobs s) (current_job s) \<and>
     rl.view (receivers s) (receiver_connection_head s) as L \<and> dom (cell (receivers s)) = set as \<and>
     int (length L) \<le> max 0 (max_receiver_connection s) \<and> current_job s \<noteq> None"

lemma receive_ok_parts: "receive_ok s as L \<Longrightarrow> L \<noteq> [] \<Longrightarrow> receive_parts s as L"
  by (simp add: receive_ok_def receive_parts_def)

lemma parts_ok:
  "receive_parts s as L \<Longrightarrow> rinv (chunk_states (jobs s)) (length (peers (config s))) L \<Longrightarrow> receive_ok s as L"
  by (simp add: receive_ok_def receive_parts_def)

lemma finished_next_ok:
  assumes parts: "receive_parts s as L" and i: "i < length L" and st: "rinv st (length (peers (config s))) L"
    and c: "cell (receivers s) (as ! i) = Some c" "rl.erase c = L ! i" "chunk_list c = r # n # ns"
    and times: "last_data_time c \<noteq> None"
    and x: "x = CHUNK_STATUS_FINISHED \<or> x = CHUNK_STATUS_NOT_FOUND"
    and J: "chunk_states (jobs s) = st(r \<mapsto> x)" and k: "jchunk (jobs s) r = Some k" "ck_status k = x"
  shows "safe (reset_receiver_connection (Some (as ! i)) s)
    (\<lambda>s'. (\<exists>as' L'. receive_ok s' as' L') \<and> provider_frame s s')"
proof -
  let ?a = "as ! i"
  have rinv: "rinv st (length (peers (config s))) (take i L @ L ! i # drop (Suc i) L)"
    using st i by (simp flip: split_at)
  have rc: "rc_ok st (length (peers (config s))) (L ! i)" using st i by (simp add: rinv_def)
  have same: "rc_provider (L ! i) = rc_provider c" "chunk_list (L ! i) = chunk_list c"
    "last_get_time (L ! i) = last_get_time c"
    by (simp_all flip: c(2))
  from rc obtain p where p: "rc_provider c = Some p" "p < length (peers (config s))"
    unfolding rc_ok_def same by blast
  have dist: "distinct (chunk_list (L ! i))"
    using rinv by (simp add: rinv_def)
  then have "n \<noteq> r" using same c(3) by auto
  have "st n = Some CHUNK_STATUS_PENDING" using rc same c(3) by (auto simp: rc_ok_def)
  then have "chunk_states (jobs s) n = Some CHUNK_STATUS_PENDING" using \<open>n \<noteq> r\<close> by (simp add: J)
  then obtain kn where kn: "jchunk (jobs s) n = Some kn" by (auto dest: chunk_statesD)
  let ?c1 = "c\<lparr>chunk_list := n # ns\<rparr>"
  let ?h1 = "(receivers s)\<lparr>cell := (cell (receivers s))(?a \<mapsto> ?c1)\<rparr>"
  let ?s1 = "s\<lparr>receivers := ?h1\<rparr>"
  let ?c2 = "?c1\<lparr>last_get_time := Some (clock ?s1 (Suc (ticks ?s1)))\<rparr>"
  let ?J = "put_chunk (jobs s) n (kn\<lparr>ck_status := CHUNK_STATUS_DOWNDLOADING\<rparr>)"
  obtain t ob where start: "start_connection (Some ?a) ?s1 =
      Inr (?s1\<lparr>jobs := ?J, receivers := ?h1\<lparr>cell := (cell ?h1)(?a \<mapsto> ?c2)\<rparr>, ticks := t, outbox := ob\<rparr>)"
    (is "_ = Inr ?s2")
    using start_connection_eq [of ?s1 ?a ?c1 n ns kn p] kn p by simp
  have x': "x \<noteq> CHUNK_STATUS_PENDING" "x \<noteq> CHUNK_STATUS_DOWNDLOADING" using x by auto
  have call: "reset_receiver_connection (Some ?a) s = Inr ?s2"
    using c(1,3) k x'(2) p start
    by (simp add: reset_receiver_connection_def load_receiver_def store_receiver_def)
  have view: "rl.view (receivers s) (receiver_connection_head s) as L" using parts by (simp add: receive_parts_def)
  have len: "i < length as" using rl.view_length [OF view] i by simp
  have jok: "jobs_ok (jobs s) (current_job s)" using parts by (simp add: receive_parts_def)
  have "jobs_ok ?J (current_job s)"
    by (rule jobs_ok_put [OF jok kn chunk_ok_downloading [OF jobs_okD [OF jok kn]]])
  moreover have "rl.view (?h1\<lparr>cell := (cell ?h1)(?a \<mapsto> ?c2)\<rparr>) (receiver_connection_head s) as (L[i := rl.erase ?c2])"
    using rl.view_store [OF view len c(1), of ?c2] by simp
  moreover have "dom (cell (?h1\<lparr>cell := (cell ?h1)(?a \<mapsto> ?c2)\<rparr>)) = set as"
    using parts len by (auto simp: receive_parts_def)
  moreover have "rinv (chunk_states ?J) (length (peers (config s))) (L[i := rl.erase ?c2])"
    using rinv_next [OF rinv _ x', of r n ns "rl.erase ?c2"] c(3) same times kn i
    by (simp add: update_at J)
  ultimately have "receive_ok ?s2 as (L[i := rl.erase ?c2])"
    using parts by (simp add: receive_ok_def receive_parts_def)
  moreover have "provider_frame s ?s2" by (simp add: provider_frame_def)
  ultimately show ?thesis unfolding call safe_Inr by blast
qed

lemma finished_last_ok:
  assumes parts: "receive_parts s as L" and i: "i < length L" and st: "rinv st (length (peers (config s))) L"
    and c: "cell (receivers s) (as ! i) = Some c" "rl.erase c = L ! i" "chunk_list c = [r]"
    and x: "x = CHUNK_STATUS_FINISHED \<or> x = CHUNK_STATUS_NOT_FOUND"
    and J: "chunk_states (jobs s) = st(r \<mapsto> x)" and k: "jchunk (jobs s) r = Some k" "ck_status k = x"
  shows "safe (reset_receiver_connection (Some (as ! i)) s)
    (\<lambda>s'. (\<exists>as' L'. receive_ok s' as' L') \<and> provider_frame s s')"
proof -
  let ?a = "as ! i"
  have rinv: "rinv st (length (peers (config s))) (take i L @ L ! i # drop (Suc i) L)"
    using st i by (simp flip: split_at)
  have rc: "rc_ok st (length (peers (config s))) (L ! i)" using st i by (simp add: rinv_def)
  have same: "rc_provider (L ! i) = rc_provider c" "chunk_list (L ! i) = chunk_list c"
    "last_get_time (L ! i) = last_get_time c"
    by (simp_all flip: c(2))
  from rc obtain p where p: "rc_provider c = Some p" "p < length (peers (config s))"
    unfolding rc_ok_def same by blast
  have x': "x \<noteq> CHUNK_STATUS_PENDING" "x \<noteq> CHUNK_STATUS_DOWNDLOADING" using x by auto
  let ?c1 = "c\<lparr>chunk_list := []\<rparr>"
  let ?h1 = "(receivers s)\<lparr>cell := (cell (receivers s))(?a \<mapsto> ?c1)\<rparr>"
  have view: "rl.view (receivers s) (receiver_connection_head s) as L" using parts by (simp add: receive_parts_def)
  have len: "i < length as" using rl.view_length [OF view] i by simp
  have call: "reset_receiver_connection (Some ?a) s =
      andThen (remove_receiver_connection (Some ?a) (s\<lparr>receivers := ?h1\<rparr>)) (free_receiver_connection (Some ?a))"
    using c(1,3) k x'(2) p
    by (simp add: reset_receiver_connection_def load_receiver_def store_receiver_def)
  have view1: "rl.view ?h1 (receiver_connection_head s) as (L[i := rl.erase ?c1])"
    by (rule rl.view_store [OF view len c(1)]) simp
  have dom1: "dom (cell ?h1) = set as"
    using parts len by (auto simp: receive_parts_def)
  have inv: "rinv (chunk_states (jobs s)) (length (peers (config s))) (take i L @ drop (Suc i) L)"
    using rinv_last [OF rinv _ x', of r] c(3) same by (simp add: J)
  have dist: "distinct as" by (rule rl.view_distinct [OF view])
  have set: "set (take i as @ drop (Suc i) as) = set as - {?a}"
    using dist len by (subst (2) split_at [OF len], subst (asm) split_at [OF len]) auto
  have "dom (cell (receivers s)) = set as" using parts by (simp add: receive_parts_def)
  with rl.view_remove_free [OF view1 len] obtain head' h' h'' where
    h': "ll_remove rc_next rc_next_update ?h1 (receiver_connection_head s) (Some ?a) = Inr (head', h')"
      "heap_free h' (Some ?a) = Inr h''"
      "rl.view h'' head' (take i as @ drop (Suc i) as) (take i L @ drop (Suc i) L)"
      "dom (cell h'') = set as - {?a}"
    by (auto simp: safe_iff)
  let ?s2 = "s\<lparr>receivers := h', receiver_connection_head := head'\<rparr>"
  obtain c' where c': "cell h' ?a = Some c'"
    using h'(2) by (auto simp: heap_free_def split: option.splits)
  have "remove_receiver_connection (Some ?a) (s\<lparr>receivers := ?h1\<rparr>) = Inr ?s2"
    using h'(1) by (simp add: remove_receiver_connection_def)
  moreover have "free_receiver_connection (Some ?a) ?s2 = Inr (?s2\<lparr>receivers := h''\<rparr>)"
    using h'(2) c' by (simp add: free_receiver_connection_def load_receiver_def)
  moreover have "receive_ok (?s2\<lparr>receivers := h''\<rparr>) (take i as @ drop (Suc i) as) (take i L @ drop (Suc i) L)"
    using parts h'(3,4) inv set i by (simp add: receive_ok_def receive_parts_def)
  moreover have "provider_frame s (?s2\<lparr>receivers := h''\<rparr>)" by (simp add: provider_frame_def)
  ultimately show ?thesis unfolding call by auto
qed

text \<open>The packet the connection waits for.\<close>

definition deliver :: "network_packet_s \<Rightarrow> ptr \<Rightarrow> peer_s \<Rightarrow> peer_s result" where
  "deliver pkt p s =
     andThen (save_data_packet pkt p s) (\<lambda>s. andThen (save_chunk p s) (reset_receiver_connection p))"

lemma chunk_states_kept: "jchunk J r = Some k \<Longrightarrow> ck_status k' = ck_status k \<Longrightarrow>
    chunk_states (put_chunk J r k') = chunk_states J"
  by (rule ext) (auto simp: chunk_states_def)

lemma stored_packet_simps [simp]:
  "ck_status (stored_packet s k pkt) = ck_status k" "hash_binary (stored_packet s k pkt) = hash_binary k"
  "received_seq_num (stored_packet s k pkt) = sint (seq_number (header pkt))"
  "received_byte_num (stored_packet s k pkt) = 1024 * received_seq_num k + 1024"
  by (simp_all add: stored_packet_def)

lemma stored_packet_data:
  assumes "chunk_ok k" and "1024 \<le> length (payload pkt)"
  shows "\<exists>d. ck_data (stored_packet s k pkt) = Some d \<and> length d = CHUNK_DATA_SIZE"
proof -
  have k: "0 \<le> received_seq_num k" "received_seq_num k < 512" using assms(1) by (simp_all add: chunk_ok_def)
  then have "1024 * nat (received_seq_num k) + 1024 \<le> CHUNK_DATA_SIZE" by simp
  then show ?thesis
    using assms(2) length_receive_data [OF assms(1), of s] by (simp add: stored_packet_def)
qed

lemma deliver_ok:
  assumes ok: "receive_ok s as L" and i: "i < length L"
    and c: "cell (receivers s) (as ! i) = Some c" "rl.erase c = L ! i" "chunk_list c = r # rs"
    and times: "last_data_time c \<noteq> None"
    and k: "jchunk (jobs s) r = Some k" and seq: "sint (seq_number (header pkt)) = received_seq_num k + 1"
    and size: "received_data_size (header pkt) = 1024" "1024 \<le> length (payload pkt)"
  shows "safe (deliver pkt (Some (as ! i)) s)
    (\<lambda>s'. (\<exists>as' L'. receive_ok s' as' L') \<and> provider_frame s s')"
proof -
  let ?a = "as ! i" and ?k1 = "stored_packet s k pkt"
  let ?s1 = "s\<lparr>ticks := (if ck_data k = None then Suc (ticks s) else ticks s), jobs := put_chunk (jobs s) r ?k1\<rparr>"
  have jok: "jobs_ok (jobs s) (current_job s)" and st: "rinv (chunk_states (jobs s)) (length (peers (config s))) L"
    using ok by (simp_all add: receive_ok_def)
  have kok: "chunk_ok k" by (rule jobs_okD [OF jok k])
  have save: "save_data_packet pkt (Some ?a) s = Inr ?s1"
    by (rule save_data_packet_eq [OF c(1,3) k kok size(1)])
  from stored_packet_data [OF kok size(2)] obtain d where d: "ck_data ?k1 = Some d" "length d = CHUNK_DATA_SIZE"
    by blast
  have k1: "jchunk (jobs ?s1) r = Some ?k1" using k by simp
  have n: "0 \<le> received_seq_num k" "received_seq_num k < 512" using kok by (simp_all add: chunk_ok_def)
  have "rc_ok (chunk_states (jobs s)) (length (peers (config s))) (L ! i)" using st i by (simp add: rinv_def)
  then have "chunk_states (jobs s) r = Some CHUNK_STATUS_DOWNDLOADING"
    using c(3) by (auto simp: rc_ok_def simp flip: c(2))
  then have kd: "ck_status k = CHUNK_STATUS_DOWNDLOADING" using k by (simp add: chunk_states_def)
  show ?thesis
  proof (cases "received_seq_num k = 511")
    case False
    have "chunk_ok ?k1" using kok n False seq d kd by (simp add: chunk_ok_def)
    then have "jobs_ok (jobs ?s1) (current_job ?s1)" using jobs_ok_put [OF jok k] by simp
    moreover have "chunk_states (jobs ?s1) = chunk_states (jobs s)"
      using chunk_states_kept [OF k, of ?k1] by simp
    ultimately have "receive_ok ?s1 as L" using ok by (simp add: receive_ok_def)
    moreover have "provider_frame s ?s1" by (simp add: provider_frame_def)
    moreover have "deliver pkt (Some ?a) s = Inr ?s1"
    proof -
      have "save_chunk (Some ?a) ?s1 = Inr ?s1"
        by (rule save_chunk_incomplete [OF _ c(3) k1]) (use c(1) n False in simp_all)
      moreover have "reset_receiver_connection (Some ?a) ?s1 = Inr ?s1"
        using c(1,3) k1 kd by (simp add: reset_receiver_connection_def load_receiver_def)
      ultimately show ?thesis by (simp add: deliver_def save)
    qed
    ultimately show ?thesis by (simp only: safe_Inr) blast
  next
    case True
    have "L \<noteq> []" using i by auto
    from receive_ok_parts [OF ok this] have parts: "receive_parts s as L" .
    then obtain j where j: "current_job s = Some j" by (auto simp: receive_parts_def)
    have "job_frame (jobs s) (jobs ?s1)" using k by simp
    then obtain job where job: "cell (jobs ?s1) j = Some job"
      using job_frame_live [of "jobs s" "jobs ?s1" j] jok j by (auto simp: jobs_ok_def)
    let ?v = "verdict (output_file_name job) d (hash_binary ?k1) ?s1"
    let ?k2 = "?k1\<lparr>ck_status := fst ?v, ck_data := None, received_seq_num := 0, received_byte_num := 0\<rparr>"
    obtain t f where v: "snd ?v = ?s1\<lparr>ticks := t, files := f\<rparr>" using verdict_frame(1) by blast
    let ?s2 = "s\<lparr>ticks := t, files := f, jobs := put_chunk (jobs ?s1) r ?k2\<rparr>"
    have "save_chunk (Some ?a) ?s1 = Inr ((snd ?v)\<lparr>jobs := put_chunk (jobs ?s1) r ?k2\<rparr>)"
      by (rule save_chunk_eq [OF _ c(3) k1 _ d _ job]) (use c(1) True j in simp_all)
    also have "(snd ?v)\<lparr>jobs := put_chunk (jobs ?s1) r ?k2\<rparr> = ?s2" by (subst v) simp
    finally have call: "deliver pkt (Some ?a) s = reset_receiver_connection (Some ?a) ?s2"
      by (simp add: deliver_def save)
    have x: "fst ?v = CHUNK_STATUS_FINISHED \<or> fst ?v = CHUNK_STATUS_NOT_FOUND" by (rule verdict_frame(2))
    have k2: "jchunk (jobs ?s2) r = Some ?k2" using k by simp
    have ok2: "chunk_ok ?k2" using kok x by (auto simp: chunk_ok_def)
    have "jchunk (jobs ?s2) q = (if q = r then Some ?k2 else jchunk (jobs s) q)" for q
      using k by simp
    then have "jobs_ok (jobs ?s2) (current_job ?s2)"
    proof -
      have f: "job_frame (jobs s) (jobs ?s2)" using k by simp
      have "chunk_ok q" if "jchunk (jobs ?s2) p = Some q" for p q
        using that k ok2 jobs_okD [OF jok] by (auto split: if_splits)
      with job_frame_heap_ok [OF f] job_frame_live [OF f] jok show ?thesis
        by (auto simp: jobs_ok_def)
    qed
    then have parts2: "receive_parts ?s2 as L" using parts by (simp add: receive_parts_def)
    have J: "chunk_states (jobs ?s2) = (chunk_states (jobs s))(r \<mapsto> fst ?v)"
      using k by (intro ext) (simp add: chunk_states_def)
    have frame: "provider_frame ?s2 s' \<Longrightarrow> provider_frame s s'" for s'
      by (simp add: provider_frame_def)
    have st2: "rinv (chunk_states (jobs s)) (length (peers (config ?s2))) L" and c2: "cell (receivers ?s2) ?a = Some c"
      using st c(1) by simp_all
    have "safe (reset_receiver_connection (Some ?a) ?s2) (\<lambda>s'. (\<exists>as' L'. receive_ok s' as' L') \<and> provider_frame ?s2 s')"
    proof (cases rs)
      case Nil
      show ?thesis
        by (rule finished_last_ok [OF parts2 i st2 c2 c(2) _ x J k2]) (use c(3) Nil in simp_all)
    next
      case (Cons n ns)
      show ?thesis
        by (rule finished_next_ok [OF parts2 i st2 c2 c(2) _ times x J k2]) (use c(3) Cons in simp_all)
    qed
    then show ?thesis unfolding call by (rule safe_mono) (blast intro: frame)
  qed
qed

theorem process_data_ok:
  assumes ok: "receive_ok s as L"
    and size: "received_data_size (header pkt) = 1024" "1024 \<le> length (payload pkt)"
  shows "safe (process_data pkt from peer s) (\<lambda>s'. (\<exists>as' L'. receive_ok s' as' L') \<and> provider_frame s s')"
proof (cases "find (\<lambda>i. rc_provider (L ! i) = peer) [0..<length L]")
  case None
  with ok show ?thesis by (auto simp: process_data_def receive_search [OF ok])
next
  case (Some i)
  then have i: "i < length L" by (auto simp: find_Some_iff)
  let ?a = "as ! i"
  obtain c where c: "cell (receivers s) ?a = Some c" "rl.erase c = L ! i" using receive_at [OF ok i] by blast
  have jok: "jobs_ok (jobs s) (current_job s)" and st: "rinv (chunk_states (jobs s)) (length (peers (config s))) L"
    using ok by (simp_all add: receive_ok_def)
  have rc: "rc_ok (chunk_states (jobs s)) (length (peers (config s))) (rl.erase c)"
    using st i c(2) by (simp add: rinv_def)
  then obtain r rs where r: "chunk_list c = r # rs" "chunk_states (jobs s) r = Some CHUNK_STATUS_DOWNDLOADING"
    and get: "last_get_time c \<noteq> None"
    unfolding rc_ok_def by auto
  then obtain k where k: "jchunk (jobs s) r = Some k" by (auto dest: chunk_statesD)
  have load: "load_receiver s (Some ?a) = Inr c" by (simp add: load_receiver_def c(1))
  define n where "n = received_seq_num k"
  let ?ack = "\<lambda>m t. s\<lparr>ticks := Suc (ticks s), outbox := outbox s @ [(from, datagram (malloc_ack_packet t m))]\<rparr>"
  let ?c1 = "c\<lparr>last_data_time := Some (clock s (ticks s)), rc_status := RECEIVER_STATUS_RECEIVED_DATA\<rparr>"
  let ?h1 = "(receivers s)\<lparr>cell := (cell (receivers s))(?a \<mapsto> ?c1)\<rparr>"
  let ?s1 = "s\<lparr>receivers := ?h1, ticks := Suc (Suc (ticks s)),
      outbox := outbox s @ [(from, datagram (malloc_ack_packet (uninit s (Suc (ticks s))) (1 + n)))]\<rparr>"
  have call: "process_data pkt from peer s =
     (if sint (seq_number (header pkt)) < n + 1 then Inr s
      else if sint (seq_number (header pkt)) > n + 1 then Inr (?ack n (uninit s (ticks s)))
      else deliver pkt (Some ?a) ?s1)"
  proof -
    have "0 \<le> n" using jobs_okD [OF jok k] by (simp add: chunk_ok_def n_def)
    then show ?thesis
      using Some r k
      by (simp add: process_data_def receive_search [OF ok] load Let_def n_def [symmetric] fresh_memory_def
          gettimeofday_def store_receiver_def c(1) send_packet_def deliver_def)
  qed
  show ?thesis
  proof (cases "sint (seq_number (header pkt)) = n + 1")
    case False
    have "receive_ok (?ack n (uninit s (ticks s))) as L" using ok by (simp add: receive_ok_def)
    moreover have "provider_frame s (?ack n (uninit s (ticks s)))" by (simp add: provider_frame_def)
    ultimately show ?thesis using False ok unfolding call by (cases "sint (seq_number (header pkt)) < n + 1") auto
  next
    case True
    have "rinv (chunk_states (jobs s)) (length (peers (config s))) (take i L @ L ! i # drop (Suc i) L)"
      using st i by (simp flip: split_at)
    note same = rinv_same [OF this, of "rl.erase ?c1"]
    have "rinv (chunk_states (jobs s)) (length (peers (config s))) (L[i := rl.erase ?c1])"
    proof -
      have "last_get_time (L ! i) \<noteq> None" using get by (simp flip: c(2))
      with same i c(2) show ?thesis by (simp add: update_at)
    qed
    then have "receive_ok ?s1 as (L[i := rl.erase ?c1])"
      by (intro receive_ok_store [OF ok i c(1) _ jok]) simp_all
    then have "safe (deliver pkt (Some ?a) ?s1) (\<lambda>s'. (\<exists>as' L'. receive_ok s' as' L') \<and> provider_frame ?s1 s')"
      by (rule deliver_ok [where c = ?c1]) (use i r k True size in \<open>simp_all add: n_def\<close>)
    moreover have "\<not> sint (seq_number (header pkt)) < n + 1" "\<not> sint (seq_number (header pkt)) > n + 1"
      using True by simp_all
    ultimately show ?thesis unfolding call by (auto elim!: safe_mono simp: provider_frame_def)
  qed
qed

end
