(* ===== verification/Provider_Steps.thy ===== *)
theory Provider_Steps imports Peer begin

text \<open>
  The providing side of a peer: the invariant of the list of provider connections and of the owned
  chunks, and that the handlers for GET and ACK, the sending task and the timeouts keep it. Each
  connection serves a loaded chunk of full size to a known peer, and satisfies the window invariant
  \<open>pc_ok\<close> of theory \<open>Control\<close>; there is at most one connection per peer.
\<close>

section \<open>The invariant\<close>

definition loaded :: "chunk_s list \<Rightarrow> nat \<Rightarrow> bool" where
  "loaded has i \<longleftrightarrow> i < length has \<and> (\<exists>d. ck_data (has ! i) = Some d \<and> length d = CHUNK_DATA_SIZE)"

definition owned_ok :: "chunk_s list \<Rightarrow> bool" where
  "owned_ok has \<longleftrightarrow> (\<forall>c \<in> set has. \<forall>d. ck_data c = Some d \<longrightarrow> length d = CHUNK_DATA_SIZE)"

definition serves :: "chunk_s list \<Rightarrow> nat \<Rightarrow> provider_connection_s \<Rightarrow> bool" where
  "serves has np c \<longleftrightarrow> pc_ok c \<and> loaded has (pc_chunk c) \<and> (\<exists>i. pc_receiver c = Some i \<and> i < np)"

definition provide_ok :: "peer_s \<Rightarrow> nat list \<Rightarrow> provider_connection_s list \<Rightarrow> bool" where
  "provide_ok s ps L \<longleftrightarrow>
     pl.view (providers s) (provider_connection_head s) ps L \<and> dom (cell (providers s)) = set ps \<and>
     owned_ok (has_chunks s) \<and>
     (\<forall>c \<in> set L. serves (has_chunks s) (length (peers (config s))) c) \<and>
     distinct (map pc_receiver L) \<and> int (length L) \<le> max 0 (max_provider_connection s)"

text \<open>What the handlers of the providing side leave alone.\<close>

definition receiver_frame :: "peer_s \<Rightarrow> peer_s \<Rightarrow> bool" where
  "receiver_frame s s' \<longleftrightarrow>
     config s' = config s \<and> jobs s' = jobs s \<and> current_job s' = current_job s \<and>
     receivers s' = receivers s \<and> receiver_connection_head s' = receiver_connection_head s \<and>
     max_receiver_connection s' = max_receiver_connection s"

lemma receiver_frame_refl [simp]: "receiver_frame s s"
  by (simp add: receiver_frame_def)

lemma receiver_frame_trans: "receiver_frame s s' \<Longrightarrow> receiver_frame s' s'' \<Longrightarrow> receiver_frame s s''"
  by (simp add: receiver_frame_def)

lemma only_time_fields:
  assumes "only_time s (s' :: peer_s)"
  shows "providers s' = providers s" "provider_connection_head s' = provider_connection_head s"
    "has_chunks s' = has_chunks s" "config s' = config s"
    "max_provider_connection s' = max_provider_connection s" "receiver_frame s s'"
    "current_job s' = current_job s" "jobs s' = jobs s" "outbox s' = outbox s" "files s' = files s"
  by (insert assms, unfold only_time_def, (erule ssubst, simp add: receiver_frame_def)+)

lemma erased_provider [simp]:
  "pc_receiver (pl.erase c) = pc_receiver c" "pc_chunk (pl.erase c) = pc_chunk c"
  "pc_ok (pl.erase c) = pc_ok c" "last_packet_acked (pl.erase c) = last_packet_acked c"
  by (simp_all add: pl.erase_def pc_ok_def)

lemma serves_erase [simp]: "serves has np (pl.erase c) = serves has np c"
  by (simp add: serves_def)

lemma provide_at:
  assumes "provide_ok s ps L" and "i < length L"
  shows "\<exists>c. cell (providers s) (ps ! i) = Some c \<and> pl.erase c = L ! i
    \<and> serves (has_chunks s) (length (peers (config s))) c"
proof -
  have "i < length ps" using assms pl.view_length by (metis provide_ok_def)
  then obtain c where c: "cell (providers s) (ps ! i) = Some c" "pl.erase c = L ! i"
    using assms(1) pl.view_at by (metis provide_ok_def)
  have "serves (has_chunks s) (length (peers (config s))) (L ! i)"
    using assms by (simp add: provide_ok_def)
  with c show ?thesis by (metis serves_erase)
qed

lemma provide_ok_store:
  assumes ok: "provide_ok s ps L" and i: "i < length L" and c: "cell (providers s) (ps ! i) = Some c"
    and "pc_next c' = pc_next c" and "pc_receiver c' = pc_receiver c"
    and "serves (has_chunks s) (length (peers (config s))) c'"
    and "has_chunks s' = has_chunks s" and "config s' = config s"
    and "providers s' = (providers s)\<lparr>cell := (cell (providers s))(ps ! i \<mapsto> c')\<rparr>"
    and "provider_connection_head s' = provider_connection_head s"
    and "max_provider_connection s' = max_provider_connection s"
  shows "provide_ok s' ps (L[i := pl.erase c'])"
proof -
  have view: "pl.view (providers s) (provider_connection_head s) ps L" using ok by (simp add: provide_ok_def)
  have len: "i < length ps" using pl.view_length [OF view] i by simp
  have "dom (cell (providers s')) = set ps"
    using ok assms(9) len by (auto simp: provide_ok_def)
  moreover have "map pc_receiver (L[i := pl.erase c']) = map pc_receiver L"
  proof -
    have "pc_receiver (L ! i) = pc_receiver c"
      using pl.view_at [OF view len] c by (metis erased_provider(1) option.inject)
    then show ?thesis using assms(5) i by (simp add: map_update list_update_same_conv)
  qed
  moreover have "\<forall>d \<in> set (L[i := pl.erase c']). serves (has_chunks s) (length (peers (config s))) d"
    using ok assms(6) set_update_subset_insert [of L i "pl.erase c'"] by (auto simp: provide_ok_def)
  ultimately show ?thesis
    using assms pl.view_store [OF view len c assms(4)] by (simp add: provide_ok_def)
qed

lemma provide_search:
  "provide_ok s ps L \<Longrightarrow> search_provider_connection p s =
    Inr (map_option (\<lambda>i. ps ! i) (find (\<lambda>i. pc_receiver (L ! i) = p) [0..<length L]))"
  unfolding search_provider_connection_def provide_ok_def
  by (rule pl.view_search) auto

lemma provide_number: "provide_ok s ps L \<Longrightarrow> get_provider_connection_number s = Inr (int (length L))"
  unfolding get_provider_connection_number_def provide_ok_def by (blast intro: pl.view_count)

section \<open>Finishing a connection\<close>

lemma finish_provider_ok:
  assumes ok: "provide_ok s ps L" and i: "i < length L"
  shows "\<exists>s'. finish_provider_connection (Some (ps ! i)) s = Inr s' \<and> receiver_frame s s'
    \<and> provide_ok s' (take i ps @ drop (Suc i) ps) (take i L @ drop (Suc i) L)
    \<and> cell (providers s') (ps ! i) = None \<and> outbox s' = outbox s"
proof -
  let ?a = "ps ! i"
  from provide_at [OF ok i] obtain c p where c: "cell (providers s) ?a = Some c" "pc_receiver c = Some p"
    "p < length (peers (config s))"
    by (auto simp: serves_def)
  have view: "pl.view (providers s) (provider_connection_head s) ps L" using ok by (simp add: provide_ok_def)
  have len: "i < length ps" using pl.view_length [OF view] i by simp
  have "dom (cell (providers s)) = set ps" using ok by (simp add: provide_ok_def)
  with pl.view_remove_free [OF view len] obtain head' h' h'' where
    h': "ll_remove pc_next pc_next_update (providers s) (provider_connection_head s) (Some ?a) = Inr (head', h')"
      "heap_free h' (Some ?a) = Inr h''"
      "pl.view h'' head' (take i ps @ drop (Suc i) ps) (take i L @ drop (Suc i) L)"
      "dom (cell h'') = set ps - {?a}"
    by (auto simp: safe_iff)
  let ?s = "s\<lparr>providers := h'', provider_connection_head := head'\<rparr>"
  have call: "finish_provider_connection (Some ?a) s = Inr ?s"
    using c h' by (simp add: finish_provider_connection_def load_provider_def remove_provider_connection_def
        free_provider_connection_def)
  have dist: "distinct ps" by (rule pl.view_distinct [OF view])
  have set: "set (take i ps @ drop (Suc i) ps) = set ps - {?a}"
    using dist len by (subst (2) id_take_nth_drop [OF len], subst (asm) id_take_nth_drop [OF len]) auto
  have "distinct (map pc_receiver (take i L @ drop (Suc i) L))"
    using ok i by (subst (asm) provide_ok_def, subst (asm) (3) id_take_nth_drop [OF i]) auto
  moreover have "set (take i L @ drop (Suc i) L) \<subseteq> set L"
    by (auto dest: in_set_takeD in_set_dropD)
  ultimately have "provide_ok ?s (take i ps @ drop (Suc i) ps) (take i L @ drop (Suc i) L)"
    using ok h'(3,4) i unfolding provide_ok_def set by simp blast
  moreover have "cell h'' ?a = None" using h'(4) by (metis Diff_iff domIff insertI1)
  ultimately show ?thesis using call by (simp add: receiver_frame_def)
qed

definition provide_inv :: "peer_s \<Rightarrow> bool" where
  "provide_inv s \<longleftrightarrow> (\<exists>ps L. provide_ok s ps L)"

lemma provide_invI: "provide_ok s ps L \<Longrightarrow> provide_inv s"
  by (auto simp: provide_inv_def)

section \<open>ACK\<close>

lemma provide_ok_cong:
  "provide_ok s ps L \<Longrightarrow> providers s' = providers s \<Longrightarrow> provider_connection_head s' = provider_connection_head s \<Longrightarrow>
   has_chunks s' = has_chunks s \<Longrightarrow> config s' = config s \<Longrightarrow>
   max_provider_connection s' = max_provider_connection s \<Longrightarrow> provide_ok s' ps L"
  by (simp add: provide_ok_def)

lemma process_ack_ok:
  assumes ok: "provide_ok s ps L"
  shows "safe (process_ack pkt peer s) (\<lambda>s'. provide_inv s' \<and> receiver_frame s s')"
proof (cases "find (\<lambda>i. pc_receiver (L ! i) = peer) [0..<length L]")
  case None
  with ok show ?thesis by (simp add: process_ack_def provide_search [OF ok] provide_invI)
next
  case (Some i)
  then have i: "i < length L" by (auto simp: find_Some_iff)
  let ?a = "ps ! i" and ?ack = "sint (ack_number (header pkt))"
  from provide_at [OF ok i] obtain c where c: "cell (providers s) ?a = Some c"
    and serves: "serves (has_chunks s) (length (peers (config s))) c" by blast
  then have pok: "pc_ok c" by (simp add: serves_def)
  have call: "process_ack pkt peer s =
      andThen (provider_control_by_ack c ?ack s) (\<lambda>(c, s).
      andThen (store_provider s (Some ?a) c) (\<lambda>s.
        if last_packet_acked c = 512 then finish_provider_connection (Some ?a) s else Inr s))"
    using Some c by (simp add: process_ack_def provide_search [OF ok] load_provider_def)
  show ?thesis
    unfolding call
  proof (subst safe_andThen, rule safe_mono [OF provider_control_by_ack_safe [OF pok]], clarify)
    fix c1 s1
    assume 1: "pc_ok c1" "only_time s s1" "pc_receiver c1 = pc_receiver c" "pc_chunk c1 = pc_chunk c"
      "pc_next c1 = pc_next c"
    note same = only_time_fields [OF 1(2)]
    have c1: "cell (providers s1) ?a = Some c" using c same by simp
    let ?s2 = "s1\<lparr>providers := (providers s1)\<lparr>cell := (cell (providers s1))(?a \<mapsto> c1)\<rparr>\<rparr>"
    have store: "store_provider s1 (Some ?a) c1 = Inr ?s2" using c1 by (simp add: store_provider_def)
    have "provide_ok ?s2 ps (L[i := pl.erase c1])"
      by (rule provide_ok_store [OF ok i c]) (use 1 serves same in \<open>simp_all add: serves_def\<close>)
    moreover have frame: "receiver_frame s ?s2" using same(6) by (simp add: receiver_frame_def)
    moreover have "safe (finish_provider_connection (Some ?a) ?s2)
        (\<lambda>s'. provide_inv s' \<and> receiver_frame s s')"
    proof -
      from finish_provider_ok [OF \<open>provide_ok ?s2 ps (L[i := pl.erase c1])\<close>, of i] i
      obtain s' where "finish_provider_connection (Some ?a) ?s2 = Inr s'" "receiver_frame ?s2 s'" "provide_inv s'"
        by (auto intro: provide_invI)
      with receiver_frame_trans [OF frame] show ?thesis by simp
    qed
    ultimately show "safe (andThen (store_provider s1 (Some ?a) c1) (\<lambda>s.
        if last_packet_acked c1 = 512 then finish_provider_connection (Some ?a) s else Inr s))
        (\<lambda>s'. provide_inv s' \<and> receiver_frame s s')"
      by (simp add: store provide_invI)
  qed
qed

section \<open>GET\<close>

lemma load_chunk_frame:
  assumes "load_chunk h s = (r, s')" and "owned_ok (has_chunks s)"
  shows "s' = s\<lparr>has_chunks := has_chunks s'\<rparr>" and "owned_ok (has_chunks s')"
    and "loaded (has_chunks s) k \<Longrightarrow> loaded (has_chunks s') k"
    and "r = Some i \<Longrightarrow> loaded (has_chunks s') i"
proof -
  have s': "s' = s \<and> (\<forall>i. r = Some i \<longrightarrow> i < length (has_chunks s) \<and> ck_data (has_chunks s ! i) \<noteq> None) \<or>
    (\<exists>i d. s' = s\<lparr>has_chunks := (has_chunks s)[i := (has_chunks s ! i)\<lparr>ck_data := Some d\<rparr>]\<rparr> \<and>
       i < length (has_chunks s) \<and> length d = CHUNK_DATA_SIZE \<and> r = Some i)"
  proof (cases "seach_owned_chunk (has_chunks s) h")
    case None
    with assms(1) show ?thesis by (simp add: load_chunk_def)
  next
    case found: (Some i)
    note lt = seach_owned_chunk_SomeD [OF found, THEN conjunct1]
    show ?thesis
      using assms(1) lt unfolding load_chunk_def found
      by (auto simp: Let_def simp del: not_None_eq split: option.splits if_splits)
  qed
  have keep: "owned_ok (has[i := (has ! i)\<lparr>ck_data := Some d\<rparr>])"
    if "owned_ok has" "length d = CHUNK_DATA_SIZE" for has :: "chunk_s list" and i d
    using that set_update_subset_insert [of has i "(has ! i)\<lparr>ck_data := Some d\<rparr>"]
    by (auto simp: owned_ok_def)
  from s' show "s' = s\<lparr>has_chunks := has_chunks s'\<rparr>" by auto
  from s' assms(2) keep show "owned_ok (has_chunks s')" by auto
  show "loaded (has_chunks s') k" if "loaded (has_chunks s) k"
    using s' that by (auto simp: loaded_def nth_list_update)
  show "loaded (has_chunks s') i" if "r = Some i"
    using s' that assms(2) by (auto simp: loaded_def owned_ok_def dest: bspec [OF _ nth_mem])
qed

text \<open>The new connection and its invariant.\<close>

definition new_provider :: "peer_s \<Rightarrow> ptr \<Rightarrow> nat \<Rightarrow> provider_connection_s" where
  "new_provider s from i =
     fst (init_provider_connection (blank_provider_connection from (provider_id s) i) s)
       \<lparr>last_packet_acked := 0, last_packet_sent := 0, pc_next := None\<rparr>"

lemma new_provider_serves:
  "loaded has i \<Longrightarrow> p < np \<Longrightarrow> serves has np (new_provider s (Some p) i)"
  "pc_receiver (new_provider s from i) = from"
proof -
  have "pc_ok (new_provider s q i) = pc_ok (fst (init_provider_connection
      (blank_provider_connection q (provider_id s) i) s)\<lparr>last_packet_acked := 0, last_packet_sent := 0\<rparr>)" for q
    by (simp add: new_provider_def pc_ok_def)
  then have "pc_ok (new_provider s q i)" for q
    by (simp add: init_provider_connection_ok)
  moreover have "pc_receiver (new_provider s q i) = q" for q
    by (simp add: new_provider_def init_provider_connection_def blank_provider_connection_def
        gettimeofday_def Let_def)
  moreover have "pc_chunk (new_provider s q i) = i" for q
    by (simp add: new_provider_def init_provider_connection_def blank_provider_connection_def
        gettimeofday_def Let_def)
  ultimately show "loaded has i \<Longrightarrow> p < np \<Longrightarrow> serves has np (new_provider s (Some p) i)"
    "pc_receiver (new_provider s from i) = from"
    by (simp_all add: serves_def)
qed

lemma fresh_provider:
  assumes "provide_ok s ps L"
  shows "brk (providers s) \<notin> set ps" and "cell (providers s) (brk (providers s)) = None"
proof -
  have "heap_ok (providers s)" using assms pl.view_heap_ok by (auto simp: provide_ok_def)
  then show "cell (providers s) (brk (providers s)) = None" by (rule heap_ok_fresh)
  with assms show "brk (providers s) \<notin> set ps" by (auto simp: provide_ok_def)
qed

lemma get_connect_ok:
  fixes t :: nat
  assumes ok: "provide_ok s ps L" and room: "int (length L) < max_provider_connection s"
    and p: "p < length (peers (config s))" and new: "\<forall>d \<in> set L. pc_receiver d \<noteq> Some p"
    and load: "load_chunk h s = (Some i, s1)"
  defines "c \<equiv> new_provider s1 (Some p) i"
  defines "s2 \<equiv> s1\<lparr>provider_id := provider_id s1 + 1, ticks := t, providers := snd (heap_alloc (providers s1) c)\<rparr>"
  shows "safe (add_provider_connection (Some (brk (providers s))) s2) (\<lambda>s'. provide_inv s' \<and> receiver_frame s s')"
proof -
  let ?a = "brk (providers s)"
  have owned: "owned_ok (has_chunks s)" using ok by (simp add: provide_ok_def)
  note lf = load_chunk_frame [OF load owned]
  obtain hs where hs: "s1 = s\<lparr>has_chunks := hs\<rparr>" using lf(1) by blast
  let ?h = "snd (heap_alloc (providers s) c)" and ?head = "provider_connection_head s"
  have view: "pl.view (providers s) ?head ps L" using ok by (simp add: provide_ok_def)
  have h: "?h = (providers s)\<lparr>cell := (cell (providers s))(?a := Some c), brk := Suc ?a\<rparr>"
    by (simp add: heap_alloc_def)
  have "pl.view ?h ?head ps L"
    unfolding h by (rule pl.view_other [OF view fresh_provider(1) [OF ok]]) simp_all
  from pl.view_push [OF this _ fresh_provider(1) [OF ok], of c]
  have view2: "pl.view (?h\<lparr>cell := (cell ?h)(?a \<mapsto> c\<lparr>pc_next := ?head\<rparr>)\<rparr>) (Some ?a) (?a # ps) (pl.erase c # L)"
    by (simp add: heap_alloc_def)
  let ?h2 = "?h\<lparr>cell := (cell ?h)(?a \<mapsto> c\<lparr>pc_next := ?head\<rparr>)\<rparr>"
  let ?s3 = "s2\<lparr>providers := ?h2, provider_connection_head := Some ?a\<rparr>"
  have add: "add_provider_connection (Some ?a) s2 = Inr ?s3"
    by (simp add: add_provider_connection_def load_provider_def store_provider_def s2_def hs heap_alloc_def)
  have "serves (has_chunks s1) (length (peers (config s))) c"
    unfolding c_def by (rule new_provider_serves(1) [OF lf(4) [OF refl] p])
  moreover have "\<forall>d \<in> set L. serves (has_chunks s1) (length (peers (config s))) d"
    using ok lf(3) by (auto simp: provide_ok_def serves_def)
  moreover have "dom (cell ?h2) = set (?a # ps)"
    using ok by (auto simp: h provide_ok_def)
  ultimately have "provide_ok ?s3 (?a # ps) (pl.erase c # L)"
    using ok view2 lf(2) room new new_provider_serves(2) [of s1 "Some p" i]
    by (simp add: provide_ok_def s2_def hs c_def) force
  moreover have "receiver_frame s ?s3" by (simp add: receiver_frame_def s2_def hs)
  ultimately show ?thesis by (simp add: add provide_invI)
qed

lemma process_get_packet_ok:
  assumes ok: "provide_ok s ps L" and p: "p < length (peers (config s))"
  shows "safe (process_get_packet pkt (Some p) s) (\<lambda>s'. provide_inv s' \<and> receiver_frame s s')"
proof -
  have id: "safe (andThen (load_peer s (Some p)) (\<lambda>_. Inr s)) (\<lambda>s'. provide_inv s' \<and> receiver_frame s s')"
    using ok p by (simp add: provide_invI)
  show ?thesis
  proof (cases "find (\<lambda>i. pc_receiver (L ! i) = Some p) [0..<length L]")
    case (Some i)
    with id show ?thesis by (simp add: process_get_packet_def provide_search [OF ok])
  next
    case None
    then have new: "\<forall>d \<in> set L. pc_receiver d \<noteq> Some p"
      by (auto simp: find_None_iff in_set_conv_nth)
    show ?thesis
    proof (cases "int (length L) < max_provider_connection s")
      case False
      with None id show ?thesis
        by (simp add: process_get_packet_def provide_search [OF ok] provide_number [OF ok])
    next
      case True
      obtain r s1 where load: "load_chunk (take SHA1_HASH_SIZE (payload pkt)) s = (r, s1)" by fastforce
      have owned: "owned_ok (has_chunks s)" using ok by (simp add: provide_ok_def)
      note lf = load_chunk_frame [OF load owned]
      obtain hs where hs: "s1 = s\<lparr>has_chunks := hs\<rparr>" using lf(1) by blast
      show ?thesis
      proof (cases r)
        case r: None
        have "provide_ok s1 ps L"
          using ok lf(2,3) by (auto simp: hs provide_ok_def serves_def)
        moreover have "receiver_frame s s1" by (simp add: hs receiver_frame_def)
        moreover have "process_get_packet pkt (Some p) s = Inr s1"
          using None True r load
          by (simp add: process_get_packet_def provide_search [OF ok] provide_number [OF ok]
              malloc_provider_connection_def)
        ultimately show ?thesis by (simp add: provide_invI)
      next
        case (Some i)
        let ?s2 = "s1\<lparr>provider_id := provider_id s1 + 1, ticks := Suc (Suc (Suc (ticks s1))),
            providers := snd (heap_alloc (providers s1) (new_provider s1 (Some p) i))\<rparr>"
        have "process_get_packet pkt (Some p) s = add_provider_connection (Some (brk (providers s))) ?s2"
          using None True Some load p
          by (simp add: process_get_packet_def provide_search [OF ok] provide_number [OF ok]
              malloc_provider_connection_def init_provider_connection_def gettimeofday_def Let_def
              new_provider_def heap_alloc_def hs)
        with get_connect_ok [OF ok True p new load [unfolded Some], of "Suc (Suc (Suc (ticks s1)))"]
        show ?thesis by simp
      qed
    qed
  qed
qed

section \<open>Sending and timeouts\<close>

lemma provide_next:
  assumes "provide_ok s ps L" and "i < length ps"
  shows "provider_next s (Some (ps ! i)) = Inr (address_from ps (Suc i))"
proof -
  have path: "ll_path pc_next (providers s) (provider_connection_head s) ps"
    using assms(1) by (simp add: provide_ok_def pl.view_def)
  from ll_path_live [OF path, of "ps ! i"] assms(2) obtain c where c: "cell (providers s) (ps ! i) = Some c"
    by auto
  from ll_path_next [OF path assms(2) c] c show ?thesis
    by (simp add: provider_next_def load_provider_def address_from_def)
qed

lemma provide_head: "provide_ok s ps L \<Longrightarrow> provider_connection_head s = address_from ps 0"
  using ll_path_head [of pc_next "providers s" "provider_connection_head s" ps]
  by (simp add: provide_ok_def pl.view_def address_from_def)

lemma provide_length: "provide_ok s ps L \<Longrightarrow> length ps = length L"
  using pl.view_length by (auto simp: provide_ok_def)

lemma provide_short: "provide_ok s ps L \<Longrightarrow> length ps \<le> brk (providers s)"
  using ll_path_short [of "providers s" pc_next "provider_connection_head s" ps]
  by (simp add: provide_ok_def pl.view_def)

text \<open>
  One call of \<open>send_data_packet\<close>: nothing if the window is full or everything was sent; otherwise one
  DATA packet, the next one, with its 1024 bytes of the chunk, to the connection's peer.
\<close>

definition data_slice :: "byte list \<Rightarrow> nat \<Rightarrow> byte list" where
  "data_slice d n = take 1024 (drop (1024 * n) d)"

lemma send_data_packet_idle:
  assumes "cell (providers s) a = Some c"
    and "last_packet_sent c - last_packet_acked c \<ge> window_size c \<or> last_packet_sent c = 512"
  shows "send_data_packet (Some a) s = Inr s"
  using assms by (auto simp: send_data_packet_def load_provider_def Let_def)

lemma send_data_packet_next:
  assumes c: "cell (providers s) a = Some c" and serves: "serves (has_chunks s) (length (peers (config s))) c"
    and room: "last_packet_sent c - last_packet_acked c < window_size c" and more: "last_packet_sent c < 512"
    and d: "ck_data (has_chunks s ! pc_chunk c) = Some d" and p: "pc_receiver c = Some p"
  shows "\<exists>c' t. send_data_packet (Some a) s = Inr (s\<lparr>
      ticks := t, outbox := outbox s @ [(peer_addr (peers (config s) ! p),
        datagram (malloc_data_packet (uninit s (ticks s)) (data_slice d (nat (last_packet_sent c))) 1024
          (last_packet_sent c + 1)))],
      providers := (providers s)\<lparr>cell := (cell (providers s))(a \<mapsto> c')\<rparr>\<rparr>)
    \<and> last_packet_sent c' = last_packet_sent c + 1 \<and> last_packet_acked c' = last_packet_acked c
    \<and> pc_next c' = pc_next c \<and> pc_receiver c' = pc_receiver c \<and> pc_chunk c' = pc_chunk c \<and> pc_ok c'"
proof -
  have ok: "pc_ok c" and i: "pc_chunk c < length (has_chunks s)" and len: "length d = 524288"
    and np: "p < length (peers (config s))"
    using serves d p by (auto simp: serves_def loaded_def)
  let ?n = "last_packet_sent c + 1"
  have n: "0 \<le> last_packet_sent c" "last_packet_sent c < 512" using ok more by (auto simp: pc_ok_def)
  then have "nat ?n * 1024 \<le> length d" by (simp add: len)
  then have slice: "chunk_slice s (pc_chunk c) ?n = Inr (data_slice d (nat (last_packet_sent c)))"
    using i d n by (simp add: chunk_slice_def data_slice_def mult.commute)
  have seq: "sint (word_of_int ?n :: c_int) = ?n" using n by (intro sint_word_of_int_small) auto
  show ?thesis
  proof (cases "RTT_ack_num c = RTT_NOT_START")
    case True
    let ?c = "c\<lparr>last_packet_sent := ?n, RTT_data_sent_time := Some (clock s (Suc (ticks s))), RTT_ack_num := ?n,
        last_data_send_time := clock s (Suc (Suc (ticks s)))\<rparr>"
    have "pc_ok ?c" using ok room n by (auto simp: pc_ok_def)
    with True c room more p np slice seq show ?thesis
      by (intro exI [of _ ?c] exI [of _ "Suc (Suc (Suc (ticks s)))"])
        (simp add: send_data_packet_def load_provider_def store_provider_def fresh_memory_def gettimeofday_def
          send_packet_def malloc_data_packet_def Let_def)
  next
    case False
    let ?c = "c\<lparr>last_packet_sent := ?n, last_data_send_time := clock s (Suc (ticks s))\<rparr>"
    have "pc_ok ?c" using ok room n by (auto simp: pc_ok_def)
    with False c room more p np slice show ?thesis
      by (intro exI [of _ ?c] exI [of _ "Suc (Suc (ticks s))"])
        (simp add: send_data_packet_def load_provider_def store_provider_def fresh_memory_def gettimeofday_def
          send_packet_def malloc_data_packet_def Let_def)
  qed
qed

text \<open>An invariant of the loops: the same connections, and everything else as at the start.\<close>

definition looping :: "peer_s \<Rightarrow> nat list \<Rightarrow> peer_s \<Rightarrow> bool" where
  "looping s0 ps s \<longleftrightarrow> (\<exists>L. provide_ok s ps L) \<and> receiver_frame s0 s"

lemma send_data_packet_loop:
  assumes "looping s0 ps s" and "i < length ps"
  shows "safe (send_data_packet (Some (ps ! i)) s) (looping s0 ps)"
proof -
  from assms(1) obtain L where ok: "provide_ok s ps L" and frame: "receiver_frame s0 s" by (auto simp: looping_def)
  have i: "i < length L" using provide_length [OF ok] assms(2) by simp
  from provide_at [OF ok i] obtain c where c: "cell (providers s) (ps ! i) = Some c"
    and serves: "serves (has_chunks s) (length (peers (config s))) c" by blast
  show ?thesis
  proof (cases "last_packet_sent c - last_packet_acked c \<ge> window_size c \<or> last_packet_sent c = 512")
    case True
    with assms(1) show ?thesis by (simp add: send_data_packet_idle [OF c])
  next
    case False
    from serves obtain d p where d: "ck_data (has_chunks s ! pc_chunk c) = Some d" "pc_receiver c = Some p"
      by (auto simp: serves_def loaded_def)
    have "last_packet_sent c < 512" using False serves by (auto simp: serves_def pc_ok_def)
    with send_data_packet_next [OF c serves _ _ d] False obtain c' t where
      send: "send_data_packet (Some (ps ! i)) s = Inr (s\<lparr>
        ticks := t, outbox := outbox s @ [(peer_addr (peers (config s) ! p),
          datagram (malloc_data_packet (uninit s (ticks s)) (data_slice d (nat (last_packet_sent c))) 1024
            (last_packet_sent c + 1)))],
        providers := (providers s)\<lparr>cell := (cell (providers s))(ps ! i \<mapsto> c')\<rparr>\<rparr>)" (is "_ = Inr ?s")
      and c': "pc_next c' = pc_next c" "pc_receiver c' = pc_receiver c" "pc_chunk c' = pc_chunk c" "pc_ok c'"
      by auto
    have "provide_ok ?s ps (L[i := pl.erase c'])"
      by (rule provide_ok_store [OF ok i c]) (use c' serves in \<open>simp_all add: serves_def\<close>)
    moreover have "receiver_frame s0 ?s" using frame by (simp add: receiver_frame_def)
    ultimately show ?thesis unfolding send safe_Inr looping_def by blast
  qed
qed

lemma send_all_ok:
  assumes ok: "provide_ok s ps L"
  shows "safe (all_provider_connection_send_data s) (looping s ps)"
proof -
  have "outcome {} (for_each provider_next send_data_packet (brk (providers s)) (address_from ps 0) s) (looping s ps)"
  proof (rule for_each_outcome)
    fix s' i
    assume h: "looping s ps s'" "i < length ps"
    show "outcome {} (andThen (send_data_packet (Some (ps ! i)) s')
        (\<lambda>s. andThen (provider_next s (Some (ps ! i))) (\<lambda>p. Inr (s, p))))
      (\<lambda>(s', p). looping s ps s' \<and> p = address_from ps (Suc i))"
      unfolding outcome_andThen
      by (rule outcome_mono [OF outcome_safe [OF send_data_packet_loop [OF h]]])
        (use provide_next h(2) in \<open>auto simp: looping_def\<close>)
  qed (use ok provide_short [OF ok] in \<open>auto simp: looping_def\<close>)
  then show ?thesis
    by (simp add: all_provider_connection_send_data_def provide_head [OF ok] safe_outcome)
qed

text \<open>A timeout either ends the connection, which frees it, or leaves it in the list.\<close>

lemma provider_timeout_cases:
  assumes ok: "provide_ok s ps L" and i: "i < length ps"
  shows "\<exists>s'. provider_control_by_timeout (Some (ps ! i)) s = Inr s' \<and> receiver_frame s s' \<and>
    ((\<exists>L'. provide_ok s' ps L') \<or>
     provide_ok s' (take i ps @ drop (Suc i) ps) (take i L @ drop (Suc i) L) \<and> cell (providers s') (ps ! i) = None)"
proof -
  have iL: "i < length L" using provide_length [OF ok] i by simp
  from provide_at [OF ok iL] obtain c p where c: "cell (providers s) (ps ! i) = Some c"
    and serves: "serves (has_chunks s) (length (peers (config s))) c"
    and p: "pc_receiver c = Some p" "p < length (peers (config s))" by (auto simp: serves_def)
  let ?t1 = "s\<lparr>ticks := Suc (ticks s)\<rparr>" and ?t2 = "s\<lparr>ticks := Suc (Suc (ticks s))\<rparr>"
    and ?t3 = "s\<lparr>ticks := Suc (Suc (Suc (ticks s)))\<rparr>"
  have oks: "provide_ok (s\<lparr>ticks := t\<rparr>) ps L" "receiver_frame s (s\<lparr>ticks := t\<rparr>)" for t
    using ok by (simp_all add: provide_ok_def receiver_frame_def)
  let ?d1 = "get_time_diff (last_acked_received_time c) (clock s (ticks s))"
    and ?d2 = "get_time_diff (last_acked_received_time c) (clock s (Suc (ticks s)))"
    and ?d3 = "get_time_diff (last_data_send_time c) (clock s (Suc (Suc (ticks s))))"
  let ?down = "connection_scale_down c ?t3"
  have call: "provider_control_by_timeout (Some (ps ! i)) s =
     (if ?d1 > 10000 then finish_provider_connection (Some (ps ! i)) ?t1
      else if ?d2 > 500 then
        (if ?d3 > 500 then store_provider (snd ?down) (Some (ps ! i)) (reset_sender_buffer (fst ?down))
         else Inr ?t3)
      else Inr ?t2)"
    using c p by (simp add: provider_control_by_timeout_def load_provider_def elapsed_since_def gettimeofday_def
        case_prod_beta)
  have finish: "\<exists>s'. finish_provider_connection (Some (ps ! i)) ?t1 = Inr s' \<and> receiver_frame s s' \<and>
      provide_ok s' (take i ps @ drop (Suc i) ps) (take i L @ drop (Suc i) L) \<and> cell (providers s') (ps ! i) = None"
    using finish_provider_ok [OF oks(1) iL, of "Suc (ticks s)"] receiver_frame_trans [OF oks(2)] by blast
  have down: "\<exists>s' L'. store_provider (snd ?down) (Some (ps ! i)) (reset_sender_buffer (fst ?down)) = Inr s'
      \<and> receiver_frame s s' \<and> provide_ok s' ps L'"
  proof -
    have time: "only_time s (snd ?down)"
      using only_time_scale_down [of ?t3 c] by (rule only_time_trans [rotated]) simp
    note same = only_time_fields [OF time]
    let ?c = "reset_sender_buffer (fst ?down)"
    let ?s = "(snd ?down)\<lparr>providers := (providers (snd ?down))\<lparr>cell := (cell (providers (snd ?down)))(ps ! i \<mapsto> ?c)\<rparr>\<rparr>"
    have "pc_ok (reset_sender_buffer (fst (connection_scale_down (c\<lparr>num_duplicate_ack := num_duplicate_ack c\<rparr>) ?t3)))"
    proof -
      have "pc_ok c" using serves by (simp add: serves_def)
      moreover have "halved_window (c\<lparr>num_duplicate_ack := 0\<rparr>) = halved_window c" by (simp add: halved_window_def)
      ultimately show ?thesis
        using halved_window_bounds [of c]
        by (cases "pc_status c") (auto simp: pc_ok_def control_defs Let_def)
    qed
    then have "pc_ok ?c" by simp
    moreover have "pc_next ?c = pc_next c" "pc_receiver ?c = pc_receiver c" "pc_chunk ?c = pc_chunk c"
      by (simp_all add: reset_sender_buffer_def)
    ultimately have "provide_ok ?s ps (L[i := pl.erase ?c])"
      by (intro provide_ok_store [OF ok iL c]) (use serves same in \<open>simp_all add: serves_def\<close>)
    moreover have "receiver_frame s ?s" using same(6) by (simp add: receiver_frame_def)
    moreover have "store_provider (snd ?down) (Some (ps ! i)) ?c = Inr ?s"
      using c same by (simp add: store_provider_def)
    ultimately show ?thesis by blast
  qed
  show ?thesis
  proof (cases "?d1 > 10000")
    case True
    with finish show ?thesis unfolding call by simp blast
  next
    case False
    show ?thesis
    proof (cases "?d2 > 500 \<and> ?d3 > 500")
      case True
      with False have "provider_control_by_timeout (Some (ps ! i)) s =
          store_provider (snd ?down) (Some (ps ! i)) (reset_sender_buffer (fst ?down))"
        unfolding call by simp
      with down show ?thesis by simp blast
    next
      case idle: False
      obtain t where "provider_control_by_timeout (Some (ps ! i)) s = Inr (s\<lparr>ticks := t\<rparr>)"
        unfolding call using False idle by (cases "?d2 > 500") auto
      with oks show ?thesis by blast
    qed
  qed
qed

text \<open>
  Behind a crash timeout the loop reads the next pointer of the freed connection: the only fault
  the loop can end in, and it ends in it whenever a connection was given up.
\<close>

lemma providers_timeout_ok:
  assumes ok: "provide_ok s ps L"
  shows "outcome {Use_After_Free} (providers_timeout s) (looping s ps)"
proof -
  have "outcome {Use_After_Free}
      (for_each provider_next provider_control_by_timeout (brk (providers s)) (address_from ps 0) s) (looping s ps)"
  proof (rule for_each_outcome)
    fix s' i
    assume h: "looping s ps s'" "i < length ps"
    then obtain L' where ok': "provide_ok s' ps L'" and frame: "receiver_frame s s'" by (auto simp: looping_def)
    from provider_timeout_cases [OF ok' h(2)] obtain s'' where
      s'': "provider_control_by_timeout (Some (ps ! i)) s' = Inr s''" "receiver_frame s' s''" and
      two: "(\<exists>L''. provide_ok s'' ps L'') \<or> cell (providers s'') (ps ! i) = None" by blast
    from two show "outcome {Use_After_Free} (andThen (provider_control_by_timeout (Some (ps ! i)) s')
        (\<lambda>s. andThen (provider_next s (Some (ps ! i))) (\<lambda>p. Inr (s, p))))
      (\<lambda>(s', p). looping s ps s' \<and> p = address_from ps (Suc i))"
    proof
      assume "\<exists>L''. provide_ok s'' ps L''"
      with s'' provide_next [OF _ h(2)] receiver_frame_trans [OF frame s''(2)] show ?thesis
        by (auto simp: looping_def)
    next
      assume "cell (providers s'') (ps ! i) = None"
      with s'' show ?thesis by (simp add: provider_next_def load_provider_def)
    qed
  qed (use ok provide_short [OF ok] in \<open>auto simp: looping_def\<close>)
  then show ?thesis by (simp add: providers_timeout_def provide_head [OF ok])
qed

end
