(* ===== verification/Machine.thy ===== *)
theory Machine imports Prelude begin

text \<open>
  Machines that take inputs and may fault, and the proof principle for their invariants: what holds
  at the start and is kept by every step on admissible inputs holds behind every run, or the run
  ends in one of the faults the steps may end in. The main loop of a peer and the transfer between
  two peers are such machines.
\<close>

fun run_steps :: "('i \<Rightarrow> 's \<Rightarrow> 's result) \<Rightarrow> 'i list \<Rightarrow> 's \<Rightarrow> 's result" where
  "run_steps step [] s = Inr s"
| "run_steps step (i # is) s = andThen (step i s) (run_steps step is)"

text \<open>Every input of a run is admissible in the state it is taken in.\<close>

fun fed :: "('i \<Rightarrow> 's \<Rightarrow> 's result) \<Rightarrow> ('s \<Rightarrow> 'i \<Rightarrow> bool) \<Rightarrow> 'i list \<Rightarrow> 's \<Rightarrow> bool" where
  "fed step ok [] s \<longleftrightarrow> True"
| "fed step ok (i # is) s \<longleftrightarrow> ok s i \<and> (case step i s of Inl e \<Rightarrow> True | Inr s' \<Rightarrow> fed step ok is s')"

lemma fed_all: "(\<And>s i. i \<in> set is \<Longrightarrow> ok s i) \<Longrightarrow> fed step ok is s"
  by (induction "is" arbitrary: s) (auto split: sum.split)

lemma run_steps_append: "run_steps step (is @ js) s = andThen (run_steps step is s) (run_steps step js)"
  by (induction step "is" s rule: run_steps.induct) (auto simp: andThen_assoc intro: andThen_cong)

locale machine =
  fixes step :: "'i \<Rightarrow> 's \<Rightarrow> 's result"
    and admissible :: "'s \<Rightarrow> 'i \<Rightarrow> bool"
    and faults :: "fault set"
    and inv :: "'s \<Rightarrow> bool"
  assumes step_inv: "inv s \<Longrightarrow> admissible s i \<Longrightarrow> outcome faults (step i s) inv"
begin

lemma run_inv: "inv s \<Longrightarrow> fed step admissible is s \<Longrightarrow> outcome faults (run_steps step is s) inv"
proof (induction "is" arbitrary: s)
  case Nil
  then show ?case by simp
next
  case (Cons i "is")
  then have "outcome faults (step i s) inv" by (simp add: step_inv)
  with Cons show ?case by (cases "step i s") auto
qed

text \<open>Every state passed through, too.\<close>

lemma prefix_inv:
  assumes "inv s" and "fed step admissible (is @ js) s" and "run_steps step is s = Inr s'"
  shows "inv s'"
proof -
  have "fed step admissible is s" if "fed step admissible (is @ js) s" for s
    using that by (induction "is" arbitrary: s) (auto split: sum.splits)
  with run_inv [OF assms(1)] assms(2,3) show ?thesis by fastforce
qed

end

text \<open>A machine without faults never stops.\<close>

locale faultless = machine step admissible "{}" inv
  for step :: "'i \<Rightarrow> 's \<Rightarrow> 's result" and admissible inv
begin

lemma run_safe: "inv s \<Longrightarrow> fed step admissible is s \<Longrightarrow> safe (run_steps step is s) inv"
  by (simp add: safe_outcome run_inv)

end

text \<open>A step relation and an invariant of it.\<close>

locale transition_invariant =
  fixes step :: "'s \<Rightarrow> 's \<Rightarrow> bool"
    and inv :: "'s \<Rightarrow> bool"
  assumes step_keeps: "inv s \<Longrightarrow> step s s' \<Longrightarrow> inv s'"
begin

lemma reachable_inv: "inv s \<Longrightarrow> step\<^sup>*\<^sup>* s s' \<Longrightarrow> inv s'"
  by (rotate_tac, induction rule: rtranclp_induct) (auto intro: step_keeps)

text \<open>A weaker property that holds at the end of a step out of a reachable state.\<close>

lemma last_step:
  assumes "inv s" and "step\<^sup>*\<^sup>* s s1" and "step s1 s2" and "\<And>s1 s2. inv s1 \<Longrightarrow> step s1 s2 \<Longrightarrow> P s1 s2"
  shows "P s1 s2"
  using assms reachable_inv by blast

end

end
