(* ===== verification/Peer_Inv.thy ===== *)
theory Peer_Inv imports Receiver_Steps Provider_Steps Machine begin

text \<open>
  The invariant of a whole peer, and that it holds from the start and at every turn of the main
  loop. A turn ends normally with the invariant, or in the one fault the invariant does not exclude:
  the use of a freed connection behind a crash timeout. The inputs a turn is proved for are
  described by \<open>friendly\<close>: the sender of a packet is in the peer list, and a DATA packet carries the
  1024 bytes the protocol prescribes.
\<close>

section \<open>Receiver timeouts\<close>

lemma cancel_chunks_safe:
  assumes "\<forall>r \<in> set rs. jchunk (jobs s) r \<noteq> None"
  shows "\<exists>J. cancel_chunks rs s = Inr (s\<lparr>jobs := J\<rparr>)"
  using assms
proof (induction rs arbitrary: s)
  case Nil
  then show ?case by (simp, intro exI [of _ "jobs s"]) simp
next
  case (Cons r rs)
  then obtain k where k: "jchunk (jobs s) r = Some k" by auto
  let ?k = "k\<lparr>ck_status := CHUNK_STATUS_NOT_FOUND, received_seq_num := 0, received_byte_num := 0\<rparr>"
  let ?s = "if ck_status k \<noteq> CHUNK_STATUS_FINISHED then s\<lparr>jobs := put_chunk (jobs s) r ?k\<rparr> else s"
  have "\<forall>q \<in> set rs. jchunk (jobs ?s) q \<noteq> None" using Cons.prems k by auto
  from Cons.IH [OF this] obtain J where J: "cancel_chunks rs ?s = Inr (?s\<lparr>jobs := J\<rparr>)" by blast
  have "cancel_chunks (r # rs) s = cancel_chunks rs ?s" using k by simp
  also have "\<dots> = Inr (s\<lparr>jobs := J\<rparr>)" unfolding J by simp
  finally show ?case by blast
qed

lemma cancel_then_remove:
  assumes ok: "receive_ok s as L" and i: "i < length L"
  shows "andThen (cancel_receiver_connection (Some (as ! i)) s) (remove_receiver_connection (Some (as ! i))) =
    Inl Use_After_Free"
proof -
  from receive_at [OF ok i] obtain c where c: "cell (receivers s) (as ! i) = Some c" "rl.erase c = L ! i" by blast
  have "rc_ok (chunk_states (jobs s)) (length (peers (config s))) (rl.erase c)"
    using ok i c(2) by (simp add: receive_ok_def rinv_def)
  from rc_ok_wanted [OF this] have "\<forall>r \<in> set (chunk_list c). chunk_states (jobs s) r \<noteq> None"
    by (metis erased_fields(1) option.distinct(1))
  then have "\<forall>r \<in> set (chunk_list c). jchunk (jobs s) r \<noteq> None" by (simp add: chunk_states_def)
  from cancel_chunks_safe [OF this] obtain J where J: "cancel_chunks (chunk_list c) s = Inr (s\<lparr>jobs := J\<rparr>)" by blast
  have view: "rl.view (receivers s) (receiver_connection_head s) as L" using ok by (simp add: receive_ok_def)
  then have "as ! i \<in> set as" using i rl.view_length by fastforce
  with rl.remove_freed [of "receivers s" "receiver_connection_head s" as "as ! i"] view
  have "ll_remove rc_next rc_next_update ((receivers s)\<lparr>cell := (cell (receivers s))(as ! i := None)\<rparr>)
      (receiver_connection_head s) (Some (as ! i)) = Inl Use_After_Free"
    by (simp add: rl.view_def)
  with c J show ?thesis
    by (simp add: cancel_receiver_connection_def load_receiver_def free_receiver_connection_def
        remove_receiver_connection_def)
qed

lemma resend_ok:
  assumes ok: "receive_ok s as L" and i: "i < length L"
  shows "safe (start_connection (Some (as ! i)) s) (\<lambda>s'. (\<exists>L'. receive_ok s' as L') \<and> provider_frame s s')"
proof -
  from receive_at [OF ok i] obtain c where c: "cell (receivers s) (as ! i) = Some c" "rl.erase c = L ! i" by blast
  have same: "chunk_list (L ! i) = chunk_list c" "rc_provider (L ! i) = rc_provider c"
    "rc_status (L ! i) = rc_status c" "last_data_time (L ! i) = last_data_time c"
    by (simp_all flip: c(2))
  have st: "rinv (chunk_states (jobs s)) (length (peers (config s))) L" and jok: "jobs_ok (jobs s) (current_job s)"
    using ok by (simp_all add: receive_ok_def)
  have rc: "rc_ok (chunk_states (jobs s)) (length (peers (config s))) (L ! i)" using st i by (simp add: rinv_def)
  then obtain r rs p where r: "chunk_list c = r # rs" "chunk_states (jobs s) r = Some CHUNK_STATUS_DOWNDLOADING"
    and p: "rc_provider c = Some p" "p < length (peers (config s))"
    and data: "rc_status c = RECEIVER_STATUS_RECEIVED_DATA \<longrightarrow> last_data_time c \<noteq> None"
    unfolding rc_ok_def same by blast
  then obtain k where k: "jchunk (jobs s) r = Some k" "ck_status k = CHUNK_STATUS_DOWNDLOADING"
    by (auto dest: chunk_statesD)
  let ?k = "k\<lparr>ck_status := CHUNK_STATUS_DOWNDLOADING\<rparr>"
  let ?J = "put_chunk (jobs s) r ?k"
  let ?c = "c\<lparr>last_get_time := Some (clock s (Suc (ticks s)))\<rparr>"
  note start = start_connection_eq [OF c(1) r(1) k(1) p]
  have J: "chunk_states ?J = chunk_states (jobs s)" by (rule chunk_states_kept [OF k(1)]) (simp add: k(2))
  have "rinv (chunk_states (jobs s)) (length (peers (config s))) (take i L @ L ! i # drop (Suc i) L)"
    using st i by (simp flip: split_at)
  from rinv_same [OF this, of "rl.erase ?c"]
  have inv: "rinv (chunk_states ?J) (length (peers (config s))) (L[i := rl.erase ?c])"
    using i same data by (simp add: update_at J)
  have Jok: "jobs_ok ?J (current_job s)"
    by (rule jobs_ok_put [OF jok k(1) chunk_ok_downloading [OF jobs_okD [OF jok k(1)]]])
  show ?thesis
    unfolding start safe_Inr
    by (intro conjI exI, rule receive_ok_store [OF ok i c(1) _ Jok inv]) (simp_all add: provider_frame_def)
qed

definition receiving :: "peer_s \<Rightarrow> nat list \<Rightarrow> peer_s \<Rightarrow> bool" where
  "receiving s0 as s \<longleftrightarrow> (\<exists>L. receive_ok s as L) \<and> provider_frame s0 s"

lemma provider_frame_trans: "provider_frame s s' \<Longrightarrow> provider_frame s' s'' \<Longrightarrow> provider_frame s s''"
  by (simp add: provider_frame_def)

lemma receive_ok_ticks: "receive_ok s as L \<Longrightarrow> receive_ok (s\<lparr>ticks := t\<rparr>) as L"
  by (simp add: receive_ok_def)

lemma provider_frame_ticks [simp]: "provider_frame s (s'\<lparr>ticks := t\<rparr>) \<longleftrightarrow> provider_frame s s'"
  "provider_frame (s\<lparr>ticks := t\<rparr>) s' \<longleftrightarrow> provider_frame s s'"
  by (simp_all add: provider_frame_def)

lemma receiver_timeout_outcome:
  assumes ok: "receive_ok s as L" and i: "i < length L"
  shows "outcome {Use_After_Free} (receiver_control_by_timeout (Some (as ! i)) s) (receiving s as)"
proof -
  from receive_at [OF ok i] obtain c where c: "cell (receivers s) (as ! i) = Some c" "rl.erase c = L ! i" by blast
  have "rc_ok (chunk_states (jobs s)) (length (peers (config s))) (rl.erase c)"
    using ok i c(2) by (simp add: receive_ok_def rinv_def)
  then obtain p where p: "rc_provider c = Some p" "p < length (peers (config s))"
    and get: "last_get_time c \<noteq> None"
    and data: "rc_status c = RECEIVER_STATUS_RECEIVED_DATA \<longrightarrow> last_data_time c \<noteq> None"
    by (auto simp: rc_ok_def)
  have uaf: "andThen (cancel_receiver_connection (Some (as ! i)) (s\<lparr>ticks := t\<rparr>))
      (remove_receiver_connection (Some (as ! i))) = Inl Use_After_Free" for t
    by (rule cancel_then_remove [OF receive_ok_ticks [OF ok] i])
  have resend: "outcome {Use_After_Free} (start_connection (Some (as ! i)) (s\<lparr>ticks := t\<rparr>)) (receiving s as)" for t
    by (rule outcome_mono [OF outcome_safe [OF resend_ok [OF receive_ok_ticks [OF ok] i]]])
      (auto simp: receiving_def)
  have stay: "receiving s as (s\<lparr>ticks := t\<rparr>)" for t
    using receive_ok_ticks [OF ok] by (auto simp: receiving_def)
  show ?thesis
  proof (cases "rc_status c")
    case RECEIVER_STATUS_PENGDING_DATA
    with c p get uaf resend stay show ?thesis
      by (auto simp: receiver_control_by_timeout_def load_receiver_def elapsed_since_def gettimeofday_def)
  next
    case RECEIVER_STATUS_RECEIVED_DATA
    with c p data uaf stay show ?thesis
      by (auto simp: receiver_control_by_timeout_def load_receiver_def elapsed_since_def gettimeofday_def)
  qed
qed

lemma receive_next:
  assumes "receive_ok s as L" and "i < length as"
  shows "receiver_next s (Some (as ! i)) = Inr (address_from as (Suc i))"
proof -
  have path: "ll_path rc_next (receivers s) (receiver_connection_head s) as"
    using assms(1) by (simp add: receive_ok_def rl.view_def)
  from ll_path_live [OF path, of "as ! i"] assms(2) obtain c where c: "cell (receivers s) (as ! i) = Some c"
    by auto
  from ll_path_next [OF path assms(2) c] c show ?thesis
    by (simp add: receiver_next_def load_receiver_def address_from_def)
qed

lemma receive_list:
  assumes "receive_ok s as L"
  shows "receiver_connection_head s = address_from as 0" and "length as = length L"
    and "length as \<le> brk (receivers s)"
proof -
  have v: "rl.view (receivers s) (receiver_connection_head s) as L" using assms by (simp add: receive_ok_def)
  then have p: "heap_ok (receivers s)" "ll_path rc_next (receivers s) (receiver_connection_head s) as"
    by (simp_all add: rl.view_def)
  from ll_path_head [OF p(2)] show "receiver_connection_head s = address_from as 0"
    by (simp add: address_from_def)
  from rl.view_length [OF v] show "length as = length L" .
  from ll_path_short [OF p] show "length as \<le> brk (receivers s)" .
qed

lemma receivers_timeout_ok:
  assumes ok: "receive_ok s as L"
  shows "outcome {Use_After_Free} (receivers_timeout s) (receiving s as)"
proof -
  have "outcome {Use_After_Free}
      (for_each receiver_next receiver_control_by_timeout (brk (receivers s)) (address_from as 0) s) (receiving s as)"
  proof (rule for_each_outcome)
    fix s' i
    assume h: "receiving s as s'" "i < length as"
    then obtain L' where ok': "receive_ok s' as L'" and frame: "provider_frame s s'" by (auto simp: receiving_def)
    have i: "i < length L'" using receive_list(2) [OF ok'] h(2) by simp
    show "outcome {Use_After_Free} (andThen (receiver_control_by_timeout (Some (as ! i)) s')
        (\<lambda>s. andThen (receiver_next s (Some (as ! i))) (\<lambda>p. Inr (s, p))))
      (\<lambda>(s', p). receiving s as s' \<and> p = address_from as (Suc i))"
      unfolding outcome_andThen
      by (rule outcome_mono [OF receiver_timeout_outcome [OF ok' i]])
        (use receive_next h(2) provider_frame_trans [OF frame] in \<open>auto simp: receiving_def\<close>)
  qed (use ok receive_list [OF ok] in \<open>auto simp: receiving_def\<close>)
  then show ?thesis by (simp add: receivers_timeout_def receive_list(1) [OF ok])
qed

section \<open>The whole peer\<close>

definition receive_inv :: "peer_s \<Rightarrow> bool" where
  "receive_inv s \<longleftrightarrow> (\<exists>as L. receive_ok s as L)"

definition peer_inv :: "peer_s \<Rightarrow> bool" where
  "peer_inv s \<longleftrightarrow> receive_inv s \<and> provide_inv s"

lemma provide_inv_frame: "provider_frame s s' \<Longrightarrow> provide_inv s \<Longrightarrow> provide_inv s'"
  by (simp add: provide_inv_def provide_ok_def provider_frame_def)

lemma receive_inv_frame: "receiver_frame s s' \<Longrightarrow> receive_inv s \<Longrightarrow> receive_inv s'"
  by (simp add: receive_inv_def receive_ok_def receiver_frame_def)

text \<open>Steps that only send and read the clock.\<close>

lemma peer_inv_sending [simp]:
  "peer_inv (s\<lparr>ticks := t\<rparr>) = peer_inv s" "peer_inv (s\<lparr>outbox := ob\<rparr>) = peer_inv s"
  by (simp_all add: peer_inv_def receive_inv_def provide_inv_def receive_ok_def provide_ok_def)

lemma peer_inv_send_packet [simp]: "peer_inv (send_packet p to s) = peer_inv s"
  by (simp add: send_packet_def)

lemma from_receiving:
  assumes "peer_inv s" and "outcome F m (\<lambda>s'. (\<exists>as' L'. receive_ok s' as' L') \<and> provider_frame s s')"
  shows "outcome F m peer_inv"
  using assms(2) by (rule outcome_mono) (use assms(1) provide_inv_frame in \<open>auto simp: peer_inv_def receive_inv_def\<close>)

lemma from_providing:
  assumes "peer_inv s" and "outcome F m (\<lambda>s'. provide_inv s' \<and> receiver_frame s s')"
  shows "outcome F m peer_inv"
  using assms(2) by (rule outcome_mono) (use assms(1) receive_inv_frame in \<open>auto simp: peer_inv_def\<close>)

section \<open>Datagrams\<close>

lemma search_peers_Some: "search_peers P i ps = Some j \<Longrightarrow> i \<le> j \<and> j < i + length ps \<and> P (ps ! (j - i))"
proof (induction P i ps rule: search_peers.induct)
  case (1 P i)
  then show ?case by simp
next
  case (2 P i p ps)
  show ?case
  proof (cases "P p")
    case False
    with 2 have "Suc i \<le> j \<and> j < Suc i + length ps \<and> P (ps ! (j - Suc i))" by simp
    moreover from this have "j - i = Suc (j - Suc i)" by arith
    ultimately show ?thesis by simp
  qed (use 2 in auto)
qed

lemma search_bt_peer_Some:
  "search_bt_peer cfg from = Some p \<Longrightarrow>
    p < length (peers cfg) \<and> sin_port (peer_addr (peers cfg ! p)) = sin_port from"
  by (auto simp: search_bt_peer_def dest: search_peers_Some)

lemma length_receive_buffer: "length (receive_buffer mem bytes) = 1500"
proof -
  have "0 + length (take 1500 bytes) \<le> length (map mem [0..<1500])" by simp
  then show ?thesis unfolding receive_buffer_def by (subst length_overwrite) simp_all
qed

lemma length_received_payload: "length (payload (received_packet (receive_buffer mem bytes))) = 1484"
  by (simp add: received_packet_simps length_receive_buffer)

text \<open>
  The datagrams the program can be shown to survive: an IHAVE or GET comes from a known peer, and a
  DATA packet has 1024 bytes.
\<close>

definition friendly :: "peer_s \<Rightarrow> byte list \<Rightarrow> sockaddr_in \<Rightarrow> bool" where
  "friendly s bytes from \<longleftrightarrow>
     (let h = header (received_packet (receive_buffer (uninit s (ticks s)) bytes))
      in (get_packet_type h = TYPE_IHAVE \<or> get_packet_type h = TYPE_GET \<longrightarrow> search_bt_peer (config s) from \<noteq> None)
         \<and> (get_packet_type h = TYPE_DATA \<longrightarrow> received_data_size h = 1024))"

lemma process_inbound_udp_safe:
  assumes inv: "peer_inv s" and fr: "friendly s bytes sender"
  shows "safe (process_inbound_udp bytes sender s) peer_inv"
proof -
  let ?s = "s\<lparr>ticks := Suc (ticks s)\<rparr>"
  let ?pkt = "received_packet (receive_buffer (uninit s (ticks s)) bytes)"
  let ?ty = "get_packet_type (header ?pkt)" and ?peer = "search_bt_peer (config s) sender"
  have inv': "peer_inv ?s" using inv by simp
  then obtain as L ps M where R: "receive_ok ?s as L" and P: "provide_ok ?s ps M"
    by (auto simp: peer_inv_def receive_inv_def provide_inv_def)
  have whohas: "peer_inv (process_whohas ?pkt sender ?s)"
    using inv by (simp add: process_whohas_def fresh_memory_def split: option.split)
  have ihave: "safe (process_ihave ?pkt ?peer ?s) peer_inv" if "?ty = TYPE_IHAVE"
  proof -
    from that fr obtain p where p: "?peer = Some p" by (auto simp: friendly_def Let_def)
    with search_bt_peer_Some have "p < length (peers (config ?s))" by auto
    from process_ihave_ok [OF R this] p show ?thesis
      by (simp add: from_receiving [OF inv'] safe_outcome)
  qed
  have getp: "safe (process_get_packet ?pkt ?peer ?s) peer_inv" if "?ty = TYPE_GET"
  proof -
    from that fr obtain p where p: "?peer = Some p" by (auto simp: friendly_def Let_def)
    with search_bt_peer_Some have "p < length (peers (config ?s))" by auto
    from process_get_packet_ok [OF P this] p show ?thesis
      by (simp add: from_providing [OF inv'] safe_outcome)
  qed
  have data: "safe (process_data ?pkt sender ?peer ?s) peer_inv" if "?ty = TYPE_DATA"
  proof -
    have size: "received_data_size (header ?pkt) = 1024" using that fr by (simp add: friendly_def Let_def)
    have "1024 \<le> length (payload ?pkt)" by (simp add: length_received_payload)
    from process_data_ok [OF R size this] show ?thesis
      by (simp add: from_receiving [OF inv'] safe_outcome)
  qed
  have ack: "safe (process_ack ?pkt ?peer ?s) peer_inv"
    using process_ack_ok [OF P] by (simp add: from_providing [OF inv'] safe_outcome)
  from inv whohas ihave getp data ack show ?thesis
    by (simp add: process_inbound_udp_def fresh_memory_def Let_def)
qed

end
