(* ===== verification/Main_Loop.thy ===== *)
theory Main_Loop imports Peer_Inv begin

text \<open>
  The tasks of the main loop, one turn of it and its runs: each keeps \<open>peer_inv\<close>, and a run ends
  normally or in the one fault the invariant does not exclude.
\<close>

section \<open>The tasks\<close>

lemma peer_inv_receive: "peer_inv s \<Longrightarrow> \<exists>as L. receive_ok s as L"
  by (auto simp: peer_inv_def receive_inv_def)

lemma peer_inv_provide: "peer_inv s \<Longrightarrow> \<exists>ps L. provide_ok s ps L"
  by (auto simp: peer_inv_def provide_inv_def)

lemma looping_inv: "peer_inv s \<Longrightarrow> looping s ps s' \<Longrightarrow> peer_inv s'"
  using receive_inv_frame [of s s'] by (auto simp: peer_inv_def looping_def provide_inv_def)

lemma receiving_inv: "peer_inv s \<Longrightarrow> receiving s as s' \<Longrightarrow> peer_inv s'"
  using provide_inv_frame [of s s'] by (auto simp: peer_inv_def receiving_def receive_inv_def)

lemma providers_timeout_inv:
  assumes "peer_inv s"
  shows "outcome {Use_After_Free} (providers_timeout s) peer_inv"
proof -
  from peer_inv_provide [OF assms] obtain ps L where "provide_ok s ps L" by blast
  from outcome_mono [OF providers_timeout_ok [OF this] looping_inv [OF assms]] show ?thesis .
qed

lemma receivers_timeout_inv:
  assumes "peer_inv s"
  shows "outcome {Use_After_Free} (receivers_timeout s) peer_inv"
proof -
  from peer_inv_receive [OF assms] obtain as L where "receive_ok s as L" by blast
  from outcome_mono [OF receivers_timeout_ok [OF this] receiving_inv [OF assms]] show ?thesis .
qed

lemma send_all_inv:
  assumes "peer_inv s"
  shows "safe (all_provider_connection_send_data s) peer_inv"
proof -
  from peer_inv_provide [OF assms] obtain ps L where "provide_ok s ps L" by blast
  from safe_mono [OF send_all_ok [OF this] looping_inv [OF assms]] show ?thesis .
qed

lemma peer_inv_send_all [simp]: "peer_inv (send_all_whohas_packet ps to s) = peer_inv s"
  by (induction ps to s rule: send_all_whohas_packet.induct) simp_all

lemma peer_inv_send_whohas [simp]: "peer_inv (send_whohas_to_peers packets ps s) = peer_inv s"
  by (induction packets ps s rule: send_whohas_to_peers.induct) simp_all

lemma receive_current:
  assumes "receive_ok s as L" and "current_job s = Some j"
  shows "\<exists>job. cell (jobs s) j = Some job"
  using assms by (auto simp: receive_ok_def jobs_ok_def)

lemma flood_whohas_inv:
  assumes "peer_inv s"
  shows "safe (flood_whohas s) peer_inv"
proof -
  from peer_inv_receive [OF assms] obtain as L where ok: "receive_ok s as L" by blast
  show ?thesis
  proof (cases "current_job s")
    case None
    with assms show ?thesis by (simp add: flood_whohas_def)
  next
    case (Some j)
    with receive_current [OF ok] obtain job where "cell (jobs s) j = Some job" by blast
    with Some assms receive_number [OF ok] show ?thesis
      by (simp add: flood_whohas_def fresh_memory_def Let_def)
  qed
qed

text \<open>A job as \<open>malloc_new_job\<close> makes it: nothing is found yet and nothing received.\<close>

definition fresh_job :: "job_s \<Rightarrow> bool" where
  "fresh_job job \<longleftrightarrow> (\<forall>c \<in> set (chunks job). chunk_ok c \<and> ck_status c = CHUNK_STATUS_NOT_FOUND)"

lemma jchunk_alloc:
  "heap_ok J \<Longrightarrow> jchunk (J\<lparr>cell := (cell J)(brk J \<mapsto> job), brk := b\<rparr>) r =
    (if fst r = brk J then if snd r < length (chunks job) then Some (chunks job ! snd r) else None
     else jchunk J r)"
  by (simp add: jchunk_def)

lemma jchunk_beyond: "heap_ok J \<Longrightarrow> fst r = brk J \<Longrightarrow> jchunk J r = None"
  by (simp add: jchunk_def heap_ok_fresh)

lemma new_job_inv:
  assumes inv: "peer_inv s" and fresh: "fresh_job job"
  shows "peer_inv (s\<lparr>jobs := snd (heap_alloc (jobs s) job), current_job := Some (brk (jobs s))\<rparr>)"
    (is "peer_inv ?s")
proof -
  from peer_inv_receive [OF inv] obtain as L where ok: "receive_ok s as L" by blast
  let ?J = "jobs s" and ?J' = "(jobs s)\<lparr>cell := (cell (jobs s))(brk (jobs s) \<mapsto> job), brk := Suc (brk (jobs s))\<rparr>"
  have jok: "jobs_ok ?J (current_job s)" and h: "heap_ok ?J" using ok by (auto simp: receive_ok_def jobs_ok_def)
  have "chunk_ok c" if "jchunk ?J' r = Some c" for r c
    using that fresh jobs_okD [OF jok] by (auto simp: jchunk_alloc [OF h] fresh_job_def split: if_splits)
  moreover have "heap_ok ?J'" using h by (auto simp: heap_ok_def less_Suc_eq)
  ultimately have jok': "jobs_ok ?J' (Some (brk ?J))" by (simp add: jobs_ok_def)
  have keep: "chunk_states ?J' r = chunk_states ?J r"
    if "chunk_states ?J r \<noteq> None" for r
    using that by (auto simp: chunk_states_def jchunk_alloc [OF h] jchunk_beyond [OF h])
  have new: "chunk_states ?J' r = chunk_states ?J r \<or> chunk_states ?J' r = Some CHUNK_STATUS_NOT_FOUND" for r
    using fresh by (auto simp: chunk_states_def jchunk_alloc [OF h] jchunk_beyond [OF h] fresh_job_def)
  have r: "rinv (chunk_states ?J) (length (peers (config s))) L" using ok by (simp add: receive_ok_def)
  have "rc_ok (chunk_states ?J') (length (peers (config s))) c" if "c \<in> set L" for c
  proof (rule rc_ok_cong)
    show c: "rc_ok (chunk_states ?J) (length (peers (config s))) c" using r that by (simp add: rinv_def)
    show "chunk_states ?J' q = chunk_states ?J q" if "q \<in> set (chunk_list c)" for q
      using rc_ok_wanted [OF c that] by (intro keep) auto
  qed
  then have "rinv (chunk_states ?J') (length (peers (config s))) L"
    using r new unfolding rinv_def by (metis chunk_status.distinct(1) chunk_status.distinct(3) option.inject)
  with ok jok' have "receive_ok ?s as L" by (simp add: receive_ok_def heap_alloc_def)
  moreover have "provide_inv ?s"
    by (rule provide_inv_frame [of s]) (use inv in \<open>auto simp: provider_frame_def peer_inv_def\<close>)
  ultimately show ?thesis by (auto simp: peer_inv_def receive_inv_def)
qed

lemma process_get_inv:
  assumes "peer_inv s" and "\<forall>job. user = Some job \<longrightarrow> fresh_job job"
  shows "safe (process_get user s) peer_inv"
  using assms new_job_inv [OF assms(1)] flood_whohas_inv
  by (auto simp: process_get_def heap_alloc_def Let_def split: option.split)

lemma finish_job_inv:
  assumes inv: "peer_inv s"
  shows "safe (finish_job s) peer_inv"
proof -
  from peer_inv_receive [OF inv] obtain as L where ok: "receive_ok s as L" by blast
  show ?thesis
  proof (cases "current_job s")
    case None
    with inv show ?thesis by (simp add: finish_job_def)
  next
    case (Some j)
    with receive_current [OF ok] obtain job where job: "cell (jobs s) j = Some job" by blast
    let ?J = "(jobs s)\<lparr>cell := (cell (jobs s))(j := None)\<rparr>"
    let ?s = "s\<lparr>jobs := ?J, current_job := None\<rparr>"
    have call: "finish_job s =
        (if L \<noteq> [] \<or> get_not_found_chunk_number job \<noteq> 0 then Inr s else Inr ?s)"
      using Some job receive_number [OF ok] by (simp add: finish_job_def)
    have "peer_inv ?s" if L: "L = []"
    proof -
      have sub: "jchunk ?J r = (if fst r = j then None else jchunk (jobs s) r)" for r
        by (simp add: jchunk_def)
      have "jobs_ok ?J None" using ok by (auto simp: receive_ok_def jobs_ok_def sub heap_ok_def split: if_splits)
      moreover have "rinv (chunk_states ?J) np []" for np
        using ok L by (auto simp: receive_ok_def rinv_def chunk_states_def sub split: if_splits)
      ultimately have "receive_ok ?s as L" using ok L by (simp add: receive_ok_def)
      moreover have "provide_inv ?s"
        by (rule provide_inv_frame [of s]) (use inv in \<open>auto simp: provider_frame_def peer_inv_def\<close>)
      ultimately show ?thesis by (auto simp: peer_inv_def receive_inv_def)
    qed
    with inv show ?thesis by (simp add: call)
  qed
qed

section \<open>A turn, and runs\<close>

definition turn_inv :: "timeval \<times> peer_s \<Rightarrow> bool" where
  "turn_inv = (\<lambda>(t, s). peer_inv s)"

type_synonym turn_input = "(byte list \<times> sockaddr_in) option \<times> job_s option"

definition turn :: "turn_input \<Rightarrow> timeval \<times> peer_s \<Rightarrow> (timeval \<times> peer_s) result" where
  "turn i = peer_run_turn (fst i) (snd i)"

definition admissible :: "timeval \<times> peer_s \<Rightarrow> turn_input \<Rightarrow> bool" where
  "admissible ts i \<longleftrightarrow>
     (\<forall>bytes sender. fst i = Some (bytes, sender) \<longrightarrow> friendly (snd ts) bytes sender) \<and>
     (\<forall>job. snd i = Some job \<longrightarrow> fresh_job job)"

lemma peer_run_tasks_ok:
  assumes s: "peer_inv s"
  shows "outcome {Use_After_Free} (peer_run_tasks (t, s)) turn_inv"
proof -
  let ?F = "{Use_After_Free}"
  have rest: "outcome ?F (let (elapsed, s) = elapsed_since t s
     in andThen
          (if elapsed > WHOHAS_FLOOD_INTERVAL_MS
           then andThen (flood_whohas s) (\<lambda>s. let (t, s) = gettimeofday s in Inr (t, s))
           else Inr (t, s))
          (\<lambda>(last, s). andThen (finish_job s) (\<lambda>s. Inr (last, s)))) turn_inv" if s: "peer_inv s" for s
  proof -
    have fin: "outcome ?F (finish_job s) (\<lambda>s. turn_inv (l, s))" if "peer_inv s" for l s
      using outcome_safe [OF finish_job_inv [OF that]] by (simp add: turn_inv_def)
    have "outcome ?F (flood_whohas (s\<lparr>ticks := Suc (ticks s)\<rparr>)) peer_inv"
      using s by (intro outcome_safe flood_whohas_inv) simp
    then have "outcome ?F (flood_whohas (s\<lparr>ticks := Suc (ticks s)\<rparr>))
        (\<lambda>s. outcome ?F (finish_job (s\<lparr>ticks := Suc (ticks s)\<rparr>)) (\<lambda>s'. turn_inv (clock s (ticks s), s')))"
      by (rule outcome_mono) (simp add: fin)
    with s fin show ?thesis
      by (simp add: elapsed_since_def gettimeofday_def outcome_andThen Let_def)
  qed
  show ?thesis
    unfolding peer_run_tasks_def prod.case outcome_andThen
    by (rule outcome_mono [OF providers_timeout_inv [OF s]], rule outcome_mono [OF receivers_timeout_inv], assumption,
        rule outcome_mono [OF outcome_safe [OF send_all_inv]], assumption, rule rest)
qed

lemma turn_ok:
  assumes inv: "turn_inv ts" and adm: "admissible ts i"
  shows "outcome {Use_After_Free} (turn i ts) turn_inv"
proof -
  obtain t s where ts: "ts = (t, s)" by fastforce
  have s: "peer_inv s" using inv by (simp add: ts turn_inv_def)
  let ?F = "{Use_After_Free}"
  have inbound: "outcome ?F (case fst i of None \<Rightarrow> Inr s | Some (b, a) \<Rightarrow> process_inbound_udp b a s) peer_inv"
    using s adm process_inbound_udp_safe [OF s]
    by (auto simp: admissible_def ts split: option.split intro: outcome_safe)
  have user: "outcome ?F (process_get (snd i) s) peer_inv" if "peer_inv s" for s
    using that adm by (intro outcome_safe process_get_inv) (auto simp: admissible_def)
  show ?thesis
    unfolding turn_def peer_run_turn_def ts prod.case outcome_andThen
    by (rule outcome_mono [OF inbound], rule outcome_mono [OF user], assumption, rule peer_run_tasks_ok)
qed

interpretation main_loop: machine turn admissible "{Use_After_Free}" turn_inv
  by unfold_locales (rule turn_ok)

text \<open>The state the loop starts in: the lists empty, the owned chunks not loaded.\<close>

definition started :: "peer_s \<Rightarrow> bool" where
  "started s \<longleftrightarrow>
     current_job s = None \<and> jobs s = empty_heap \<and> providers s = empty_heap \<and> receivers s = empty_heap \<and>
     (\<forall>c \<in> set (has_chunks s). ck_data c = None)"

lemma started_inv:
  assumes "started s"
  shows "peer_inv (init_connections s)"
proof -
  have j: "jchunk empty_heap r = None" for r by (simp add: jchunk_def empty_heap_def)
  have "receive_ok (init_connections s) [] []"
    using assms j by (simp add: started_def init_connections_def receive_ok_def jobs_ok_def rinv_def rl.view_def
        chunk_states_def) (simp add: empty_heap_def)
  moreover have "provide_ok (init_connections s) [] []"
    using assms by (simp add: started_def init_connections_def provide_ok_def owned_ok_def pl.view_def)
      (simp add: empty_heap_def)
  ultimately show ?thesis by (auto simp: peer_inv_def receive_inv_def provide_inv_def)
qed

end
