(* ===== verification/Peer_Properties.thy ===== *)
theory Peer_Properties imports Main_Loop begin

text \<open>
  Properties of a whole peer: its main loop keeps the invariant, what that means for the number of
  connections and the chunks they want, when a job ends, and the inputs and silences on which the
  program runs into undefined behaviour.
\<close>

section \<open>What the invariant says\<close>

lemma receive_live:
  assumes "receive_ok s as L" and "cell (receivers s) a = Some c"
  shows "\<exists>i < length L. as ! i = a \<and> L ! i = rl.erase c"
proof -
  have view: "rl.view (receivers s) (receiver_connection_head s) as L" and "a \<in> set as"
    using assms by (auto simp: receive_ok_def)
  then obtain i where i: "i < length as" "as ! i = a" by (auto simp: in_set_conv_nth)
  with rl.view_at [OF view i(1)] assms(2) rl.view_length [OF view] show ?thesis by auto
qed

lemma distinct_concat_index:
  "distinct (concat xss) \<Longrightarrow> i < length xss \<Longrightarrow> j < length xss \<Longrightarrow> x \<in> set (xss ! i) \<Longrightarrow> x \<in> set (xss ! j) \<Longrightarrow> i = j"
proof (induction xss arbitrary: i j)
  case (Cons xs xss)
  then have "x \<in> set xs \<Longrightarrow> k < length xss \<Longrightarrow> x \<notin> set (xss ! k)" for k
    using nth_mem [of k xss] by fastforce
  with Cons show ?case by (cases i; cases j) auto
qed simp

lemma receivers_apart:
  assumes ok: "receive_ok s as L" and a: "cell (receivers s) a = Some c" and b: "cell (receivers s) b = Some d"
    and same: "rc_provider c = rc_provider d \<or> set (chunk_list c) \<inter> set (chunk_list d) \<noteq> {}"
  shows "a = b"
proof -
  from receive_live [OF ok a] obtain i where i: "i < length L" "as ! i = a" "L ! i = rl.erase c" by blast
  from receive_live [OF ok b] obtain j where j: "j < length L" "as ! j = b" "L ! j = rl.erase d" by blast
  have r: "distinct (map rc_provider L)" "distinct (concat (map chunk_list L))"
    using ok by (auto simp: receive_ok_def rinv_def wanted_def)
  from same have "i = j"
  proof
    assume "rc_provider c = rc_provider d"
    then have "map rc_provider L ! i = map rc_provider L ! j" using i j by simp
    with r(1) i(1) j(1) show ?thesis by (simp only: nth_eq_iff_index_eq length_map)
  next
    assume "set (chunk_list c) \<inter> set (chunk_list d) \<noteq> {}"
    then show ?thesis using distinct_concat_index [OF r(2)] i j by auto
  qed
  with i j show ?thesis by simp
qed

lemma providers_apart:
  assumes ok: "provide_ok s ps L" and a: "cell (providers s) a = Some c" and b: "cell (providers s) b = Some d"
    and same: "pc_receiver c = pc_receiver d"
  shows "a = b"
proof -
  have view: "pl.view (providers s) (provider_connection_head s) ps L" and "a \<in> set ps" "b \<in> set ps"
    using assms by (auto simp: provide_ok_def)
  then obtain i j where i: "i < length ps" "ps ! i = a" and j: "j < length ps" "ps ! j = b"
    by (auto simp: in_set_conv_nth)
  have "L ! i = pl.erase c" "L ! j = pl.erase d"
    using pl.view_at [OF view i(1)] pl.view_at [OF view j(1)] i j a b by auto
  then have "map pc_receiver L ! i = map pc_receiver L ! j"
    using same i j provide_length [OF ok] by simp
  moreover have "distinct (map pc_receiver L)" using ok by (simp add: provide_ok_def)
  ultimately have "i = j" using i j provide_length [OF ok] by (simp only: nth_eq_iff_index_eq length_map)
  with i j show ?thesis by simp
qed

section \<open>Example states\<close>

definition example_start :: peer_s where
  "example_start = example_peer\<lparr>has_chunks := [example_chunk 0 1]\<rparr>"

definition example_job :: job_s where
  "example_job = \<lparr>output_file_name = [0x6f], chunks = [example_chunk 0 1]\<rparr>"

lemma example_start_started: "started example_start"
  by (simp add: example_start_def started_def example_chunk_def)

lemma example_job_fresh: "fresh_job example_job"
  by (simp add: example_job_def fresh_job_def example_chunk_def chunk_ok_def)

text \<open>A peer that serves its one chunk, with a given clock.\<close>

definition example_serving :: "timeval \<Rightarrow> peer_s" where
  "example_serving t =
     example_peer\<lparr>clock := \<lambda>_. t, provider_connection_head := Some 0,
       providers := \<lparr>cell = [0 \<mapsto> example_connection 0 0 1], brk = 1\<rparr>\<rparr>"

text \<open>A peer that downloads the one chunk of its job from the one peer it knows.\<close>

definition example_request :: receiver_connection_s where
  "example_request =
     \<lparr>rc_provider = Some 0, chunk_list = [(0, 0)], rc_start_time = \<lparr>tv_sec = 0, tv_usec = 0\<rparr>,
      last_get_time = Some \<lparr>tv_sec = 0, tv_usec = 0\<rparr>, last_data_time = None,
      rc_status = RECEIVER_STATUS_PENGDING_DATA, rc_next = None\<rparr>"

definition example_fetching :: "timeval \<Rightarrow> chunk_s \<Rightarrow> peer_s" where
  "example_fetching t k =
     example_peer\<lparr>clock := \<lambda>_. t, current_job := Some 0,
       jobs := \<lparr>cell = [0 \<mapsto> \<lparr>output_file_name = [0x6f], chunks = [k]\<rparr>], brk = 1\<rparr>,
       receiver_connection_head := Some 0,
       receivers := \<lparr>cell = [0 \<mapsto> example_request], brk = 1\<rparr>\<rparr>"

lemma example_serving_provide: "provide_ok (example_serving t) [0] [example_connection 0 0 1]"
  by (simp add: example_serving_def provide_ok_def pl.view_def pl.erase_def heap_ok_def owned_ok_def serves_def
      loaded_def example_connection_def pc_ok_def example_chunk_def)

lemma jchunk_example:
  "jchunk \<lparr>cell = [0 \<mapsto> \<lparr>output_file_name = f, chunks = [k]\<rparr>], brk = b\<rparr> r = (if r = (0, 0) then Some k else None)"
  by (cases r) (simp add: jchunk_def)

lemma example_fetching_receive:
  assumes "chunk_ok k" and "ck_status k = CHUNK_STATUS_DOWNDLOADING"
  shows "receive_ok (example_fetching t k) [0] [example_request]"
  using assms
  by (simp add: example_fetching_def receive_ok_def rl.view_def rl.erase_def heap_ok_def jobs_ok_def rinv_def rc_ok_def
      chunk_states_def jchunk_example example_request_def)

lemma example_serving_inv: "peer_inv (example_serving t)"
proof -
  have "receive_ok (example_serving t) [] []"
    by (simp add: example_serving_def receive_ok_def jobs_ok_def rinv_def rl.view_def chunk_states_def jchunk_def
        empty_heap_def heap_ok_def)
  with example_serving_provide [of t] show ?thesis by (auto simp: peer_inv_def receive_inv_def provide_inv_def)
qed

lemma example_fetching_inv:
  assumes "chunk_ok k" and "ck_status k = CHUNK_STATUS_DOWNDLOADING"
  shows "peer_inv (example_fetching t k)"
proof -
  have "provide_ok (example_fetching t k) [] []"
    by (simp add: example_fetching_def provide_ok_def pl.view_def empty_heap_def heap_ok_def owned_ok_def
        example_chunk_def)
  with example_fetching_receive [OF assms] show ?thesis
    by (auto simp: peer_inv_def receive_inv_def provide_inv_def)
qed

lemma example_silence: "10000 < get_time_diff \<lparr>tv_sec = 0, tv_usec = 0\<rparr> \<lparr>tv_sec = 11, tv_usec = 0\<rparr>"
proof -
  have "\<bar>of_int (get_time_diff \<lparr>tv_sec = 0, tv_usec = 0\<rparr> \<lparr>tv_sec = 11, tv_usec = 0\<rparr>) - (11000 :: rat)\<bar> < 1 + 1 / 100"
    using get_time_diff_close [of "\<lparr>tv_sec = 0, tv_usec = 0\<rparr>" "\<lparr>tv_sec = 11, tv_usec = 0\<rparr>"]
    by (simp add: sane_time_def exact_ms_def)
  then have "(10000 :: rat) < of_int (get_time_diff \<lparr>tv_sec = 0, tv_usec = 0\<rparr> \<lparr>tv_sec = 11, tv_usec = 0\<rparr>)"
    by linarith
  then show ?thesis by linarith
qed

section \<open>The main loop\<close>





text \<open>
  C10. A datagram of any content and any length, except a DATA packet that does not announce exactly
  1024 bytes and an IHAVE or GET from outside the peer list, is processed without a fault, and the
  invariant of the peer is kept.
\<close>

theorem datagram_safe:
  assumes "peer_inv s" and "friendly s bytes sender"
  shows "safe (process_inbound_udp bytes sender s) peer_inv"
  using assms by (rule process_inbound_udp_safe)

theorem datagram_safe_witness:
  "safe (process_inbound_udp [0x3c, 0x51, 1, 4, 0, 16, 0, 16, 0, 0, 0, 0, 0, 0, 0, 1] \<lparr>sin_port = 5, sin_addr = 6\<rparr>
     (example_serving \<lparr>tv_sec = 0, tv_usec = 0\<rparr>)) peer_inv"
proof (rule datagram_safe [OF example_serving_inv])
  show "friendly (example_serving \<lparr>tv_sec = 0, tv_usec = 0\<rparr>)
      [0x3c, 0x51, 1, 4, 0, 16, 0, 16, 0, 0, 0, 0, 0, 0, 0, 1] \<lparr>sin_port = 5, sin_addr = 6\<rparr>"
    by (simp add: friendly_def Let_def receive_buffer_def overwrite_def received_packet_simps parse_header_def
        header_of_def net_to_host_header_def get_packet_type_def)
qed

section \<open>The end of a job\<close>



section \<open>Crash timeouts\<close>

text \<open>
  C32. A provider connection whose receiver has been silent for more than ten seconds: the connection
  is taken out of the list and freed, and the loop over the connections then reads the next pointer
  of the freed memory.
\<close>

theorem provider_crash_faults:
  assumes "peer_inv s" and "provider_connection_head s = Some a" and "cell (providers s) a = Some c"
    and "get_time_diff (last_acked_received_time c) (clock s (ticks s)) > PEER_CRASH_TIMEOUT"
  shows "providers_timeout s = Inl Use_After_Free"
proof -
  from peer_inv_provide [OF assms(1)] obtain ps L where ok: "provide_ok s ps L" by blast
  have a: "0 < length ps" "ps ! 0 = a" using provide_head [OF ok] assms(2)
    by (auto simp: address_from_def split: if_splits)
  have i: "0 < length L" using provide_length [OF ok] a(1) by simp
  obtain n where n: "brk (providers s) = Suc n" using provide_short [OF ok] a(1) by (cases "brk (providers s)") auto
  have ok': "provide_ok (s\<lparr>ticks := Suc (ticks s)\<rparr>) ps L" using ok by (simp add: provide_ok_def)
  from finish_provider_ok [OF ok' i] obtain s' where
    s': "finish_provider_connection (Some a) (s\<lparr>ticks := Suc (ticks s)\<rparr>) = Inr s'" "cell (providers s') a = None"
    by (auto simp: a(2))
  have "serves (has_chunks s) (length (peers (config s))) c"
    using provide_at [OF ok i] assms(3) a(2) by auto
  then obtain p where "pc_receiver c = Some p" "p < length (peers (config s))" by (auto simp: serves_def)
  with assms(3,4) s' have "provider_control_by_timeout (Some a) s = Inr s'"
    by (simp add: provider_control_by_timeout_def load_provider_def elapsed_since_def gettimeofday_def)
  with s'(2) n assms(2) show ?thesis
    by (simp add: providers_timeout_def provider_next_def load_provider_def)
qed

theorem provider_crash_faults_witness:
  "providers_timeout (example_serving \<lparr>tv_sec = 11, tv_usec = 0\<rparr>) = Inl Use_After_Free"
  by (rule provider_crash_faults [OF example_serving_inv])
    (use example_silence in \<open>auto simp: example_serving_def example_connection_def\<close>)

text \<open>
  C33. A receiver connection whose provider has not sent anything for more than ten seconds: its
  chunks are given back, the connection is freed, and removing it from the list then reads the freed
  memory.
\<close>

theorem receiver_crash_faults:
  assumes "peer_inv s" and "receiver_connection_head s = Some a" and "cell (receivers s) a = Some c"
    and "case rc_status c of
        RECEIVER_STATUS_PENGDING_DATA \<Rightarrow>
          get_time_diff (rc_start_time c) (clock s (ticks s)) > PEER_CRASH_TIMEOUT
      | RECEIVER_STATUS_RECEIVED_DATA \<Rightarrow>
          \<exists>t. last_data_time c = Some t \<and> get_time_diff t (clock s (ticks s)) > PEER_CRASH_TIMEOUT"
  shows "receivers_timeout s = Inl Use_After_Free"
proof -
  from peer_inv_receive [OF assms(1)] obtain as L where ok: "receive_ok s as L" by blast
  have a: "0 < length as" "as ! 0 = a" using receive_list(1) [OF ok] assms(2)
    by (auto simp: address_from_def split: if_splits)
  have i: "0 < length L" using receive_list(2) [OF ok] a(1) by simp
  obtain n where n: "brk (receivers s) = Suc n"
    using receive_list(3) [OF ok] a(1) by (cases "brk (receivers s)") auto
  have ok': "receive_ok (s\<lparr>ticks := Suc (ticks s)\<rparr>) as L" using ok by (simp add: receive_ok_def)
  note fault = cancel_then_remove [OF ok' i, unfolded a(2)]
  have "rc_ok (chunk_states (jobs s)) (length (peers (config s))) (L ! 0)" "L ! 0 = rl.erase c"
    using ok i receive_at [OF ok i] assms(3) a(2) by (auto simp: receive_ok_def rinv_def)
  then obtain p where "rc_provider c = Some p" "p < length (peers (config s))" by (auto simp: rc_ok_def)
  with assms(3,4) fault have "receiver_control_by_timeout (Some a) s = Inl Use_After_Free"
    by (cases "rc_status c")
      (auto simp: receiver_control_by_timeout_def load_receiver_def elapsed_since_def gettimeofday_def)
  with n assms(2) show ?thesis by (simp add: receivers_timeout_def)
qed

theorem receiver_crash_faults_witness:
  "receivers_timeout (example_fetching \<lparr>tv_sec = 11, tv_usec = 0\<rparr>
     ((example_chunk 0 1)\<lparr>ck_status := CHUNK_STATUS_DOWNDLOADING\<rparr>)) = Inl Use_After_Free"
proof (rule receiver_crash_faults [OF example_fetching_inv])
  show "chunk_ok ((example_chunk 0 1)\<lparr>ck_status := CHUNK_STATUS_DOWNDLOADING\<rparr>)"
    by (simp add: example_chunk_def chunk_ok_def)
qed (use example_silence in \<open>auto simp: example_fetching_def example_request_def\<close>)

section \<open>Datagrams outside the protocol\<close>

text \<open>
  C35. A GET from an address outside the peer list: the handler looks for a connection with the null
  peer, finds none, and dereferences the null peer exactly if the limit of connections is reached or
  the requested chunk is owned and can be loaded. In all other cases it does nothing but load.
\<close>

theorem get_from_stranger:
  assumes "peer_inv s"
  shows "process_get_packet pkt None s =
    (case get_provider_connection_number s of
       Inl e \<Rightarrow> Inl e
     | Inr n \<Rightarrow>
         if n \<ge> max_provider_connection s \<or> fst (load_chunk (take 20 (payload pkt)) s) \<noteq> None
         then Inl Null_Dereference
         else Inr (snd (load_chunk (take 20 (payload pkt)) s)))"
proof -
  from peer_inv_provide [OF assms] obtain ps L where ok: "provide_ok s ps L" by blast
  have "pc_receiver (L ! i) \<noteq> None" if "i < length L" for i
    using provide_at [OF ok that] by (auto simp: serves_def) (metis erased_provider(1) option.distinct(1))
  then have "find (\<lambda>i. pc_receiver (L ! i) = None) [0..<length L] = None" by (auto simp: find_None_iff)
  then show ?thesis
    by (cases "load_chunk (take 20 (payload pkt)) s"; cases "fst (load_chunk (take 20 (payload pkt)) s)")
      (auto simp: process_get_packet_def provide_search [OF ok] provide_number [OF ok]
        malloc_provider_connection_def Let_def case_prod_beta)
qed

theorem get_from_stranger_witness:
  "process_get_packet \<lparr>header = new_header TYPE_GET 36 0 0, payload = replicate 1484 1\<rparr> None
     (example_serving \<lparr>tv_sec = 0, tv_usec = 0\<rparr>) = Inl Null_Dereference"
proof -
  let ?s = "example_serving \<lparr>tv_sec = 0, tv_usec = 0\<rparr>"
  have "load_chunk (replicate 20 1) ?s = (Some 0, ?s)"
    by (simp add: load_chunk_def seach_owned_chunk_def example_chunk_def example_serving_def)
  moreover have "get_provider_connection_number ?s = Inr 1"
    using provide_number [OF example_serving_provide] by simp
  ultimately show ?thesis
    using get_from_stranger [OF example_serving_inv,
        of "\<lparr>header = new_header TYPE_GET 36 0 0, payload = replicate 1484 1\<rparr>"]
    by (simp add: example_serving_def)
qed

text \<open>The connection a DATA packet is for.\<close>

lemma process_data_found:
  assumes ok: "receive_ok s as L" and c: "cell (receivers s) a = Some c" "rc_provider c = Some p"
    "chunk_list c = r # rs" and k: "jchunk (jobs s) r = Some k"
  shows "process_data pkt sender (Some p) s =
    (let existing = received_seq_num k; seq = sint (seq_number (header pkt))
     in if seq < 0 \<or> seq < existing + 1 then Inr s
        else if seq > existing + 1
        then Inr (send_packet (malloc_ack_packet (uninit s (ticks s)) existing) sender (s\<lparr>ticks := Suc (ticks s)\<rparr>))
        else deliver pkt (Some a) (send_packet (malloc_ack_packet (uninit s (Suc (ticks s))) (1 + existing)) sender
          (s\<lparr>receivers := (receivers s)\<lparr>cell := (cell (receivers s))(a \<mapsto>
               c\<lparr>last_data_time := Some (clock s (ticks s)), rc_status := RECEIVER_STATUS_RECEIVED_DATA\<rparr>)\<rparr>,
             ticks := Suc (Suc (ticks s))\<rparr>)))"
proof -
  from receive_live [OF ok c(1)] obtain i where i: "i < length L" "as ! i = a" "L ! i = rl.erase c" by blast
  have "search_receiver_connection (Some p) s = Inr (Some a)"
  proof (cases "find (\<lambda>i. rc_provider (L ! i) = Some p) [0..<length L]")
    case None
    with i c(2) show ?thesis by (auto simp: find_None_iff)
  next
    case (Some j)
    then have j: "j < length L" "rc_provider (L ! j) = Some p" by (auto simp: find_Some_iff)
    have "distinct (map rc_provider L)" using ok by (simp add: receive_ok_def rinv_def)
    moreover have "map rc_provider L ! i = map rc_provider L ! j" using i j c(2) by simp
    ultimately have "i = j" using i(1) j(1) by (simp only: nth_eq_iff_index_eq length_map)
    with Some i receive_search [OF ok] show ?thesis by simp
  qed
  with c k show ?thesis
    by (simp add: process_data_def load_receiver_def store_receiver_def fresh_memory_def gettimeofday_def Let_def
        deliver_def)
qed

text \<open>
  DATA packets that are not the next one: an earlier one is dropped without an answer, and a later
  one is answered by an acknowledgement of the last packet received in order, nothing else changes.
  So a provider whose acknowledgements were lost, and which sends the same packets again, hears
  nothing.
\<close>

theorem data_out_of_order:
  assumes "peer_inv s" and "cell (receivers s) a = Some c" and "rc_provider c = Some p"
    and "chunk_list c = r # rs" and "load_job_chunk s r = Inr k"
    and "sint (seq_number (header pkt)) \<noteq> received_seq_num k + 1"
  shows "process_data pkt sender (Some p) s =
    Inr (if sint (seq_number (header pkt)) \<le> received_seq_num k then s
         else send_packet (malloc_ack_packet (uninit s (ticks s)) (received_seq_num k)) sender
           (s\<lparr>ticks := Suc (ticks s)\<rparr>))"
proof -
  from peer_inv_receive [OF assms(1)] obtain as L where ok: "receive_ok s as L" by blast
  have k: "jchunk (jobs s) r = Some k"
    using assms(5) by (cases r) (auto simp: load_job_chunk_def jchunk_def heap_load_def split: option.splits if_splits)
  have "0 \<le> received_seq_num k" using ok k by (auto simp: receive_ok_def chunk_ok_def dest!: jobs_okD)
  with process_data_found [OF ok assms(2-4) k] assms(6) show ?thesis by (auto simp: Let_def)
qed

theorem data_out_of_order_witness:
  "process_data \<lparr>header = new_header TYPE_DATA 1040 7 0, payload = replicate 1484 1\<rparr> \<lparr>sin_port = 5, sin_addr = 6\<rparr> (Some 0)
     (example_fetching \<lparr>tv_sec = 0, tv_usec = 0\<rparr> ((example_chunk 0 1)\<lparr>ck_status := CHUNK_STATUS_DOWNDLOADING\<rparr>)) =
   Inr (send_packet (malloc_ack_packet (\<lambda>_. 0) 0) \<lparr>sin_port = 5, sin_addr = 6\<rparr>
     ((example_fetching \<lparr>tv_sec = 0, tv_usec = 0\<rparr> ((example_chunk 0 1)\<lparr>ck_status := CHUNK_STATUS_DOWNDLOADING\<rparr>))
       \<lparr>ticks := 1\<rparr>))"
proof -
  let ?k = "(example_chunk 0 1)\<lparr>ck_status := CHUNK_STATUS_DOWNDLOADING\<rparr>"
  let ?s = "example_fetching \<lparr>tv_sec = 0, tv_usec = 0\<rparr> ?k"
  have "chunk_ok ?k" by (simp add: example_chunk_def chunk_ok_def)
  then have inv: "peer_inv ?s" by (rule example_fetching_inv) simp
  have parts: "cell (receivers ?s) 0 = Some example_request" "rc_provider example_request = Some 0"
    "chunk_list example_request = [(0, 0)]" "load_job_chunk ?s (0, 0) = Inr ?k"
    "uninit ?s = (\<lambda>_ _. 0)" "ticks ?s = 0" "received_seq_num ?k = 0"
    by (simp_all add: example_fetching_def example_request_def load_job_chunk_def example_chunk_def)
  from data_out_of_order [OF inv parts(1-4), of "\<lparr>header = new_header TYPE_DATA 1040 7 0, payload = replicate 1484 1\<rparr>"]
    parts(5-7) show ?thesis by simp
qed

text \<open>
  C34. The next DATA packet with more bytes than the chunk has left: the copy runs past the end of the
  chunk's buffer. The length of the packet is only compared with the largest payload.
\<close>

theorem oversized_data_faults:
  assumes "peer_inv s" and "cell (receivers s) a = Some c" and "rc_provider c = Some p"
    and "chunk_list c = r # rs" and "load_job_chunk s r = Inr k"
    and "sint (seq_number (header pkt)) = received_seq_num k + 1"
    and "received_byte_num k + received_data_size (header pkt) > int CHUNK_DATA_SIZE"
  shows "process_data pkt sender (Some p) s = Inl Buffer_Overflow"
proof -
  from peer_inv_receive [OF assms(1)] obtain as L where ok: "receive_ok s as L" by blast
  have k: "jchunk (jobs s) r = Some k"
    using assms(5) by (cases r) (auto simp: load_job_chunk_def jchunk_def heap_load_def split: option.splits if_splits)
  have kok: "chunk_ok k" using ok k by (auto simp: receive_ok_def dest!: jobs_okD)
  let ?n = "received_seq_num k"
  have n: "0 \<le> ?n" "received_byte_num k = 1024 * ?n" using kok by (simp_all add: chunk_ok_def)
  have size: "0 \<le> received_data_size (header pkt)" by (simp add: received_data_size_def Let_def)
  have len: "length d = CHUNK_DATA_SIZE" if "ck_data k = Some d" for d using kok that by (simp add: chunk_ok_def)
  have over: "\<not> nat (1024 * ?n) + nat (received_data_size (header pkt)) \<le> 524288"
    using assms(7) n size by (simp add: nat_add_distrib [symmetric])
  have "deliver pkt (Some a) s' = Inl Buffer_Overflow"
    if "cell (receivers s') a = Some c'" "chunk_list c' = r # rs" "jobs s' = jobs s" for s' c'
  proof -
    have k': "jchunk (jobs s') r = Some k" using k that(3) by simp
    show ?thesis
      using that k' n over len
      by (auto simp: deliver_def save_data_packet_def load_receiver_def fresh_memory_def Let_def
          split: option.split)
  qed
  with process_data_found [OF ok assms(2-4) k, of pkt sender] n assms(4,6) show ?thesis
    by (simp add: Let_def send_packet_def)
qed

theorem oversized_data_faults_witness:
  "process_data \<lparr>header = new_header TYPE_DATA 1500 512 0, payload = replicate 1484 1\<rparr> \<lparr>sin_port = 5, sin_addr = 6\<rparr> (Some 0)
     (example_fetching \<lparr>tv_sec = 0, tv_usec = 0\<rparr>
       ((example_chunk 0 1)\<lparr>ck_status := CHUNK_STATUS_DOWNDLOADING, received_seq_num := 511,
          received_byte_num := 523264, ck_data := Some (replicate CHUNK_DATA_SIZE 0)\<rparr>)) = Inl Buffer_Overflow"
proof -
  let ?k = "(example_chunk 0 1)\<lparr>ck_status := CHUNK_STATUS_DOWNDLOADING, received_seq_num := 511,
      received_byte_num := 523264, ck_data := Some (replicate CHUNK_DATA_SIZE 0)\<rparr>"
  let ?s = "example_fetching \<lparr>tv_sec = 0, tv_usec = 0\<rparr> ?k"
  have "chunk_ok ?k" by (simp add: example_chunk_def chunk_ok_def)
  then have inv: "peer_inv ?s" by (rule example_fetching_inv) simp
  have parts: "cell (receivers ?s) 0 = Some example_request" "rc_provider example_request = Some 0"
    "chunk_list example_request = [(0, 0)]" "load_job_chunk ?s (0, 0) = Inr ?k"
    by (simp_all add: example_fetching_def example_request_def load_job_chunk_def example_chunk_def)
  show ?thesis
    by (rule oversized_data_faults [OF inv parts]) (simp_all add: received_data_size_def Let_def)
qed

end
