(* ===== verification/Transfer_Sides.thy ===== *)
theory Transfer_Sides imports Peer_Properties begin

text \<open>
  The two sides of the transfer of one chunk: what a providing and a fetching peer look like while
  it lasts, and the effect of every arriving datagram and every task of the main loop on them. A
  datagram is what the other side's \<open>send_packet\<close> made of a packet.
\<close>

section \<open>Datagrams\<close>

lemma received_datagram:
  assumes "header pk = new_header ty len seq ack" and "16 \<le> len" and "len \<le> 1500"
    and "length (payload pk) = MAX_PAYLOAD_LENGTH"
  shows "header (received_packet (receive_buffer mem (datagram pk))) = header pk"
    and "take (len - 16) (payload (received_packet (receive_buffer mem (datagram pk)))) = take (len - 16) (payload pk)"
proof -
  have n: "sint (packet_length (header pk)) = int len" using assms(1,3) by simp
  then have big: "HEADER_SIZE \<le> nat (sint (packet_length (header pk)))" using assms(2) by simp
  have len: "length (datagram pk) = len"
    using n assms(2,3,4) by (simp add: datagram_wire [OF big] hdr.length_emit)
  obtain ys where "receive_buffer mem (datagram pk) = datagram pk @ ys"
    using len assms(3) by (simp add: receive_buffer_def overwrite_def)
  with receive_datagram [OF big, of ys] n assms(4,3)
  show "header (received_packet (receive_buffer mem (datagram pk))) = header pk"
    "take (len - 16) (payload (received_packet (receive_buffer mem (datagram pk)))) = take (len - 16) (payload pk)"
    by simp_all
qed

abbreviation data_datagram :: "(nat \<Rightarrow> byte) \<Rightarrow> byte list \<Rightarrow> nat \<Rightarrow> byte list" where
  "data_datagram mem d j \<equiv> datagram (malloc_data_packet mem (data_slice d j) 1024 (int j + 1))"

abbreviation ack_datagram :: "(nat \<Rightarrow> byte) \<Rightarrow> nat \<Rightarrow> byte list" where
  "ack_datagram mem j \<equiv> datagram (malloc_ack_packet mem (int j))"

abbreviation get_datagram :: "(nat \<Rightarrow> byte) \<Rightarrow> byte list \<Rightarrow> byte list" where
  "get_datagram mem h \<equiv> datagram (malloc_get_packet mem h)"

lemma length_data_slice: "length d = CHUNK_DATA_SIZE \<Longrightarrow> j < 512 \<Longrightarrow> length (data_slice d j) = 1024"
  by (simp add: data_slice_def)

text \<open>How each of the three arrives.\<close>

lemma receive_data_datagram:
  assumes "length d = CHUNK_DATA_SIZE" and "j < 512"
  obtains pkt where "process_inbound_udp (data_datagram mem d j) sender s =
      process_data pkt sender (search_bt_peer (config s) sender) (s\<lparr>ticks := Suc (ticks s)\<rparr>)"
    and "sint (seq_number (header pkt)) = int j + 1" and "received_data_size (header pkt) = 1024"
    and "take 1024 (payload pkt) = data_slice d j" and "1024 \<le> length (payload pkt)"
proof -
  let ?pk = "malloc_data_packet mem (data_slice d j) 1024 (int j + 1)"
  let ?pkt = "received_packet (receive_buffer (uninit s (ticks s)) (datagram ?pk))"
  have h: "header ?pk = new_header TYPE_DATA 1040 (int j + 1) 0" by (simp add: malloc_data_packet_def)
  have len: "length (data_slice d j) = 1024" by (rule length_data_slice [OF assms])
  then have pl: "length (payload ?pk) = MAX_PAYLOAD_LENGTH"
    by (simp add: malloc_data_packet_def fresh_payload_def)
  note r = received_datagram [OF h _ _ pl, of "uninit s (ticks s)"]
  have "header ?pkt = new_header TYPE_DATA 1040 (int j + 1) 0" using r(1) h by simp
  moreover have "sint (word_of_int (int j + 1) :: c_int) = int j + 1"
    by (rule sint_word_of_int_small) (use assms(2) in auto)
  ultimately have hd: "validate_packet (header ?pkt) = 1" "get_packet_type (header ?pkt) = 3"
    "sint (seq_number (header ?pkt)) = int j + 1" "received_data_size (header ?pkt) = 1024"
    using new_header_valid [of 3 1040 "int j + 1" 0]
    by (simp_all add: received_data_size_def)
  have "process_inbound_udp (datagram ?pk) sender s =
      process_data ?pkt sender (search_bt_peer (config s) sender) (s\<lparr>ticks := Suc (ticks s)\<rparr>)"
    by (simp add: process_inbound_udp_def fresh_memory_def Let_def hd)
  moreover have "take 1024 (payload ?pkt) = data_slice d j"
    using r(2) len by (simp add: malloc_data_packet_def overwrite_def)
  moreover have "1024 \<le> length (payload ?pkt)" by (simp add: length_received_payload)
  ultimately show thesis using hd(3,4) that by blast
qed

lemma receive_ack_datagram:
  assumes "j \<le> 512"
  obtains pkt where "process_inbound_udp (ack_datagram mem j) sender s =
      process_ack pkt (search_bt_peer (config s) sender) (s\<lparr>ticks := Suc (ticks s)\<rparr>)"
    and "sint (ack_number (header pkt)) = int j"
proof -
  let ?pk = "malloc_ack_packet mem (int j)"
  let ?pkt = "received_packet (receive_buffer (uninit s (ticks s)) (datagram ?pk))"
  have h: "header ?pk = new_header TYPE_ACK 16 0 (int j)" by (simp add: malloc_ack_packet_def)
  have pl: "length (payload ?pk) = MAX_PAYLOAD_LENGTH" by (simp add: malloc_ack_packet_def fresh_payload_def)
  have "header ?pkt = new_header TYPE_ACK 16 0 (int j)" using received_datagram(1) [OF h _ _ pl] h by simp
  moreover have "sint (word_of_int (int j) :: c_int) = int j"
    by (rule sint_word_of_int_small) (use assms in auto)
  ultimately have hd: "validate_packet (header ?pkt) = 1" "get_packet_type (header ?pkt) = 4"
    "sint (ack_number (header ?pkt)) = int j"
    using new_header_valid [of 4 16 0 "int j"] by simp_all
  have "process_inbound_udp (datagram ?pk) sender s =
      process_ack ?pkt (search_bt_peer (config s) sender) (s\<lparr>ticks := Suc (ticks s)\<rparr>)"
    by (simp add: process_inbound_udp_def fresh_memory_def Let_def hd)
  with hd(3) show thesis using that by blast
qed

lemma receive_get_datagram:
  assumes "length h = SHA1_HASH_SIZE"
  obtains pkt where "process_inbound_udp (get_datagram mem h) sender s =
      process_get_packet pkt (search_bt_peer (config s) sender) (s\<lparr>ticks := Suc (ticks s)\<rparr>)"
    and "take SHA1_HASH_SIZE (payload pkt) = h"
proof -
  let ?pk = "malloc_get_packet mem h"
  let ?pkt = "received_packet (receive_buffer (uninit s (ticks s)) (datagram ?pk))"
  have h: "header ?pk = new_header TYPE_GET 36 0 0" by (simp add: malloc_get_packet_def)
  have pl: "length (payload ?pk) = MAX_PAYLOAD_LENGTH"
    using assms by (simp add: malloc_get_packet_def fresh_payload_def)
  note r = received_datagram [OF h _ _ pl, of "uninit s (ticks s)"]
  have "header ?pkt = new_header TYPE_GET 36 0 0" using r(1) h by simp
  then have hd: "validate_packet (header ?pkt) = 1" "get_packet_type (header ?pkt) = 2"
    using new_header_valid [of 2 36 0 0] by simp_all
  have "process_inbound_udp (datagram ?pk) sender s =
      process_get_packet ?pkt (search_bt_peer (config s) sender) (s\<lparr>ticks := Suc (ticks s)\<rparr>)"
    by (simp add: process_inbound_udp_def fresh_memory_def Let_def hd)
  moreover have "take SHA1_HASH_SIZE (payload ?pkt) = h"
    using r(2) assms by (simp add: malloc_get_packet_def overwrite_def)
  ultimately show thesis using that by blast
qed

section \<open>The setting\<close>

text \<open>
  The addresses of the two peers, the index each has in the other's peer list, the chunk of the job
  that is fetched, its hash, the chunk that is served with its data, and the fetching peer's disk. Around
  the chunk: the chunks that wait behind it in the connection, the other chunks of the jobs, the output file
  with its contents, and what the providing peer can serve, as hashes with their data.
\<close>

record setting =
  prov_addr :: sockaddr_in
  recv_addr :: sockaddr_in
  prov_index :: nat
  recv_index :: nat
  piece :: chunk_ref
  piece_hash :: "byte list"
  owned_index :: nat
  piece_data :: "byte list"
  disk_append :: "nat \<Rightarrow> byte list \<Rightarrow> bool"
  disk_space :: "nat \<Rightarrow> nat"
  later :: "chunk_ref list"
  others :: "chunk_ref \<Rightarrow> chunk_s option"
  cur_job :: nat
  out_name :: "byte list"
  out_before :: "byte list"
  library :: "(byte list \<times> byte list) list"

section \<open>The providing peer\<close>

definition setting_ok :: "setting \<Rightarrow> bool" where
  "setting_ok x \<longleftrightarrow> length (piece_data x) = CHUNK_DATA_SIZE \<and> length (piece_hash x) = SHA1_HASH_SIZE \<and>
     (piece_hash x, piece_data x) \<in> set (library x)"

text \<open>A peer provides a chunk that \<open>load_chunk\<close> returns, from its memory or from the data file.\<close>

definition provides :: "peer_s \<Rightarrow> byte list \<times> byte list \<Rightarrow> bool" where
  "provides P e =
     (case load_chunk (fst e) P of
        (Some i, P') \<Rightarrow> ck_data (has_chunks P' ! i) = Some (snd e)
      | (None, P') \<Rightarrow> False)"

lemma provides_same:
  assumes "has_chunks P' = has_chunks P" and "files P' = files P" and "config P' = config P"
  shows "provides P' e = provides P e"
  by (simp add: provides_def load_chunk_def assms Let_def split: option.split)

lemma provides_loads:
  assumes "provides P (h, d)" and "seach_owned_chunk (has_chunks P) h = Some i"
  shows "\<exists>P'. load_chunk h P = (Some i, P') \<and> ck_data (has_chunks P' ! i) = Some d"
  using assms by (auto simp: provides_def load_chunk_def Let_def split: option.splits if_splits)

text \<open>Loading a chunk changes its own entry only.\<close>

lemma load_chunk_entry:
  assumes "load_chunk h P = (Some i, P')"
  shows "seach_owned_chunk (has_chunks P) h = Some i" and "i < length (has_chunks P)"
      and "hash_binary (has_chunks P ! i) = h"
    and "\<exists>d. ck_data (has_chunks P' ! i) = Some d \<and>
      P' = P\<lparr>has_chunks := (has_chunks P)[i := (has_chunks P ! i)\<lparr>ck_data := Some d\<rparr>]\<rparr>"
proof -
  show found: "seach_owned_chunk (has_chunks P) h = Some i"
    using assms by (auto simp: load_chunk_def Let_def split: option.splits if_splits)
  show i: "i < length (has_chunks P)" "hash_binary (has_chunks P ! i) = h"
    using seach_owned_chunk_SomeD [OF found] by auto
  show "\<exists>d. ck_data (has_chunks P' ! i) = Some d \<and>
      P' = P\<lparr>has_chunks := (has_chunks P)[i := (has_chunks P ! i)\<lparr>ck_data := Some d\<rparr>]\<rparr>"
  proof (cases "ck_data (has_chunks P ! i)")
    case (Some d)
    then have "P' = P" using assms found by (auto simp: load_chunk_def Let_def)
    moreover have "(has_chunks P ! i)\<lparr>ck_data := Some d\<rparr> = has_chunks P ! i" using Some by simp
    then have "(has_chunks P)[i := (has_chunks P ! i)\<lparr>ck_data := Some d\<rparr>] = has_chunks P" by (simp only: list_update_id)
    ultimately show ?thesis using Some by (intro exI [of _ d]) simp
  next
    case None
    with assms found i(1) show ?thesis by (auto simp: load_chunk_def Let_def split: option.splits if_splits)
  qed
qed

lemma search_hash_update:
  "hash_binary c = hash_binary (cs ! i) \<Longrightarrow> search_hash h n (cs[i := c]) = search_hash h n cs"
  by (induction h n cs arbitrary: i rule: search_hash.induct) (auto split: nat.splits)

lemma provides_loaded:
  assumes "load_chunk h P = (Some i, P')" and "provides P e"
  shows "provides P' e"
proof -
  obtain h' d' where e: "e = (h', d')" by (cases e)
  note load = load_chunk_entry [OF assms(1)]
  obtain d where d: "P' = P\<lparr>has_chunks := (has_chunks P)[i := (has_chunks P ! i)\<lparr>ck_data := Some d\<rparr>]\<rparr>"
    "ck_data (has_chunks P' ! i) = Some d" using load(4) by blast
  have search: "seach_owned_chunk (has_chunks P') h'' = seach_owned_chunk (has_chunks P) h''" for h''
    using search_hash_update [of "(has_chunks P ! i)\<lparr>ck_data := Some d\<rparr>" "has_chunks P" i h'' 0]
    by (simp add: d(1) seach_owned_chunk_def)
  obtain k where k: "seach_owned_chunk (has_chunks P) h' = Some k"
    using assms(2) by (cases "seach_owned_chunk (has_chunks P) h'") (simp_all add: e provides_def load_chunk_def)
  show ?thesis
  proof (cases "k = i")
    case True
    then have "h' = h" using seach_owned_chunk_SomeD [OF k] load(3) by auto
    with assms True k have "d' = d" using d(2) by (auto simp: e provides_def)
    with True k d(2) search show ?thesis by (simp add: e provides_def load_chunk_def)
  next
    case False
    then have "has_chunks P' ! k = has_chunks P ! k" by (simp add: d(1))
    moreover have "k < length (has_chunks P)" using seach_owned_chunk_SomeD [OF k] by simp
    ultimately show ?thesis using assms(2) k search False
      by (auto simp: e provides_def load_chunk_def d(1) Let_def split: option.splits if_splits)
  qed
qed

text \<open>\<open>M\<close> are the connections of the provider: none, or one to the receiver.\<close>

definition providing :: "setting \<Rightarrow> peer_s \<Rightarrow> provider_connection_s list \<Rightarrow> bool" where
  "providing x P M \<longleftrightarrow>
     (\<exists>ps. provide_ok P ps M) \<and>
     (\<forall>c \<in> set M. pc_receiver c = Some (recv_index x) \<and> pc_chunk c = owned_index x) \<and>
     (\<forall>e \<in> set (library x). provides P e) \<and>
     seach_owned_chunk (has_chunks P) (piece_hash x) = Some (owned_index x) \<and>
     (M \<noteq> [] \<longrightarrow> ck_data (has_chunks P ! owned_index x) = Some (piece_data x)) \<and>
     search_bt_peer (config P) (recv_addr x) = Some (recv_index x) \<and>
     peer_addr (peers (config P) ! recv_index x) = recv_addr x \<and>
     0 < max_provider_connection P \<and>
     (\<forall>b. (recv_addr x, b) \<in> set (outbox P) \<longrightarrow> (\<exists>mem. \<exists>j < 512. b = data_datagram mem (piece_data x) j)) \<and>
     (\<forall>c \<in> set M. \<forall>j. int j < last_packet_sent c \<longrightarrow>
        (\<exists>mem. (recv_addr x, data_datagram mem (piece_data x) j) \<in> set (outbox P)))"

lemma providingD:
  assumes "providing x P M"
  shows "distinct (map pc_receiver M)"
    and "c \<in> set M \<Longrightarrow> pc_receiver c = Some (recv_index x)"
    and "c \<in> set M \<Longrightarrow> pc_chunk c = owned_index x"
    and "c \<in> set M \<Longrightarrow> int j < last_packet_sent c \<Longrightarrow>
      \<exists>mem. (recv_addr x, data_datagram mem (piece_data x) j) \<in> set (outbox P)"
    and "(recv_addr x, b) \<in> set (outbox P) \<Longrightarrow> \<exists>mem. \<exists>j < 512. b = data_datagram mem (piece_data x) j"
    and "seach_owned_chunk (has_chunks P) (piece_hash x) = Some (owned_index x)"
    and "M \<noteq> [] \<longrightarrow> ck_data (has_chunks P ! owned_index x) = Some (piece_data x)"
    and "search_bt_peer (config P) (recv_addr x) = Some (recv_index x)"
    and "peer_addr (peers (config P) ! recv_index x) = recv_addr x"
    and "0 < max_provider_connection P"
    and "\<forall>e \<in> set (library x). provides P e"
proof -
  note parts = assms [unfolded providing_def]
  obtain ps where "provide_ok P ps M" using parts by (elim conjE exE)
  then show "distinct (map pc_receiver M)" by (simp add: provide_ok_def)
  show "pc_receiver c = Some (recv_index x)" "pc_chunk c = owned_index x" if "c \<in> set M"
    using parts that by simp_all
  show "\<exists>mem. (recv_addr x, data_datagram mem (piece_data x) j) \<in> set (outbox P)"
    if "c \<in> set M" "int j < last_packet_sent c"
    using parts that by (elim conjE) (drule (1) bspec, drule spec, erule (1) mp)
  show "\<exists>mem. \<exists>j < 512. b = data_datagram mem (piece_data x) j" if "(recv_addr x, b) \<in> set (outbox P)"
    using parts that by (elim conjE) (drule spec, erule (1) mp)
  show "seach_owned_chunk (has_chunks P) (piece_hash x) = Some (owned_index x)"
    "M \<noteq> [] \<longrightarrow> ck_data (has_chunks P ! owned_index x) = Some (piece_data x)"
    "search_bt_peer (config P) (recv_addr x) = Some (recv_index x)"
    "peer_addr (peers (config P) ! recv_index x) = recv_addr x" "0 < max_provider_connection P"
    "\<forall>e \<in> set (library x). provides P e"
    using parts by simp_all
qed

lemma providing_cases:
  assumes "providing x P M"
  shows "M = [] \<or> (\<exists>c. M = [c])"
proof -
  have "\<forall>c \<in> set M. pc_receiver c = Some (recv_index x)" using providingD(2) [OF assms] by blast
  with providingD(1) [OF assms] show ?thesis
    by (cases M; cases "tl M") auto
qed

lemma providing_one:
  assumes "providing x P [c]"
  obtains a c0 where "provide_ok P [a] [c]" and "cell (providers P) a = Some c0" and "pl.erase c0 = c"
    and "provider_connection_head P = Some a" and "serves (has_chunks P) (length (peers (config P))) c0"
    and "pc_next c0 = None"
proof -
  from assms obtain ps where ok: "provide_ok P ps [c]" by (auto simp: providing_def)
  from provide_length [OF ok] obtain a where ps: "ps = [a]" by (cases ps) auto
  from provide_at [OF ok, of 0] ps obtain c0 where c0: "cell (providers P) a = Some c0" "pl.erase c0 = c"
    "serves (has_chunks P) (length (peers (config P))) c0" by auto
  moreover have "provider_connection_head P = Some a" using provide_head [OF ok] by (simp add: ps address_from_def)
  moreover have "pc_next c0 = None"
    using provide_next [OF ok, of 0] c0(1) by (simp add: ps provider_next_def load_provider_def address_from_def)
  ultimately show thesis using ok that by (simp add: ps)
qed

text \<open>Changes of other parts of the peer.\<close>

lemma providing_same:
  assumes "providing x P M" and "providers P' = providers P"
    and "provider_connection_head P' = provider_connection_head P" and "has_chunks P' = has_chunks P"
    and "config P' = config P" and "max_provider_connection P' = max_provider_connection P" and "outbox P' = outbox P"
    and "files P' = files P"
  shows "providing x P' M"
  using assms(1) unfolding providing_def provide_ok_def provides_same [OF assms(4,8,5)] assms(2-7) .

text \<open>Sending: nothing, or the next packet of the chunk.\<close>

lemma providing_sends:
  assumes x: "setting_ok x" and P: "providing x P M" and step: "all_provider_connection_send_data P = Inr P'"
  shows "\<exists>M'. providing x P' M' \<and> set (outbox P) \<subseteq> set (outbox P') \<and>
    map last_packet_acked M' = map last_packet_acked M \<and>
    (\<forall>c. M = [c] \<and> last_packet_sent c = last_packet_acked c \<and> last_packet_acked c < 512 \<longrightarrow>
      map last_packet_sent M' = [last_packet_sent c + 1])"
  using providing_cases [OF P]
proof (elim disjE exE)
  assume M: "M = []"
  then have "provider_connection_head P = None"
    using P provide_head provide_length by (fastforce simp: providing_def address_from_def)
  then have "P' = P" using step by (simp add: all_provider_connection_send_data_def)
  with P M show ?thesis by auto
next
  fix c
  assume M: "M = [c]"
  with P obtain a c0 where ok: "provide_ok P [a] [c]" and c0: "cell (providers P) a = Some c0" "pl.erase c0 = c"
    and head: "provider_connection_head P = Some a" and srv: "serves (has_chunks P) (length (peers (config P))) c0"
    and nx: "pc_next c0 = None"
    by (auto elim: providing_one)
  obtain n where n: "brk (providers P) = Suc n" using provide_short [OF ok] by (cases "brk (providers P)") auto
  have loop: "all_provider_connection_send_data P =
      andThen (send_data_packet (Some a) P) (\<lambda>s. andThen (provider_next s (Some a)) (\<lambda>p.
        for_each provider_next send_data_packet n p s))"
    by (simp add: all_provider_connection_send_data_def head n)
  show ?thesis
  proof (cases "last_packet_sent c0 - last_packet_acked c0 \<ge> window_size c0 \<or> last_packet_sent c0 = 512")
    case True
    then have "P' = P"
      using step by (simp add: loop send_data_packet_idle [OF c0(1)] provider_next_def load_provider_def c0(1) nx)
    moreover have "\<not> (last_packet_sent c = last_packet_acked c \<and> last_packet_acked c < 512)"
      using True srv unfolding c0(2) [symmetric] by (auto simp: serves_def pc_ok_def pl.erase_def)
    ultimately show ?thesis using P M by blast
  next
    case False
    let ?n = "nat (last_packet_sent c0)"
    have pok: "pc_ok c0" using srv by (simp add: serves_def)
    then have sent: "0 \<le> last_packet_sent c0" "last_packet_sent c0 < 512" using False by (auto simp: pc_ok_def)
    have ci: "pc_receiver c0 = Some (recv_index x)" "pc_chunk c0 = owned_index x"
      using providingD(2,3) [OF P, of c] M by (simp_all flip: c0(2))
    have d: "ck_data (has_chunks P ! pc_chunk c0) = Some (piece_data x)" using providingD(7) [OF P] ci M by simp
    have room: "last_packet_sent c0 - last_packet_acked c0 < window_size c0" using False by simp
    from send_data_packet_next [OF c0(1) srv room sent(2) d ci(1)] obtain c' t where
      send: "send_data_packet (Some a) P = Inr (P\<lparr>ticks := t, outbox := outbox P @ [(recv_addr x,
          datagram (malloc_data_packet (uninit P (ticks P)) (data_slice (piece_data x) ?n) 1024
            (last_packet_sent c0 + 1)))],
        providers := (providers P)\<lparr>cell := (cell (providers P))(a \<mapsto> c')\<rparr>\<rparr>)" (is "_ = Inr ?P")
      and c': "last_packet_sent c' = last_packet_sent c0 + 1" "last_packet_acked c' = last_packet_acked c0"
        "pc_next c' = pc_next c0" "pc_receiver c' = pc_receiver c0" "pc_chunk c' = pc_chunk c0" "pc_ok c'"
      using providingD(9) [OF P] by auto
    have P': "P' = ?P" using step by (simp add: loop send provider_next_def load_provider_def c'(3) nx)
    have "provide_ok ?P [a] ([c][0 := pl.erase c'])"
      by (rule provide_ok_store [OF ok, where i = 0]) (use c0 c' srv in \<open>simp_all add: serves_def\<close>)
    then have ok': "\<exists>ps. provide_ok ?P ps [pl.erase c']" by auto
    have er: "last_packet_sent (pl.erase c'') = last_packet_sent c''" for c'' by (simp add: pl.erase_def)
    have seq: "last_packet_sent c0 + 1 = int ?n + 1" using sent by simp
    have new: "datagram (malloc_data_packet (uninit P (ticks P)) (data_slice (piece_data x) ?n) 1024
        (last_packet_sent c0 + 1)) = data_datagram (uninit P (ticks P)) (piece_data x) ?n"
      unfolding seq ..
    have old: "\<exists>mem. (recv_addr x, data_datagram mem (piece_data x) j) \<in> set (outbox P)"
      if "int j < last_packet_sent c0" for j
      using providingD(4) [OF P, of c j] M that by (simp add: er flip: c0(2))
    have out: "outbox ?P = outbox P @ [(recv_addr x, data_datagram (uninit P (ticks P)) (piece_data x) ?n)]"
      using new by simp
    have "providing x ?P [pl.erase c']"
      unfolding providing_def
    proof (intro conjI ok')
      show "\<forall>c \<in> set [pl.erase c']. \<forall>j. int j < last_packet_sent c \<longrightarrow>
          (\<exists>mem. (recv_addr x, data_datagram mem (piece_data x) j) \<in> set (outbox ?P))"
      proof (intro ballI allI impI)
        fix c1 j
        assume "c1 \<in> set [pl.erase c']" "int j < last_packet_sent c1"
        then have "int j < last_packet_sent c0 \<or> j = ?n" using c'(1) sent by (auto simp: er)
        with old show "\<exists>mem. (recv_addr x, data_datagram mem (piece_data x) j) \<in> set (outbox ?P)"
          unfolding out set_append by (elim disjE) (blast, simp, blast)
      qed
      show "\<forall>b. (recv_addr x, b) \<in> set (outbox ?P) \<longrightarrow> (\<exists>mem. \<exists>j < 512. b = data_datagram mem (piece_data x) j)"
      proof (intro allI impI)
        fix b
        assume "(recv_addr x, b) \<in> set (outbox ?P)"
        then have "(recv_addr x, b) \<in> set (outbox P) \<or> b = data_datagram (uninit P (ticks P)) (piece_data x) ?n"
          unfolding out by auto
        moreover have "?n < 512" using sent by simp
        ultimately show "\<exists>mem. \<exists>j < 512. b = data_datagram mem (piece_data x) j"
          using providingD(5) [OF P] by blast
      qed
    qed (use providingD(6-11) [OF P] c' ci M in \<open>simp_all add: provides_same [of ?P P]\<close>)
    with P' c' M show ?thesis
      by (intro exI [of _ "[pl.erase c']"]) (simp add: er subset_insertI flip: c0(2))
  qed
qed

text \<open>The connection changed, nothing sent.\<close>

lemma providing_changed:
  assumes P: "providing x P [c]" and ok: "provide_ok P' ps [c']"
    and "pc_receiver c' = pc_receiver c" and "pc_chunk c' = pc_chunk c" and "last_packet_sent c' \<le> last_packet_sent c"
    and same: "has_chunks P' = has_chunks P" "config P' = config P"
      "max_provider_connection P' = max_provider_connection P" "outbox P' = outbox P" "files P' = files P"
  shows "providing x P' [c']"
  unfolding providing_def provides_same [OF same(1,5,2)] same
proof (intro conjI)
  show "\<exists>ps. provide_ok P' ps [c']" using ok by blast
  show "\<forall>c \<in> set [c']. pc_receiver c = Some (recv_index x) \<and> pc_chunk c = owned_index x"
    using assms(3,4) providingD(2,3) [OF P, of c] by simp
  show "\<forall>c \<in> set [c']. \<forall>j. int j < last_packet_sent c \<longrightarrow>
      (\<exists>mem. (recv_addr x, data_datagram mem (piece_data x) j) \<in> set (outbox P))"
    using assms(5) providingD(4) [OF P, of c] by (simp del: One_nat_def)
  show "\<forall>b. (recv_addr x, b) \<in> set (outbox P) \<longrightarrow> (\<exists>mem. \<exists>j < 512. b = data_datagram mem (piece_data x) j)"
    using providingD(5) [OF P] by blast
qed (use providingD(6-11) [OF P] in simp_all)

lemma timeout_effect:
  assumes c: "cell (providers P) a = Some c" "pc_receiver c = Some p" "p < length (peers (config P))"
    and step: "provider_control_by_timeout (Some a) P = Inr P'" and crash: "cell (providers P') a \<noteq> None"
    and ok: "provide_ok P [a] L"
  shows "\<exists>c'. cell (providers P') a = Some c' \<and> last_packet_acked c' = last_packet_acked c \<and>
    last_packet_sent c' \<le> max (last_packet_sent c) (last_packet_acked c) \<and> pc_receiver c' = pc_receiver c \<and>
    pc_chunk c' = pc_chunk c \<and> has_chunks P' = has_chunks P \<and> config P' = config P \<and>
    max_provider_connection P' = max_provider_connection P \<and> outbox P' = outbox P \<and> files P' = files P"
proof -
  let ?t3 = "P\<lparr>ticks := Suc (Suc (Suc (ticks P)))\<rparr>"
  let ?down = "connection_scale_down c ?t3"
  let ?d1 = "get_time_diff (last_acked_received_time c) (clock P (ticks P))"
    and ?d2 = "get_time_diff (last_acked_received_time c) (clock P (Suc (ticks P)))"
    and ?d3 = "get_time_diff (last_data_send_time c) (clock P (Suc (Suc (ticks P))))"
  have call: "provider_control_by_timeout (Some a) P =
     (if ?d1 > 10000 then finish_provider_connection (Some a) (P\<lparr>ticks := Suc (ticks P)\<rparr>)
      else if ?d2 > 500 then
        (if ?d3 > 500 then store_provider (snd ?down) (Some a) (reset_sender_buffer (fst ?down))
         else Inr ?t3)
      else Inr (P\<lparr>ticks := Suc (Suc (ticks P))\<rparr>))"
    using c by (simp add: provider_control_by_timeout_def load_provider_def elapsed_since_def gettimeofday_def
        case_prod_beta)
  have "only_time P (snd ?down)"
    using only_time_scale_down [of ?t3 c] by (rule only_time_trans [rotated]) simp
  note same = only_time_fields [OF this]
  have "provide_ok (P\<lparr>ticks := Suc (ticks P)\<rparr>) [a] L" using ok by (simp add: provide_ok_def)
  moreover have "0 < length L" using provide_length [OF ok] by (cases L) simp_all
  ultimately obtain s' where "finish_provider_connection (Some a) (P\<lparr>ticks := Suc (ticks P)\<rparr>) = Inr s'"
    "cell (providers s') a = None"
    using finish_provider_ok [of "P\<lparr>ticks := Suc (ticks P)\<rparr>" "[a]" L 0] by (cases L) auto
  then have "\<not> ?d1 > 10000" using step crash by (auto simp: call)
  with step have "(if ?d2 > 500 then
        (if ?d3 > 500 then store_provider (snd ?down) (Some a) (reset_sender_buffer (fst ?down)) else Inr ?t3)
      else Inr (P\<lparr>ticks := Suc (Suc (ticks P))\<rparr>)) = Inr P'"
    unfolding call by (simp only: if_False)
  then consider "?t3 = P'" | "P\<lparr>ticks := Suc (Suc (ticks P))\<rparr> = P'"
    | "store_provider (snd ?down) (Some a) (reset_sender_buffer (fst ?down)) = Inr P'"
    by (cases "?d2 > 500"; cases "?d3 > 500") (simp_all only: if_True if_False sum.inject)
  then show ?thesis
  proof cases
    case 3
    let ?c = "reset_sender_buffer (fst ?down)"
    let ?P = "(snd ?down)\<lparr>providers := (providers (snd ?down))\<lparr>cell := (cell (providers (snd ?down)))(a \<mapsto> ?c)\<rparr>\<rparr>"
    have "cell (providers (snd ?down)) a = Some c" using c(1) same(1) by simp
    with 3 have P': "P' = ?P" by (simp add: store_provider_def)
    show ?thesis unfolding P'
      by (intro exI [of _ ?c]) (simp add: same(3,4,5,9,10) reset_sender_buffer_def)
  qed (use c in auto)
qed

lemma providing_timeouts:
  assumes P: "providing x P M" and step: "providers_timeout P = Inr P'"
  shows "\<exists>M'. providing x P' M' \<and> outbox P' = outbox P \<and> map last_packet_acked M' = map last_packet_acked M"
  using providing_cases [OF P]
proof (elim disjE exE)
  assume M: "M = []"
  then have "provider_connection_head P = None"
    using P provide_head provide_length by (fastforce simp: providing_def address_from_def)
  then have "P' = P" using step by (simp add: providers_timeout_def)
  with P show ?thesis by auto
next
  fix c
  assume M: "M = [c]"
  with P obtain a c0 where ok: "provide_ok P [a] [c]" and c0: "cell (providers P) a = Some c0" "pl.erase c0 = c"
    and head: "provider_connection_head P = Some a" and srv: "serves (has_chunks P) (length (peers (config P))) c0"
    and nx: "pc_next c0 = None"
    by (auto elim: providing_one)
  obtain n where n: "brk (providers P) = Suc n" using provide_short [OF ok] by (cases "brk (providers P)") auto
  from provider_timeout_cases [OF ok, of 0] obtain P1 where
    P1: "provider_control_by_timeout (Some a) P = Inr P1" and
    two: "(\<exists>L'. provide_ok P1 [a] L') \<or> cell (providers P1) a = None" by auto
  have loop: "providers_timeout P = andThen (provider_next P1 (Some a)) (\<lambda>p.
      for_each provider_next provider_control_by_timeout n p P1)"
    by (simp add: providers_timeout_def head n P1)
  have live: "cell (providers P1) a \<noteq> None"
    using step by (cases "cell (providers P1) a") (simp_all add: loop provider_next_def load_provider_def)
  with two obtain L' where ok1: "provide_ok P1 [a] L'" by auto
  have "provider_next P1 (Some a) = Inr None" using provide_next [OF ok1, of 0] by (simp add: address_from_def)
  then have P': "P' = P1" using step by (simp add: loop)
  obtain p where p: "pc_receiver c0 = Some p" "p < length (peers (config P))" using srv by (auto simp: serves_def)
  from timeout_effect [OF c0(1) p P1 live ok] obtain c' where
    c': "cell (providers P1) a = Some c'" "last_packet_acked c' = last_packet_acked c0"
      "last_packet_sent c' \<le> max (last_packet_sent c0) (last_packet_acked c0)" "pc_receiver c' = pc_receiver c0"
      "pc_chunk c' = pc_chunk c0" "has_chunks P1 = has_chunks P" "config P1 = config P"
      "max_provider_connection P1 = max_provider_connection P" "outbox P1 = outbox P" "files P1 = files P" by blast
  have "length L' = 1" using provide_length [OF ok1] by simp
  then obtain c1 where L': "L' = [c1]" by (cases L') auto
  have er: "last_packet_sent (pl.erase c'') = last_packet_sent c''" for c'' by (simp add: pl.erase_def)
  have c1: "c1 = pl.erase c'" using provide_at [OF ok1, of 0] L' c'(1) by auto
  have "last_packet_acked c0 \<le> last_packet_sent c0" using srv by (simp add: serves_def pc_ok_def)
  then have "providing x P1 [c1]"
    by (intro providing_changed [OF P [unfolded M] ok1 [unfolded L']]) (use c' in \<open>simp_all add: c1 er flip: c0(2)\<close>)
  with P' M c'(2,9) c1 c0(2) show ?thesis by (auto intro!: exI [of _ "[c1]"])
qed

text \<open>An acknowledgement arrives.\<close>

lemma ack_sent:
  assumes "pc_ok c" and "provider_control_by_ack c n s = Inr (c', s')"
  shows "last_packet_sent c' \<le> last_packet_sent c"
proof -
  obtain c1 s1 where 1: "set_RTT n c s = Inr (c1, s1)" "provider_react_to_ack c1 n s1 = (c', s')"
    using assms(2) by (auto simp: provider_control_by_ack_def andThen_eq_Inr)
  with set_RTT_ok [OF assms(1), of n s]
  have "last_packet_sent c1 = last_packet_sent c" "last_packet_acked c1 = last_packet_acked c" by auto
  with react_fields(5) [of c1 n s1] 1(2) assms(1) show ?thesis by (auto simp: pc_ok_def split: if_splits)
qed

lemma providing_ack:
  assumes P: "providing x P M" and n: "n \<le> 512"
  shows "\<exists>P' M'. process_inbound_udp (ack_datagram mem n) (recv_addr x) P = Inr P' \<and> providing x P' M' \<and>
    outbox P' = outbox P \<and>
    (M = [] \<longrightarrow> M' = []) \<and>
    (\<forall>c m. M = [c] \<and>
       m = (if last_packet_acked c < int n \<and> int n \<le> last_packet_sent c then int n else last_packet_acked c) \<longrightarrow>
       map last_packet_acked M' = (if m = 512 then [] else [m]))"
proof -
  let ?P = "P\<lparr>ticks := Suc (ticks P)\<rparr>"
  obtain pkt where step: "process_inbound_udp (ack_datagram mem n) (recv_addr x) P =
      process_ack pkt (Some (recv_index x)) ?P" and ack: "sint (ack_number (header pkt)) = int n"
    using receive_ack_datagram [OF n, of mem "recv_addr x" P] providingD(8) [OF P] by auto
  have P1: "providing x ?P M" by (rule providing_same [OF P]) simp_all
  show ?thesis
    using providing_cases [OF P1]
  proof (elim disjE exE)
    assume M: "M = []"
    obtain ps where ok: "provide_ok ?P ps []" using P1 M by (auto simp: providing_def)
    have "process_ack pkt (Some (recv_index x)) ?P = Inr ?P" by (simp add: process_ack_def provide_search [OF ok])
    with step P1 M show ?thesis by auto
  next
    fix c
    assume M: "M = [c]"
    with P1 obtain a c0 where ok: "provide_ok ?P [a] [c]" and c0: "cell (providers ?P) a = Some c0" "pl.erase c0 = c"
      and srv: "serves (has_chunks ?P) (length (peers (config ?P))) c0"
      by (auto elim: providing_one)
    have pok: "pc_ok c0" using srv by (simp add: serves_def)
    have ri: "pc_receiver c = Some (recv_index x)" using providingD(2) [OF P1, of c] M by simp
    have find: "search_provider_connection (Some (recv_index x)) ?P = Inr (Some a)"
      using provide_search [OF ok] ri by simp
    obtain c1 P2 where 1: "provider_control_by_ack c0 (int n) ?P = Inr (c1, P2)" and
      c1: "pc_ok c1" "only_time ?P P2" "pc_receiver c1 = pc_receiver c0" "pc_chunk c1 = pc_chunk c0"
        "pc_next c1 = pc_next c0"
        "last_packet_acked c1 = (if last_packet_acked c0 < int n \<and> int n \<le> last_packet_sent c0 then int n
           else last_packet_acked c0)"
      using provider_control_by_ack_safe [OF pok, of "int n" ?P] by (auto simp: safe_iff)
    note sent = ack_sent [OF pok 1]
    note same = only_time_fields [OF c1(2)]
    let ?P3 = "P2\<lparr>providers := (providers P2)\<lparr>cell := (cell (providers P2))(a \<mapsto> c1)\<rparr>\<rparr>"
    have store: "store_provider P2 (Some a) c1 = Inr ?P3" using c0(1) same(1) by (simp add: store_provider_def)
    have call: "process_ack pkt (Some (recv_index x)) ?P =
        (if last_packet_acked c1 = 512 then finish_provider_connection (Some a) ?P3 else Inr ?P3)"
      using find ack 1 store c0(1) by (simp add: process_ack_def load_provider_def)
    have "provide_ok ?P3 [a] ([c][0 := pl.erase c1])"
      by (rule provide_ok_store [OF ok, where i = 0]) (use c0 c1 same srv in \<open>simp_all add: serves_def\<close>)
    then have ok3: "provide_ok ?P3 [a] [pl.erase c1]" by simp
    have er: "last_packet_sent (pl.erase c'') = last_packet_sent c''" for c'' by (simp add: pl.erase_def)
    have P3: "providing x ?P3 [pl.erase c1]"
      by (rule providing_changed [OF P1 [unfolded M] ok3])
        (use c1 same sent in \<open>simp_all add: er flip: c0(2)\<close>)
    have ac: "last_packet_acked c1 = (if last_packet_acked c < int n \<and> int n \<le> last_packet_sent c then int n
           else last_packet_acked c)"
      unfolding c1(6) by (simp add: er flip: c0(2))
    show ?thesis
    proof (cases "last_packet_acked c1 = 512")
      case False
      then have "process_inbound_udp (ack_datagram mem n) (recv_addr x) P = Inr ?P3" using step call by simp
      moreover have "outbox ?P3 = outbox P" using same(9) by simp
      moreover have "map last_packet_acked [pl.erase c1] = [last_packet_acked c1]" by simp
      ultimately show ?thesis using P3 M ac False by (intro exI [of _ ?P3] exI [of _ "[pl.erase c1]"]) simp
    next
      case True
      from finish_provider_ok [OF ok3, of 0] obtain P' where
        P': "finish_provider_connection (Some a) ?P3 = Inr P'" "provide_ok P' [] []" "outbox P' = outbox ?P3"
        by auto
      have fr: "has_chunks P' = has_chunks ?P3" "config P' = config ?P3"
        "max_provider_connection P' = max_provider_connection ?P3" "files P' = files ?P3"
        using P'(1) by (auto simp: finish_provider_connection_def remove_provider_connection_def
            free_provider_connection_def andThen_eq_Inr)
      have "providing x P' []"
        unfolding providing_def provides_same [OF fr(1,4,2)] fr(1-3) P'(3)
      proof (intro conjI)
        show "\<exists>ps. provide_ok P' ps []" using P'(2) by blast
        show "\<forall>b. (recv_addr x, b) \<in> set (outbox ?P3) \<longrightarrow> (\<exists>mem. \<exists>j < 512. b = data_datagram mem (piece_data x) j)"
          using providingD(5) [OF P3] by blast
      qed (use providingD(6-11) [OF P3] in simp_all)
      moreover have "process_inbound_udp (ack_datagram mem n) (recv_addr x) P = Inr P'" using step call True P'(1)
          by simp
      moreover have "outbox P' = outbox P" using same(9) P'(3) by simp
      ultimately show ?thesis using M ac True by (intro exI [of _ P'] exI [of _ "[]"]) simp
    qed
  qed
qed

text \<open>A request arrives: a connection is there already, or is made.\<close>

lemma providing_get:
  assumes x: "setting_ok x" and P: "providing x P M"
  shows "\<exists>P' M'. process_inbound_udp (get_datagram mem (piece_hash x)) (recv_addr x) P = Inr P' \<and>
    providing x P' M' \<and> outbox P' = outbox P \<and>
    map last_packet_acked M' = (if M = [] then [0] else map last_packet_acked M)"
proof -
  let ?P = "P\<lparr>ticks := Suc (ticks P)\<rparr>" and ?q = "recv_index x"
  have "length (piece_hash x) = SHA1_HASH_SIZE" using x by (simp add: setting_ok_def)
  from receive_get_datagram [OF this, of mem "recv_addr x" P] obtain pkt where
    step: "process_inbound_udp (get_datagram mem (piece_hash x)) (recv_addr x) P = process_get_packet pkt (Some ?q) ?P"
    and hash: "take SHA1_HASH_SIZE (payload pkt) = piece_hash x"
    using providingD(8) [OF P] by auto
  have P1: "providing x ?P M" by (rule providing_same [OF P]) simp_all
  have q: "?q < length (peers (config ?P))" using search_bt_peer_Some [OF providingD(8) [OF P]] by simp
  show ?thesis
    using providing_cases [OF P1]
  proof (elim disjE exE)
    fix c
    assume M: "M = [c]"
    with P1 obtain a where ok: "provide_ok ?P [a] [c]" by (auto elim: providing_one)
    have "pc_receiver c = Some ?q" using providingD(2) [OF P1, of c] M by simp
    with provide_search [OF ok] q have "process_get_packet pkt (Some ?q) ?P = Inr ?P"
      by (simp add: process_get_packet_def)
    with step P1 M show ?thesis by (intro exI [of _ ?P] exI [of _ M]) simp
  next
    assume M: "M = []"
    obtain ps where ok: "provide_ok ?P ps []" using P1 M by (auto simp: providing_def)
    have "provides ?P (piece_hash x, piece_data x)" using providingD(11) [OF P1] x by (simp add: setting_ok_def)
    from provides_loads [OF this providingD(6) [OF P1]] obtain Q where
      load: "load_chunk (piece_hash x) ?P = (Some (owned_index x), Q)"
      and data: "ck_data (has_chunks Q ! owned_index x) = Some (piece_data x)" by blast
    note entry = load_chunk_entry [OF load]
    from entry(4) obtain hc where Q: "Q = ?P\<lparr>has_chunks := hc\<rparr>" by blast
    let ?c = "new_provider Q (Some ?q) (owned_index x)"
    let ?P2 = "Q\<lparr>provider_id := provider_id Q + 1, ticks := Suc (Suc (Suc (ticks ?P))),
        providers := snd (heap_alloc (providers Q) ?c)\<rparr>"
    let ?h = "snd (heap_alloc (providers Q) ?c)" and ?a = "brk (providers ?P)"
    let ?P3 = "?P2\<lparr>providers := ?h\<lparr>cell := (cell ?h)(?a \<mapsto> ?c\<lparr>pc_next := None\<rparr>)\<rparr>,
        provider_connection_head := Some ?a\<rparr>"
    have room: "\<not> max_provider_connection ?P \<le> 0" using providingD(10) [OF P1] by simp
    have head: "provider_connection_head ?P = None"
      using provide_head [OF ok] provide_length [OF ok] by (simp add: address_from_def)
    have add: "add_provider_connection (Some ?a) ?P2 = Inr ?P3"
      using head by (simp add: add_provider_connection_def load_provider_def store_provider_def heap_alloc_def Q)
    have "process_get_packet pkt (Some ?q) ?P = add_provider_connection (Some ?a) ?P2"
      using room load q hash
      by (simp add: process_get_packet_def provide_search [OF ok] provide_number [OF ok]
          malloc_provider_connection_def init_provider_connection_def gettimeofday_def Let_def
          new_provider_def heap_alloc_def Q)
    with step add have call: "process_inbound_udp (get_datagram mem (piece_hash x)) (recv_addr x) P = Inr ?P3"
      by simp
    have fields: "pc_receiver ?c = Some ?q" "pc_chunk ?c = owned_index x" "last_packet_acked ?c = 0"
      "last_packet_sent ?c = 0"
      by (simp_all add: new_provider_def init_provider_connection_def blank_provider_connection_def
          gettimeofday_def Let_def)
    have "provide_inv ?P3 \<and> receiver_frame ?P ?P3"
      using get_connect_ok [OF ok _ q _ load, of "Suc (Suc (Suc (ticks ?P)))"] room add by simp
    then obtain ps' M' where ok3: "provide_ok ?P3 ps' M'" by (auto simp: provide_inv_def)
    have same: "has_chunks ?P3 = has_chunks Q" "files ?P3 = files Q" "config ?P3 = config Q" by simp_all
    have search: "seach_owned_chunk (has_chunks Q) (piece_hash x) = Some (owned_index x)"
      using entry(4) search_hash_update providingD(6) [OF P1] by (auto simp: seach_owned_chunk_def)
    have lib: "\<forall>e \<in> set (library x). provides ?P3 e"
      using provides_loaded [OF load] providingD(11) [OF P1] unfolding provides_same [OF same] by blast
    have "provider_connection_head ?P3 = Some ?a" by simp
    then have ps': "0 < length ps'" "ps' ! 0 = ?a"
      using provide_head [OF ok3] by (auto simp: address_from_def split: if_splits)
    have "provider_next ?P3 (Some ?a) = Inr None" by (simp add: provider_next_def load_provider_def)
    with provide_next [OF ok3 ps'(1)] ps'(2) have "\<not> Suc 0 < length ps'"
      by (simp add: address_from_def split: if_splits)
    with ps'(1) have "length ps' = 1" by linarith
    then have len: "length M' = 1" using provide_length [OF ok3] by simp
    obtain c' where "cell (providers ?P3) ?a = Some c'" "pl.erase c' = M' ! 0"
      using provide_at [OF ok3, of 0] len ps'(2) by auto
    then have "M' ! 0 = pl.erase (?c\<lparr>pc_next := None\<rparr>)" by simp
    with len have M': "M' = [pl.erase (?c\<lparr>pc_next := None\<rparr>)]" by (cases M') auto
    have er: "last_packet_sent (pl.erase c'') = last_packet_sent c''" for c'' by (simp add: pl.erase_def)
    have "providing x ?P3 M'"
      unfolding providing_def
    proof (intro conjI)
      show "\<exists>ps. provide_ok ?P3 ps M'" using ok3 by blast
      show "\<forall>b. (recv_addr x, b) \<in> set (outbox ?P3) \<longrightarrow> (\<exists>mem. \<exists>j < 512. b = data_datagram mem (piece_data x) j)"
        using providingD(5) [OF P1] by (simp add: Q)
    qed (use providingD(8-10) [OF P1] search data lib fields in \<open>simp_all add: M' er Q\<close>)
    moreover have "map last_packet_acked M' = [0]" using fields by (simp add: M')
    ultimately show ?thesis using call M by (intro exI [of _ ?P3] exI [of _ M']) (simp add: Q)
  qed
qed

section \<open>The fetching peer\<close>

lemma receive_single:
  assumes "receive_ok s as L" and "cell (receivers s) = [a \<mapsto> c]"
  shows "receive_ok s [a] [rl.erase c]"
proof -
  have view: "rl.view (receivers s) (receiver_connection_head s) as L" using assms(1) by (simp add: receive_ok_def)
  have "set as = {a}" using assms by (simp add: receive_ok_def)
  with rl.view_distinct [OF view] have as: "as = [a]"
    by (cases as; cases "tl as") auto
  obtain c' where "L = [c']" using rl.view_length [OF view] as by (cases L) auto
  moreover have "c' = rl.erase c" using rl.view_at [OF view, of 0] as calculation assms(2) by simp
  ultimately show ?thesis using assms(1) as by simp
qed

lemma receive_none:
  assumes "receive_ok s as L" and "cell (receivers s) = Map.empty"
  shows "receive_ok s [] []"
proof -
  have view: "rl.view (receivers s) (receiver_connection_head s) as L" using assms(1) by (simp add: receive_ok_def)
  have "as = []" using assms by (simp add: receive_ok_def)
  with rl.view_length [OF view] assms(1) show ?thesis by simp
qed

text \<open>What a file holds; a file that is not there yet will be created.\<close>

definition file_now :: "peer_s \<Rightarrow> byte list \<Rightarrow> byte list" where
  "file_now R name = (case files R name of None \<Rightarrow> [] | Some f \<Rightarrow> f)"

definition job_at :: "setting \<Rightarrow> peer_s \<Rightarrow> bool" where
  "job_at x R \<longleftrightarrow> current_job R = Some (cur_job x) \<and>
     (\<exists>job. cell (jobs R) (cur_job x) = Some job \<and> output_file_name job = out_name x)"

text \<open>
  The chunk is being received, up to packet \<open>n\<close>; or it was received and judged, and the connection has
  ended or asked for the next chunk.
\<close>

definition running :: "setting \<Rightarrow> peer_s \<Rightarrow> nat \<Rightarrow> bool" where
  "running x R n \<longleftrightarrow>
     (\<exists>a c k. cell (receivers R) = [a \<mapsto> c] \<and> rc_provider c = Some (prov_index x) \<and> chunk_list c = piece x # later x \<and>
        jchunk (jobs R) (piece x) = Some k \<and> hash_binary k = piece_hash x \<and> received_seq_num k = int n \<and>
        (case ck_data k of None \<Rightarrow> n = 0
         | Some buf \<Rightarrow> take (1024 * n) buf = take (1024 * n) (piece_data x))) \<and>
     job_at x R \<and> file_now R (out_name x) = out_before x \<and> (\<forall>q. q \<noteq> piece x \<longrightarrow> jchunk (jobs R) q = others x q)"

definition judged :: "setting \<Rightarrow> peer_s \<Rightarrow> bool" where
  "judged x R \<longleftrightarrow>
     (\<exists>k. jchunk (jobs R) (piece x) = Some k \<and> hash_binary k = piece_hash x \<and>
        (ck_status k = CHUNK_STATUS_FINISHED \<and> sha1 (piece_data x) = piece_hash x \<and>
           files R (out_name x) = Some (out_before x @ piece_data x) \<or>
         ck_status k = CHUNK_STATUS_NOT_FOUND \<and>
           (sha1 (piece_data x) \<noteq> piece_hash x \<or>
            (\<exists>t. \<not> disk_append x t (out_name x) \<or> disk_space x t < CHUNK_DATA_SIZE))))"

definition received :: "setting \<Rightarrow> peer_s \<Rightarrow> bool" where
  "received x R \<longleftrightarrow>
     job_at x R \<and> judged x R \<and>
     (case later x of
        [] \<Rightarrow> cell (receivers R) = Map.empty \<and> (\<forall>q. q \<noteq> piece x \<longrightarrow> jchunk (jobs R) q = others x q)
      | r # rs \<Rightarrow>
          (\<exists>a c. cell (receivers R) = [a \<mapsto> c] \<and> rc_provider c = Some (prov_index x) \<and> chunk_list c = r # rs) \<and>
          (\<exists>k mem. others x r = Some k \<and> jchunk (jobs R) r = Some (k\<lparr>ck_status := CHUNK_STATUS_DOWNDLOADING\<rparr>) \<and>
             (prov_addr x, get_datagram mem (hash_binary k)) \<in> set (outbox R)) \<and>
          (\<forall>q. q \<noteq> piece x \<and> q \<noteq> r \<longrightarrow> jchunk (jobs R) q = others x q))"

text \<open>
  What the fetching peer has sent to the provider: only the GET for the chunk and acknowledgements of what it
  has, as long as it does not ask for another chunk.
\<close>

definition answers :: "setting \<Rightarrow> (sockaddr_in \<times> byte list) set \<Rightarrow> nat \<Rightarrow> bool" where
  "answers x sent n \<longleftrightarrow>
     (n < 512 \<or> later x = [] \<longrightarrow>
        (\<forall>b. (prov_addr x, b) \<in> sent \<longrightarrow>
           (\<exists>mem. b = get_datagram mem (piece_hash x)) \<or> (\<exists>mem. \<exists>j \<le> n. b = ack_datagram mem j))) \<and>
     (\<exists>mem. (prov_addr x, get_datagram mem (piece_hash x)) \<in> sent) \<and>
     (\<forall>j. 1 \<le> j \<and> j \<le> n \<longrightarrow> (\<exists>mem. (prov_addr x, ack_datagram mem j) \<in> sent))"

definition fetching :: "setting \<Rightarrow> peer_s \<Rightarrow> nat \<Rightarrow> bool" where
  "fetching x R n \<longleftrightarrow>
     receive_inv R \<and> search_bt_peer (config R) (prov_addr x) = Some (prov_index x) \<and>
     peer_addr (peers (config R) ! prov_index x) = prov_addr x \<and> n \<le> 512 \<and>
     can_append R = disk_append x \<and> disk_room R = disk_space x \<and>
     answers x (set (outbox R)) n \<and> (if n < 512 then running x R n else received x R)"

lemma answers_get: "answers x A n \<Longrightarrow> answers x (insert (prov_addr x, get_datagram mem (piece_hash x)) A) n"
  unfolding answers_def by auto

lemma answers_again: "answers x A n \<Longrightarrow> j \<le> n \<Longrightarrow> answers x (insert (prov_addr x, ack_datagram mem j) A) n"
  unfolding answers_def by auto

lemma answers_next:
  assumes A: "answers x A n" and n: "n < 512"
  shows "answers x (insert (prov_addr x, ack_datagram mem (Suc n)) A) (Suc n)"
  unfolding answers_def
proof (intro conjI allI impI)
  fix b
  assume "(prov_addr x, b) \<in> insert (prov_addr x, ack_datagram mem (Suc n)) A"
  then consider "b = ack_datagram mem (Suc n)" | "(prov_addr x, b) \<in> A" by blast
  then show "(\<exists>mem. b = get_datagram mem (piece_hash x)) \<or> (\<exists>mem. \<exists>j \<le> Suc n. b = ack_datagram mem j)"
    using A n unfolding answers_def by cases (blast, meson le_SucI)
next
  fix j
  assume "1 \<le> j \<and> j \<le> Suc n"
  then consider "j = Suc n" | "1 \<le> j" "j \<le> n" by linarith
  then show "\<exists>mem'. (prov_addr x, ack_datagram mem' j) \<in> insert (prov_addr x, ack_datagram mem (Suc n)) A"
    using A unfolding answers_def by cases blast+
qed (use A in \<open>auto simp: answers_def\<close>)

lemma answers_more: "answers x A 512 \<Longrightarrow> later x \<noteq> [] \<Longrightarrow> answers x (insert e A) 512"
  unfolding answers_def by auto

lemma job_at_frame:
  assumes "job_at x R" and "job_frame (jobs R) (jobs R')" and "current_job R' = current_job R"
  shows "job_at x R'"
proof -
  obtain job where job: "cell (jobs R) (cur_job x) = Some job" "output_file_name job = out_name x"
    using assms(1) by (auto simp: job_at_def)
  have "map_option (\<lambda>job. (output_file_name job, length (chunks job))) (cell (jobs R') (cur_job x)) =
      Some (output_file_name job, length (chunks job))"
    using assms(2) job(1) by (simp add: job_frame_def)
  with job assms(1,3) show ?thesis by (auto simp: job_at_def)
qed

text \<open>The next packet, when others are still to come, and when it is the last.\<close>

lemma deliver_middle:
  assumes "cell (receivers s) a = Some c" and "chunk_list c = r # rs" and k: "jchunk (jobs s) r = Some k"
    and "chunk_ok k" and "ck_status k = CHUNK_STATUS_DOWNDLOADING" and n: "received_seq_num k \<noteq> 511"
    and size: "received_data_size (header pkt) = 1024"
  shows "deliver pkt (Some a) s = Inr (s\<lparr>ticks := (if ck_data k = None then Suc (ticks s) else ticks s),
    jobs := put_chunk (jobs s) r (stored_packet s k pkt)\<rparr>)" (is "_ = Inr ?s1")
proof -
  have save: "save_data_packet pkt (Some a) s = Inr ?s1" by (rule save_data_packet_eq [OF assms(1,2) k assms(4) size])
  have k1: "jchunk (jobs ?s1) r = Some (stored_packet s k pkt)" using k by simp
  have "save_chunk (Some a) ?s1 = Inr ?s1"
    by (rule save_chunk_incomplete [OF _ assms(2) k1]) (use assms(1) n in simp_all)
  moreover have "reset_receiver_connection (Some a) ?s1 = Inr ?s1"
    using assms(1,2,5) k1 by (simp add: reset_receiver_connection_def load_receiver_def)
  ultimately show ?thesis by (simp add: deliver_def save)
qed

lemma deliver_judged:
  assumes c: "cell (receivers s) a = Some c" "chunk_list c = r # rs"
    and k: "jchunk (jobs s) r = Some k" "chunk_ok k" "received_seq_num k = 511"
    and size: "received_data_size (header pkt) = 1024"
    and d: "ck_data (stored_packet s k pkt) = Some d" "length d = CHUNK_DATA_SIZE"
    and job: "current_job s = Some j" "cell (jobs s) j = Some job"
  shows "\<exists>t s1 t' v. s1 = s\<lparr>ticks := t, jobs := put_chunk (jobs s) r (stored_packet s k pkt)\<rparr> \<and>
    v = verdict (output_file_name job) d (hash_binary k) s1 \<and>
    deliver pkt (Some a) s = reset_receiver_connection (Some a) (s\<lparr>ticks := t', files := files (snd v),
      jobs := put_chunk (put_chunk (jobs s) r (stored_packet s k pkt)) r ((stored_packet s k pkt)
        \<lparr>ck_status := fst v, ck_data := None, received_seq_num := 0, received_byte_num := 0\<rparr>)\<rparr>) \<and>
    fst v \<noteq> CHUNK_STATUS_DOWNDLOADING"
proof -
  let ?k1 = "stored_packet s k pkt" and ?t = "if ck_data k = None then Suc (ticks s) else ticks s"
  let ?J = "put_chunk (jobs s) r ?k1"
  let ?s1 = "s\<lparr>ticks := ?t, jobs := ?J\<rparr>"
  have save: "save_data_packet pkt (Some a) s = Inr ?s1" by (rule save_data_packet_eq [OF c k(1,2) size])
  have k1: "jchunk (jobs ?s1) r = Some ?k1" using k by simp
  have "job_frame (jobs s) ?J" using k(1) by simp
  then have shape: "map_option (\<lambda>job. (output_file_name job, length (chunks job))) (cell ?J j) =
      Some (output_file_name job, length (chunks job))"
    using job(2) by (simp add: job_frame_def)
  then obtain job1 where job1: "cell ?J j = Some job1" "output_file_name job1 = output_file_name job" by auto
  define v where "v = verdict (output_file_name job) d (hash_binary k) ?s1"
  let ?k2 = "?k1\<lparr>ck_status := fst v, ck_data := None, received_seq_num := 0, received_byte_num := 0\<rparr>"
  obtain t f where f: "snd v = ?s1\<lparr>ticks := t, files := f\<rparr>" unfolding v_def using verdict_frame(1) by blast
  let ?s2 = "s\<lparr>ticks := t, files := f, jobs := put_chunk ?J r ?k2\<rparr>"
  have "save_chunk (Some a) ?s1 = Inr ((snd v)\<lparr>jobs := put_chunk (jobs ?s1) r ?k2\<rparr>)"
    using save_chunk_eq [of ?s1 a c r rs ?k1 d j job1] c k1 k(3) d job job1 unfolding v_def by simp
  also have "(snd v)\<lparr>jobs := put_chunk (jobs ?s1) r ?k2\<rparr> = ?s2" by (subst f) simp
  finally have call: "deliver pkt (Some a) s = reset_receiver_connection (Some a) ?s2"
    by (simp add: deliver_def save)
  have x: "fst v \<noteq> CHUNK_STATUS_DOWNDLOADING" using verdict_frame(2) unfolding v_def
      by (metis chunk_status.distinct(1) chunk_status.distinct(9))
  have "files (snd v) = f" by (simp add: f)
  with call x show ?thesis
    by (intro exI [of _ ?t] exI [of _ ?s1] exI [of _ t] exI [of _ v]) (simp add: v_def)
qed

lemma reset_last:
  assumes c: "cell (receivers s) a = Some c" "chunk_list c = [r]" "receiver_connection_head s = Some a"
    and p: "rc_provider c = Some p" "p < length (peers (config s))"
    and k: "jchunk (jobs s) r = Some k" "ck_status k \<noteq> CHUNK_STATUS_DOWNDLOADING"
  shows "\<exists>h hd. reset_receiver_connection (Some a) s = Inr (s\<lparr>receivers := h, receiver_connection_head := hd\<rparr>) \<and>
    cell h = (cell (receivers s))(a := None)"
proof -
  let ?h = "(receivers s)\<lparr>cell := (cell (receivers s))(a \<mapsto> c\<lparr>chunk_list := []\<rparr>)\<rparr>"
  have "reset_receiver_connection (Some a) s =
      Inr (s\<lparr>receivers := ?h\<lparr>cell := (cell ?h)(a := None)\<rparr>, receiver_connection_head := rc_next c\<rparr>)"
    using c p k
    by (simp add: reset_receiver_connection_def load_receiver_def store_receiver_def remove_receiver_connection_def
        ll_remove_def free_receiver_connection_def)
  then show ?thesis
    by (intro exI [of _ "?h\<lparr>cell := (cell ?h)(a := None)\<rparr>"] exI [of _ "rc_next c"]) simp
qed

lemma reset_next:
  assumes c: "cell (receivers s) a = Some c" "chunk_list c = r # r' # rs"
    and p: "rc_provider c = Some p" "p < length (peers (config s))"
    and k: "jchunk (jobs s) r = Some k" "ck_status k \<noteq> CHUNK_STATUS_DOWNDLOADING"
    and k': "jchunk (jobs s) r' = Some k'"
  shows "\<exists>t lt. reset_receiver_connection (Some a) s = Inr (s\<lparr>
      jobs := put_chunk (jobs s) r' (k'\<lparr>ck_status := CHUNK_STATUS_DOWNDLOADING\<rparr>),
      receivers := (receivers s)\<lparr>cell := (cell (receivers s))(a \<mapsto> c\<lparr>chunk_list := r' # rs, last_get_time := lt\<rparr>)\<rparr>,
      ticks := t,
      outbox := outbox s @ [(peer_addr (peers (config s) ! p), get_datagram (uninit s (ticks s)) (hash_binary k'))]\<rparr>)"
proof -
  let ?c = "c\<lparr>chunk_list := r' # rs\<rparr>"
  let ?s = "s\<lparr>receivers := (receivers s)\<lparr>cell := (cell (receivers s))(a \<mapsto> ?c)\<rparr>\<rparr>"
  have "reset_receiver_connection (Some a) s = start_connection (Some a) ?s"
    using c p k by (simp add: reset_receiver_connection_def load_receiver_def store_receiver_def)
  also have "\<dots> = Inr (?s\<lparr>jobs := put_chunk (jobs ?s) r' (k'\<lparr>ck_status := CHUNK_STATUS_DOWNDLOADING\<rparr>),
      receivers := (receivers ?s)\<lparr>cell := (cell (receivers ?s))(a \<mapsto>
        ?c\<lparr>last_get_time := Some (clock ?s (Suc (ticks ?s)))\<rparr>)\<rparr>,
      ticks := Suc (Suc (ticks ?s)),
      outbox := outbox ?s @ [(peer_addr (peers (config ?s) ! p),
        datagram (malloc_get_packet (uninit ?s (ticks ?s)) (hash_binary k')))]\<rparr>)"
    by (rule start_connection_eq [where rs = rs]) (use p k' in simp_all)
  finally show ?thesis
    by (intro exI [of _ "Suc (Suc (ticks s))"] exI [of _ "Some (clock s (Suc (ticks s)))"]) simp
qed

lemma verdict_facts:
  assumes "length d = CHUNK_DATA_SIZE"
  shows "fst (verdict name d h s) = CHUNK_STATUS_FINISHED \<and> sha1 d = h \<and>
       files (snd (verdict name d h s)) name = Some (file_now s name @ d) \<or>
     fst (verdict name d h s) = CHUNK_STATUS_NOT_FOUND \<and>
       (sha1 d \<noteq> h \<or> (\<exists>t. \<not> can_append s t name \<or> disk_room s t < CHUNK_DATA_SIZE))"
proof (cases "sha1 d = h \<and> can_append s (Suc (ticks s)) name \<and> disk_room s (Suc (ticks s)) \<ge> CHUNK_DATA_SIZE")
  case True
  with assms show ?thesis by (simp add: verdict_def append_chunk_def Let_def file_now_def)
next
  case False
  then have "fst (verdict name d h s) = CHUNK_STATUS_NOT_FOUND"
    by (auto simp: verdict_def append_chunk_def Let_def)
  moreover have "sha1 d \<noteq> h \<or> (\<exists>t. \<not> can_append s t name \<or> disk_room s t < CHUNK_DATA_SIZE)"
    using False by (meson not_le)
  ultimately show ?thesis by blast
qed

text \<open>The prefix of the chunk grows by one slice.\<close>

lemma stored_prefix:
  assumes "length d = CHUNK_DATA_SIZE" and "n < 512" and "chunk_ok k" and "received_seq_num k = int n"
    and pre: "case ck_data k of None \<Rightarrow> n = 0 | Some buf \<Rightarrow> take (1024 * n) buf = take (1024 * n) d"
    and slice: "take 1024 (payload pkt) = data_slice d n"
  obtains buf where "ck_data (stored_packet s k pkt) = Some buf" and "length buf = CHUNK_DATA_SIZE"
    and "take (1024 * Suc n) buf = take (1024 * Suc n) d"
proof -
  let ?old = "receive_data s k"
  let ?buf = "overwrite ?old (1024 * n) (data_slice d n)"
  have len: "length (data_slice d n) = 1024" by (rule length_data_slice [OF assms(1,2)])
  have old: "length ?old = CHUNK_DATA_SIZE" by (rule length_receive_data [OF assms(3)])
  have fit: "1024 * n + length (data_slice d n) \<le> length ?old" using assms(2) by (simp add: old len)
  have "ck_data (stored_packet s k pkt) = Some ?buf" using slice assms(4) by (simp add: stored_packet_def)
  moreover have "length ?buf = CHUNK_DATA_SIZE" using fit old by simp
  moreover have "take (1024 * n) ?old = take (1024 * n) d"
    using pre by (auto simp: receive_data_def split: option.splits)
  then have "take (1024 * Suc n) ?buf = take (1024 * Suc n) d"
    using take_overwrite [of "1024 * n" ?old "data_slice d n"] fit len
    by (simp add: data_slice_def take_add [symmetric] add.commute)
  ultimately show thesis using that by blast
qed

lemma fetching_running:
  assumes "fetching x R n" and "n < 512"
  obtains a c k where "receive_ok R [a] [rl.erase c]" and "cell (receivers R) = [a \<mapsto> c]"
    and "rc_provider c = Some (prov_index x)" and "chunk_list c = piece x # later x"
    and "jchunk (jobs R) (piece x) = Some k" and "hash_binary k = piece_hash x" and "received_seq_num k = int n"
    and "case ck_data k of None \<Rightarrow> n = 0 | Some buf \<Rightarrow> take (1024 * n) buf = take (1024 * n) (piece_data x)"
    and "chunk_ok k" and "ck_status k = CHUNK_STATUS_DOWNDLOADING"
    and "prov_index x < length (peers (config R))"
    and "distinct (piece x # later x)" and "\<forall>r \<in> set (later x). chunk_states (jobs R) r = Some CHUNK_STATUS_PENDING"
    and "job_at x R" and "file_now R (out_name x) = out_before x"
    and "\<forall>q. q \<noteq> piece x \<longrightarrow> jchunk (jobs R) q = others x q"
proof -
  from assms obtain as L where ok: "receive_ok R as L" and run: "running x R n"
    by (auto simp: fetching_def receive_inv_def)
  then obtain a c k where r: "cell (receivers R) = [a \<mapsto> c]" "rc_provider c = Some (prov_index x)"
      "chunk_list c = piece x # later x" "jchunk (jobs R) (piece x) = Some k" "hash_binary k = piece_hash x"
      "received_seq_num k = int n"
      "case ck_data k of None \<Rightarrow> n = 0 | Some buf \<Rightarrow> take (1024 * n) buf = take (1024 * n) (piece_data x)"
    unfolding running_def by blast
  from receive_single [OF ok r(1)] have ok1: "receive_ok R [a] [rl.erase c]" .
  then have jok: "jobs_ok (jobs R) (current_job R)"
    and inv: "rinv (chunk_states (jobs R)) (length (peers (config R))) [rl.erase c]" by (simp_all add: receive_ok_def)
  then have "rc_ok (chunk_states (jobs R)) (length (peers (config R))) (rl.erase c)" by (simp add: rinv_def)
  with r(2,3,4) have k: "ck_status k = CHUNK_STATUS_DOWNDLOADING" "prov_index x < length (peers (config R))"
    and pend: "\<forall>r \<in> set (later x). chunk_states (jobs R) r = Some CHUNK_STATUS_PENDING"
    by (auto simp: rc_ok_def chunk_states_def)
  have dist: "distinct (piece x # later x)" using inv r(3) by (simp add: rinv_def)
  note rest = run [unfolded running_def, THEN conjunct2]
  show thesis
    by (rule that [OF ok1 r(1-7) jobs_okD [OF jok r(4)] k dist pend rest [THEN conjunct1]
        rest [THEN conjunct2, THEN conjunct1] rest [THEN conjunct2, THEN conjunct2]])
qed

text \<open>A DATA packet arrives.\<close>

lemma running_ticks: "running x (R\<lparr>ticks := t\<rparr>) n = running x R n"
  unfolding running_def job_at_def file_now_def by simp

lemma received_ticks: "received x (R\<lparr>ticks := t\<rparr>) = received x R"
  unfolding received_def judged_def job_at_def by (simp split: list.split)

lemma fetching_ignores:
  assumes "fetching x R n" and "R' = R\<lparr>ticks := t\<rparr>"
  shows "fetching x R' n"
proof -
  have "receive_inv R' = receive_inv R" by (simp add: assms(2) receive_inv_def receive_ok_def)
  with assms show ?thesis by (simp add: fetching_def running_ticks received_ticks)
qed

lemma fetching_data_done:
  assumes R: "fetching x R 512" and x: "setting_ok x" and j: "j < 512" and alone: "later x = []"
  shows "\<exists>R'. process_inbound_udp (data_datagram mem (piece_data x) j) (prov_addr x) R = Inr R' \<and>
    fetching x R' 512 \<and> outbox R' = outbox R"
proof -
  let ?R = "R\<lparr>ticks := Suc (ticks R)\<rparr>"
  have R1: "fetching x ?R 512" by (rule fetching_ignores [OF R refl])
  then have "received x ?R" by (simp add: fetching_def)
  then have none: "cell (receivers ?R) = Map.empty" using alone by (simp add: received_def)
  obtain as L where ok: "receive_ok ?R as L" using R1 by (auto simp: fetching_def receive_inv_def)
  have "length (piece_data x) = CHUNK_DATA_SIZE" using x by (simp add: setting_ok_def)
  from receive_data_datagram [OF this j, of mem "prov_addr x" R] obtain pkt where
    step: "process_inbound_udp (data_datagram mem (piece_data x) j) (prov_addr x) R =
      process_data pkt (prov_addr x) (Some (prov_index x)) ?R"
    using R by (auto simp: fetching_def)
  have "process_data pkt (prov_addr x) (Some (prov_index x)) ?R = Inr ?R"
    using receive_search [OF receive_none [OF ok none]] by (simp add: process_data_def)
  with step R1 show ?thesis by auto
qed

lemma fetching_data:
  assumes R: "fetching x R n" and x: "setting_ok x" and j: "j < 512" and n: "n < 512"
  shows "\<exists>R' n'. process_inbound_udp (data_datagram mem (piece_data x) j) (prov_addr x) R = Inr R' \<and>
    fetching x R' n' \<and> n \<le> n' \<and> (j = n \<longrightarrow> n' = Suc n) \<and> set (outbox R) \<subseteq> set (outbox R')"
proof -
  let ?R = "R\<lparr>ticks := Suc (ticks R)\<rparr>"
  have R1: "fetching x ?R n" by (rule fetching_ignores [OF R refl])
  have lend: "length (piece_data x) = CHUNK_DATA_SIZE" using x by (simp add: setting_ok_def)
  from receive_data_datagram [OF lend j, of mem "prov_addr x" R] obtain pkt where
    step: "process_inbound_udp (data_datagram mem (piece_data x) j) (prov_addr x) R =
      process_data pkt (prov_addr x) (Some (prov_index x)) ?R"
    and seq: "sint (seq_number (header pkt)) = int j + 1" and size: "received_data_size (header pkt) = 1024"
    and slice: "take 1024 (payload pkt) = data_slice (piece_data x) j" and room: "1024 \<le> length (payload pkt)"
    using R by (auto simp: fetching_def)
  from fetching_running [OF R1 n] obtain a c k where ok: "receive_ok ?R [a] [rl.erase c]" and
    c: "cell (receivers ?R) = [a \<mapsto> c]" "rc_provider c = Some (prov_index x)" "chunk_list c = piece x # later x" and
    k: "jchunk (jobs ?R) (piece x) = Some k" "hash_binary k = piece_hash x" "received_seq_num k = int n"
      "case ck_data k of None \<Rightarrow> n = 0 | Some buf \<Rightarrow> take (1024 * n) buf = take (1024 * n) (piece_data x)"
      "chunk_ok k" "ck_status k = CHUNK_STATUS_DOWNDLOADING" and
    p: "prov_index x < length (peers (config ?R))" and
    dist: "distinct (piece x # later x)" and pend: "\<forall>r \<in> set (later x). chunk_states (jobs ?R) r = Some
        CHUNK_STATUS_PENDING" and
    job: "job_at x ?R" and before: "file_now ?R (out_name x) = out_before x" and
    "\<forall>q. q \<noteq> piece x \<longrightarrow> jchunk (jobs ?R) q = others x q" .
  then have others: "\<And>q. q \<noteq> piece x \<Longrightarrow> jchunk (jobs ?R) q = others x q" by blast
  have ca: "cell (receivers ?R) a = Some c" using c(1) by simp
  note found = process_data_found [OF ok ca c(2,3) k(1), of pkt "prov_addr x"]
  from process_data_ok [OF ok size room, of "prov_addr x" "Some (prov_index x)"] obtain R' where
    R': "process_data pkt (prov_addr x) (Some (prov_index x)) ?R = Inr R'" and inv: "receive_inv R'"
    by (auto simp: safe_iff receive_inv_def)
  have env: "search_bt_peer (config R) (prov_addr x) = Some (prov_index x)"
    "peer_addr (peers (config R) ! prov_index x) = prov_addr x" "answers x (set (outbox R)) n"
    "can_append R = disk_append x" "disk_room R = disk_space x"
    using R by (simp_all add: fetching_def)
  consider "j < n" | "n < j" | "j = n" by linarith
  then show ?thesis
  proof cases
    case 1
    then have "R' = ?R" using found R' seq k(3) by (simp add: Let_def)
    with step R' R1 1 show ?thesis by (intro exI [of _ R'] exI [of _ n]) simp
  next
    case 2
    let ?b = "ack_datagram (uninit ?R (ticks ?R)) n"
    have R'eq: "R' = ?R\<lparr>ticks := Suc (ticks ?R), outbox := outbox R @ [(prov_addr x, ?b)]\<rparr>"
      using 2 found R' seq k(3) by (simp add: Let_def send_packet_def)
    have "running x R n" using R n by (simp add: fetching_def)
    then have "running x R' n" by (simp add: R'eq running_def job_at_def file_now_def)
    moreover have "answers x (set (outbox R')) n"
      using answers_again [OF env(3) order_refl] by (simp add: R'eq)
    ultimately have "fetching x R' n" using inv env n by (simp add: fetching_def R'eq)
    with step R' 2 show ?thesis by (intro exI [of _ R'] exI [of _ n]) (simp add: R'eq subset_insertI)
  next
    case 3
    let ?b = "ack_datagram (uninit ?R (Suc (ticks ?R))) (Suc n)"
    let ?c = "c\<lparr>last_data_time := Some (clock ?R (ticks ?R)), rc_status := RECEIVER_STATUS_RECEIVED_DATA\<rparr>"
    let ?R2 = "?R\<lparr>receivers := (receivers ?R)\<lparr>cell := (cell (receivers ?R))(a \<mapsto> ?c)\<rparr>,
        ticks := Suc (Suc (ticks ?R)), outbox := outbox R @ [(prov_addr x, ?b)]\<rparr>"
    have dlv: "deliver pkt (Some a) ?R2 = Inr R'"
      using 3 found R' seq k(3) by (simp add: Let_def send_packet_def add.commute)
    have k2: "jchunk (jobs ?R2) (piece x) = Some k" using k(1) by simp
    have answer: "answers x (insert (prov_addr x, ?b) (set (outbox R))) (Suc n)" by (rule answers_next [OF env(3) n])
    from stored_prefix [OF lend n k(5,3,4) slice [unfolded 3], of ?R2] obtain buf where
      buf: "ck_data (stored_packet ?R2 k pkt) = Some buf" "length buf = CHUNK_DATA_SIZE"
        "take (1024 * Suc n) buf = take (1024 * Suc n) (piece_data x)" .
    have "fetching x R' (Suc n) \<and> set (outbox R) \<subseteq> set (outbox R')"
    proof (cases "n = 511")
      case False
      let ?R3 = "?R2\<lparr>ticks := (if ck_data k = None then Suc (ticks ?R2) else ticks ?R2),
          jobs := put_chunk (jobs ?R2) (piece x) (stored_packet ?R2 k pkt)\<rparr>"
      have R3: "R' = ?R3"
        using deliver_middle [of ?R2 a ?c "piece x" "later x" k pkt] dlv c(3) k2 k(3,5,6) False size by simp
      have "job_at x R'" by (rule job_at_frame [OF job]) (use k(1) in \<open>simp_all add: R3\<close>)
      moreover have "file_now R' (out_name x) = out_before x" using before by (simp add: R3 file_now_def)
      moreover have "\<forall>q. q \<noteq> piece x \<longrightarrow> jchunk (jobs R') q = others x q"
        by (intro allI impI) (use others k(1) in \<open>simp add: R3\<close>)
      moreover have "\<exists>a c k. cell (receivers R') = [a \<mapsto> c] \<and> rc_provider c = Some (prov_index x) \<and>
        chunk_list c = piece x # later x \<and> jchunk (jobs R') (piece x) = Some k \<and> hash_binary k = piece_hash x \<and>
        received_seq_num k = int (Suc n) \<and>
        (case ck_data k of None \<Rightarrow> Suc n = 0
         | Some buf \<Rightarrow> take (1024 * Suc n) buf = take (1024 * Suc n) (piece_data x))"
      proof (intro exI conjI)
        show "cell (receivers R') = [a \<mapsto> ?c]" using c(1) by (simp add: R3)
        show "jchunk (jobs R') (piece x) = Some (stored_packet ?R2 k pkt)" using k2 by (simp add: R3)
      qed (use buf c k seq 3 in simp_all)
      ultimately have "running x R' (Suc n)" by (simp only: running_def simp_thms)
      with inv env answer n False show ?thesis by (auto simp: fetching_def R3)
    next
      case True
      obtain jb where jb: "current_job ?R2 = Some (cur_job x)" "cell (jobs ?R2) (cur_job x) = Some jb"
        "output_file_name jb = out_name x" using job by (auto simp: job_at_def)
      have head: "receiver_connection_head ?R2 = Some a"
        using receive_list(1) [OF ok] by (simp add: address_from_def)
      have seq511: "received_seq_num k = 511" using k(3) True by simp
      have pre: "cell (receivers ?R2) a = Some ?c" "chunk_list ?c = piece x # later x"
          "rc_provider ?c = Some (prov_index x)"
        "prov_index x < length (peers (config ?R2))"
        using c(2,3) p by simp_all
      let ?k1 = "stored_packet ?R2 k pkt"
      obtain t s1 t' v where s1: "s1 = ?R2\<lparr>ticks := t, jobs := put_chunk (jobs ?R2) (piece x) ?k1\<rparr>" and
        v: "v = verdict (output_file_name jb) buf (hash_binary k) s1" and
        dlv2: "deliver pkt (Some a) ?R2 = reset_receiver_connection (Some a) (?R2\<lparr>ticks := t', files := files (snd v),
          jobs := put_chunk (put_chunk (jobs ?R2) (piece x) ?k1) (piece x)
            (?k1\<lparr>ck_status := fst v, ck_data := None, received_seq_num := 0, received_byte_num := 0\<rparr>)\<rparr>)" and
        stopped: "fst v \<noteq> CHUNK_STATUS_DOWNDLOADING"
        using deliver_judged [OF pre(1,2) k2 k(5) seq511 size buf(1,2) jb(1,2)] by (elim exE conjE) (rule that)
      let ?k2 = "?k1\<lparr>ck_status := fst v, ck_data := None, received_seq_num := 0, received_byte_num := 0\<rparr>"
      let ?J = "put_chunk (put_chunk (jobs ?R2) (piece x) ?k1) (piece x) ?k2"
      let ?s2 = "?R2\<lparr>ticks := t', files := files (snd v), jobs := ?J\<rparr>"
      have kJ: "jchunk ?J (piece x) = Some ?k2" using k2 by simp
      have othersJ: "jchunk ?J q = others x q" if "q \<noteq> piece x" for q using others [OF that] that k2 by simp
      have jobJ: "job_frame (jobs ?R) ?J"
      proof -
        have "job_frame (jobs ?R) (put_chunk (jobs ?R) (piece x) ?k1)" using k(1) by simp
        moreover have "job_frame (put_chunk (jobs ?R) (piece x) ?k1) ?J" using k(1) by simp
        ultimately show ?thesis by (rule job_frame_trans)
      qed
      have "1024 * Suc n = 524288" using True by simp
      with buf(2,3) lend have "buf = piece_data x" by simp
      with v have v': "v = verdict (out_name x) (piece_data x) (piece_hash x) s1" by (simp add: jb(3) k(2))
      have s1_env: "file_now s1 (out_name x) = out_before x" "can_append s1 = disk_append x"
          "disk_room s1 = disk_space x"
        using before env(4,5) by (simp_all add: s1 file_now_def)
      note vf = verdict_facts [OF lend, of "out_name x" "piece_hash x" s1, folded v', unfolded s1_env]
      have judged: "judged x s'" if "jchunk (jobs s') (piece x) = Some ?k2" "files s' = files (snd v)" for s'
        unfolding judged_def
      proof (intro exI conjI)
        show "jchunk (jobs s') (piece x) = Some ?k2" by (rule that(1))
        show "hash_binary ?k2 = piece_hash x" using k(2) by simp
      qed (use vf that(2) in simp)
      show ?thesis
      proof (cases "later x")
        case Nil
        from reset_last [of ?s2 a ?c "piece x" "prov_index x" ?k2] pre head kJ stopped Nil dlv dlv2 obtain h hd where
          R'eq: "R' = ?s2\<lparr>receivers := h, receiver_connection_head := hd\<rparr>"
              and h: "cell h = (cell (receivers ?s2))(a := None)"
          by auto
        have "judged x R'" by (rule judged) (use kJ in \<open>simp_all add: R'eq\<close>)
        moreover have "job_at x R'" by (rule job_at_frame [OF job]) (use jobJ in \<open>simp_all add: R'eq\<close>)
        moreover have "cell (receivers R') = Map.empty" using h c(1) by (simp add: R'eq)
        moreover have "jchunk (jobs R') q = others x q" if "q \<noteq> piece x" for q using othersJ [OF that]
            by (simp add: R'eq)
        ultimately have "received x R'" by (simp add: received_def Nil)
        with inv env answer True show ?thesis by (auto simp: fetching_def R'eq)
      next
        case (Cons r rs)
        have r: "r \<noteq> piece x" using dist Cons by auto
        obtain k' where k': "others x r = Some k'" using pend others [OF r] Cons by (auto simp: chunk_states_def)
        then have k'J: "jchunk (jobs ?s2) r = Some k'" using othersJ [OF r] by simp
        have c2: "cell (receivers ?s2) a = Some ?c" "chunk_list ?c = piece x # r # rs" using pre Cons by simp_all
        have p2: "prov_index x < length (peers (config ?s2))" using pre(4) by simp
        have kJ2: "jchunk (jobs ?s2) (piece x) = Some ?k2" using kJ by simp
        have st: "ck_status ?k2 \<noteq> CHUNK_STATUS_DOWNDLOADING" using stopped by simp
        from reset_next [OF c2 pre(3) p2 kJ2 st k'J] obtain t'' lt where
          "reset_receiver_connection (Some a) ?s2 = Inr (?s2\<lparr>
            jobs := put_chunk (jobs ?s2) r (k'\<lparr>ck_status := CHUNK_STATUS_DOWNDLOADING\<rparr>),
            receivers := (receivers ?s2)\<lparr>cell := (cell (receivers ?s2))(a \<mapsto> ?c\<lparr>chunk_list := r # rs,
                last_get_time := lt\<rparr>)\<rparr>,
            ticks := t'',
            outbox := outbox ?s2 @ [(peer_addr (peers (config ?s2) ! prov_index x), get_datagram
                (uninit ?s2 (ticks ?s2)) (hash_binary k'))]\<rparr>)"
          by blast
        then have R'eq: "R' = ?s2\<lparr>
            jobs := put_chunk ?J r (k'\<lparr>ck_status := CHUNK_STATUS_DOWNDLOADING\<rparr>),
            receivers := (receivers ?s2)\<lparr>cell := (cell (receivers ?s2))(a \<mapsto> ?c\<lparr>chunk_list := r # rs,
                last_get_time := lt\<rparr>)\<rparr>,
            ticks := t'',
            outbox := outbox R @ [(prov_addr x, ?b), (prov_addr x, get_datagram (uninit ?s2 t') (hash_binary k'))]\<rparr>"
          using dlv dlv2 env(2) by simp
        have kr: "jchunk ?J r = Some k'" using k'J by simp
        have "judged x R'" by (rule judged) (use kJ kr r in \<open>simp_all add: R'eq\<close>)
        moreover have "job_frame ?J (jobs R')" using kr by (simp add: R'eq)
        then have "job_at x R'" by (intro job_at_frame [OF job] job_frame_trans [OF jobJ]) (simp_all add: R'eq)
        moreover have "\<exists>a c. cell (receivers R') = [a \<mapsto> c] \<and> rc_provider c = Some (prov_index x) \<and>
            chunk_list c = r # rs"
          using c by (intro exI [of _ a] exI [of _ "?c\<lparr>chunk_list := r # rs, last_get_time := lt\<rparr>"]) (simp add: R'eq)
        moreover have "\<exists>k mem. others x r = Some k \<and>
            jchunk (jobs R') r = Some (k\<lparr>ck_status := CHUNK_STATUS_DOWNDLOADING\<rparr>) \<and>
            (prov_addr x, get_datagram mem (hash_binary k)) \<in> set (outbox R')"
          using k' kr by (intro exI [of _ k'] exI [of _ "uninit ?s2 t'"]) (simp add: R'eq)
        moreover have "jchunk (jobs R') q = others x q" if "q \<noteq> piece x \<and> q \<noteq> r" for q
          using othersJ that kr by (simp add: R'eq)
        ultimately have "received x R'" by (simp add: received_def Cons)
        moreover have "answers x (insert (prov_addr x, get_datagram (uninit ?s2 t') (hash_binary k'))
            (insert (prov_addr x, ?b) (set (outbox R)))) (Suc n)"
          using answers_more answer Cons True by simp
        ultimately show ?thesis using inv env True by (auto simp: fetching_def R'eq insert_commute)
      qed
    qed
    with step R' 3 show ?thesis by (intro exI [of _ R'] exI [of _ "Suc n"]) auto
  qed
qed

text \<open>The timeouts of the fetching peer: nothing, or the request is sent again.\<close>

lemma receiver_timeout_effect:
  assumes ok: "receive_ok s [a] [rl.erase c]" and c: "cell (receivers s) a = Some c"
    and p: "rc_provider c = Some p" "p < length (peers (config s))"
    and step: "receiver_control_by_timeout (Some a) s = Inr s'"
  shows "\<exists>t. s\<lparr>ticks := t\<rparr> = s' \<or> start_connection (Some a) (s\<lparr>ticks := t\<rparr>) = Inr s'"
proof -
  have crash: "andThen (cancel_receiver_connection (Some a) (s\<lparr>ticks := t\<rparr>)) (remove_receiver_connection (Some a)) =
      Inl Use_After_Free" for t
    using cancel_then_remove [OF receive_ok_ticks [OF ok], of 0] by simp
  have rc: "rc_ok (chunk_states (jobs s)) (length (peers (config s))) (rl.erase c)"
    using ok by (simp add: receive_ok_def rinv_def)
  then obtain g where get: "last_get_time c = Some g" by (auto simp: rc_ok_def)
  show ?thesis
  proof (cases "rc_status c")
    case RECEIVER_STATUS_PENGDING_DATA
    let ?w = "get_time_diff (rc_start_time c) (clock s (ticks s))" and ?g = "get_time_diff g (clock s (Suc (ticks s)))"
    have "receiver_control_by_timeout (Some a) s =
       (if ?w > 10000 then Inl Use_After_Free
        else if ?g > 4000 then start_connection (Some a) (s\<lparr>ticks := Suc (Suc (ticks s))\<rparr>)
        else Inr (s\<lparr>ticks := Suc (Suc (ticks s))\<rparr>))"
      using c p get crash RECEIVER_STATUS_PENGDING_DATA
      by (simp add: receiver_control_by_timeout_def load_receiver_def elapsed_since_def gettimeofday_def)
    with step have "(if ?w > 10000 then Inl Use_After_Free
        else if ?g > 4000 then start_connection (Some a) (s\<lparr>ticks := Suc (Suc (ticks s))\<rparr>)
        else Inr (s\<lparr>ticks := Suc (Suc (ticks s))\<rparr>)) = Inr s'" by (simp only:)
    then show ?thesis
      by (cases "?w > 10000"; cases "?g > 4000") (simp_all only: if_True if_False sum.inject sum.distinct, blast+)
  next
    case RECEIVER_STATUS_RECEIVED_DATA
    with rc obtain d where d: "last_data_time c = Some d" by (auto simp: rc_ok_def)
    let ?w = "get_time_diff d (clock s (ticks s))"
    have "receiver_control_by_timeout (Some a) s =
       (if ?w > 10000 then Inl Use_After_Free else Inr (s\<lparr>ticks := Suc (ticks s)\<rparr>))"
      using c p d crash RECEIVER_STATUS_RECEIVED_DATA
      by (simp add: receiver_control_by_timeout_def load_receiver_def elapsed_since_def gettimeofday_def)
    with step have "(if ?w > 10000 then Inl Use_After_Free else Inr (s\<lparr>ticks := Suc (ticks s)\<rparr>)) = Inr s'"
      by (simp only:)
    then show ?thesis
      by (cases "?w > 10000") (simp_all only: if_True if_False sum.inject sum.distinct, blast)
  qed
qed

lemma fetching_timeouts:
  assumes R: "fetching x R n" and step: "receivers_timeout R = Inr R'" and more: "n < 512 \<or> later x = []"
  shows "fetching x R' n \<and> set (outbox R) \<subseteq> set (outbox R')"
proof (cases "n < 512")
  case False
  then have "cell (receivers R) = Map.empty" using R more by (simp add: fetching_def received_def)
  then have "receiver_connection_head R = None"
    using R receive_none receive_list(1) by (fastforce simp: fetching_def receive_inv_def address_from_def)
  then have "R' = R" using step by (simp add: receivers_timeout_def)
  with R show ?thesis by simp
next
  case n: True
  from fetching_running [OF R n] obtain a c k where ok: "receive_ok R [a] [rl.erase c]" and
    c: "cell (receivers R) = [a \<mapsto> c]" "rc_provider c = Some (prov_index x)" "chunk_list c = piece x # later x" and
    k: "jchunk (jobs R) (piece x) = Some k" "hash_binary k = piece_hash x" "received_seq_num k = int n"
      "case ck_data k of None \<Rightarrow> n = 0 | Some buf \<Rightarrow> take (1024 * n) buf = take (1024 * n) (piece_data x)"
      "chunk_ok k" "ck_status k = CHUNK_STATUS_DOWNDLOADING" and
    p: "prov_index x < length (peers (config R))" and
    "distinct (piece x # later x)" "\<forall>r \<in> set (later x). chunk_states (jobs R) r = Some CHUNK_STATUS_PENDING" and
    job: "job_at x R" and before: "file_now R (out_name x) = out_before x" and
    "\<forall>q. q \<noteq> piece x \<longrightarrow> jchunk (jobs R) q = others x q" .
  then have others: "\<And>q. q \<noteq> piece x \<Longrightarrow> jchunk (jobs R) q = others x q" by blast
  have ca: "cell (receivers R) a = Some c" using c(1) by simp
  have head: "receiver_connection_head R = Some a" using receive_list(1) [OF ok] by (simp add: address_from_def)
  obtain m where m: "brk (receivers R) = Suc m" using receive_list(3) [OF ok] by (cases "brk (receivers R)") auto
  have loop: "receivers_timeout R = andThen (receiver_control_by_timeout (Some a) R) (\<lambda>s.
      andThen (receiver_next s (Some a)) (\<lambda>p. for_each receiver_next receiver_control_by_timeout m p s))"
    by (simp add: receivers_timeout_def head m)
  have "outcome {Use_After_Free} (receiver_control_by_timeout (Some a) R) (receiving R [a])"
    using receiver_timeout_outcome [OF ok, of 0] by simp
  with step obtain R1 where R1: "receiver_control_by_timeout (Some a) R = Inr R1" "receiving R [a] R1"
    by (cases "receiver_control_by_timeout (Some a) R") (auto simp: loop)
  then obtain L1 where ok1: "receive_ok R1 [a] L1" by (auto simp: receiving_def)
  have "receiver_next R1 (Some a) = Inr None" using receive_next [OF ok1, of 0] by (simp add: address_from_def)
  then have R': "R' = R1" using step R1(1) by (simp add: loop)
  have inv: "receive_inv R1" using ok1 by (auto simp: receive_inv_def)
  from receiver_timeout_effect [OF ok ca c(2) p R1(1)] obtain t where
    "R\<lparr>ticks := t\<rparr> = R1 \<or> start_connection (Some a) (R\<lparr>ticks := t\<rparr>) = Inr R1" by blast
  then show ?thesis
  proof
    assume "R\<lparr>ticks := t\<rparr> = R1"
    with fetching_ignores [OF R] R' show ?thesis by auto
  next
    assume start: "start_connection (Some a) (R\<lparr>ticks := t\<rparr>) = Inr R1"
    let ?c = "c\<lparr>last_get_time := Some (clock R (Suc t))\<rparr>"
    let ?k = "k\<lparr>ck_status := CHUNK_STATUS_DOWNDLOADING\<rparr>"
    have R1eq: "R1 = R\<lparr>jobs := put_chunk (jobs R) (piece x) ?k,
        receivers := (receivers R)\<lparr>cell := (cell (receivers R))(a \<mapsto> ?c)\<rparr>, ticks := Suc (Suc t),
        outbox := outbox R @ [(prov_addr x, get_datagram (uninit R t) (piece_hash x))]\<rparr>"
      using start start_connection_eq [of "R\<lparr>ticks := t\<rparr>" a c "piece x" "later x" k "prov_index x"] ca c(2,3) k(1,2) p R
      by (simp add: fetching_def eq_commute)
    have "job_at x R1" by (rule job_at_frame [OF job]) (use k(1) in \<open>simp_all add: R1eq\<close>)
    moreover have "file_now R1 (out_name x) = out_before x" using before by (simp add: R1eq file_now_def)
    moreover have "\<forall>q. q \<noteq> piece x \<longrightarrow> jchunk (jobs R1) q = others x q"
      by (intro allI impI) (use others k(1) in \<open>simp add: R1eq\<close>)
    moreover have "\<exists>a c k. cell (receivers R1) = [a \<mapsto> c] \<and> rc_provider c = Some (prov_index x) \<and>
        chunk_list c = piece x # later x \<and> jchunk (jobs R1) (piece x) = Some k \<and> hash_binary k = piece_hash x \<and>
        received_seq_num k = int n \<and>
        (case ck_data k of None \<Rightarrow> n = 0
         | Some buf \<Rightarrow> take (1024 * n) buf = take (1024 * n) (piece_data x))"
    proof (intro exI conjI)
      show "cell (receivers R1) = [a \<mapsto> ?c]" using c(1) by (simp add: R1eq)
      show "jchunk (jobs R1) (piece x) = Some ?k" using k(1) by (simp add: R1eq)
    qed (use c k in simp_all)
    ultimately have "running x R1 n" by (simp only: running_def simp_thms)
    moreover have "answers x (set (outbox R1)) n"
      using R answers_get by (simp add: R1eq fetching_def)
    ultimately have "fetching x R1 n" using R inv n by (simp add: fetching_def R1eq)
    with R' show ?thesis by (simp add: R1eq subset_insertI)
  qed
qed

end
