(* ===== verification/Chunk_Transfer.thy ===== *)
theory Chunk_Transfer imports Transfer_Sides begin

text \<open>
  The transfer of one chunk between two peers, each running the handlers and tasks of its main loop,
  over a network that may lose, delay, reorder and duplicate datagrams: every datagram a peer ever
  sent to the other may arrive at any time, any number of times, or never.
\<close>

section \<open>Steps\<close>

record session =
  prov :: peer_s
  recv :: peer_s

text \<open>
  One step: a task of a main loop, or the arrival of a datagram from the other peer. A task or
  handler that faults is not a step.
\<close>

inductive session_step :: "setting \<Rightarrow> session \<Rightarrow> session \<Rightarrow> bool" for x :: setting where
  prov_sends:
    "all_provider_connection_send_data (prov S) = Inr P \<Longrightarrow> session_step x S (S\<lparr>prov := P\<rparr>)"
| prov_timeouts:
    "providers_timeout (prov S) = Inr P \<Longrightarrow> session_step x S (S\<lparr>prov := P\<rparr>)"
| recv_timeouts:
    "receivers_timeout (recv S) = Inr R \<Longrightarrow> session_step x S (S\<lparr>recv := R\<rparr>)"
| to_recv:
    "(recv_addr x, b) \<in> set (outbox (prov S)) \<Longrightarrow> process_inbound_udp b (prov_addr x) (recv S) = Inr R \<Longrightarrow>
     session_step x S (S\<lparr>recv := R\<rparr>)"
| to_prov:
    "(prov_addr x, b) \<in> set (outbox (recv S)) \<Longrightarrow> process_inbound_udp b (recv_addr x) (prov S) = Inr P \<Longrightarrow>
     session_step x S (S\<lparr>prov := P\<rparr>)"

section \<open>The session\<close>

text \<open>
  Behind every step: the connection of the provider, if there is one, has at most \<open>n\<close> packets
  acknowledged, and the fetching peer has received \<open>n\<close> packets in order.
\<close>

definition session_at :: "setting \<Rightarrow> session \<Rightarrow> int list \<Rightarrow> nat \<Rightarrow> bool" where
  "session_at x S acked n \<longleftrightarrow>
     (\<exists>M. providing x (prov S) M \<and> map last_packet_acked M = acked) \<and> fetching x (recv S) n \<and>
     (\<forall>m \<in> set acked. 0 \<le> m \<and> m \<le> int n)"

text \<open>
  The start: no connection of the provider yet, the request has been sent, and the chunk is the last of its
  connection, so that no DATA packet of it can be taken for one of a later chunk.
\<close>

definition session_start :: "setting \<Rightarrow> session \<Rightarrow> bool" where
  "session_start x S \<longleftrightarrow> setting_ok x \<and> later x = [] \<and> providing x (prov S) [] \<and> fetching x (recv S) 0"

lemma session_start_at: "session_start x S \<Longrightarrow> session_at x S [] 0"
  by (auto simp: session_start_def session_at_def)

lemma acked_le_sent:
  assumes "providing x P [c]"
  shows "0 \<le> last_packet_acked c" and "last_packet_acked c \<le> last_packet_sent c" and "last_packet_sent c \<le> 512"
proof -
  obtain a c0 where "pl.erase c0 = c" "serves (has_chunks P) (length (peers (config P))) c0"
    by (rule providing_one [OF assms])
  then have "pc_ok c" unfolding serves_def by (metis erased_provider(3))
  then show "0 \<le> last_packet_acked c" "last_packet_acked c \<le> last_packet_sent c" "last_packet_sent c \<le> 512"
    by (simp_all add: pc_ok_def)
qed

lemma session_ack:
  assumes P: "providing x P M" and acked: "\<forall>m \<in> set (map last_packet_acked M). 0 \<le> m \<and> m \<le> int n" and "j \<le> n" "n \<le> 512"
  shows "\<exists>P' M'. process_inbound_udp (ack_datagram mem j) (recv_addr x) P = Inr P' \<and> providing x P' M' \<and>
    outbox P' = outbox P \<and> (\<forall>m \<in> set (map last_packet_acked M'). 0 \<le> m \<and> m \<le> int n) \<and>
    (M \<noteq> [] \<and> M' = [] \<longrightarrow> n = 512)"
proof -
  have j: "j \<le> 512" using assms(3,4) by simp
  from providing_ack [OF P j, of mem] obtain P' M' where
    P': "process_inbound_udp (ack_datagram mem j) (recv_addr x) P = Inr P'" "providing x P' M'" "outbox P' = outbox P"
    and none: "M = [] \<longrightarrow> M' = []"
    and one: "\<forall>c m. M = [c] \<and>
       m = (if last_packet_acked c < int j \<and> int j \<le> last_packet_sent c then int j else last_packet_acked c) \<longrightarrow>
       map last_packet_acked M' = (if m = 512 then [] else [m])" by blast
  have "(\<forall>m \<in> set (map last_packet_acked M'). 0 \<le> m \<and> m \<le> int n) \<and> (M \<noteq> [] \<and> M' = [] \<longrightarrow> n = 512)"
    using providing_cases [OF P]
  proof (elim disjE exE)
    fix c
    assume M: "M = [c]"
    define m where
      "m = (if last_packet_acked c < int j \<and> int j \<le> last_packet_sent c then int j else last_packet_acked c)"
    have "0 \<le> m" "m \<le> int n" using acked M assms(3) by (auto simp: m_def)
    moreover have "map last_packet_acked M' = (if m = 512 then [] else [m])" using one M m_def by blast
    ultimately show ?thesis using assms(4) by (auto split: if_splits)
  qed (use none in simp)
  with P' show ?thesis by blast
qed

lemma session_step_at:
  assumes x: "setting_ok x" and alone: "later x = []" and at: "session_at x S acked n" and step: "session_step x S S'"
  shows "\<exists>acked' n'. session_at x S' acked' n' \<and> n \<le> n' \<and> (acked \<noteq> [] \<and> acked' = [] \<longrightarrow> n' = 512)"
proof -
  from at obtain M where P: "providing x (prov S) M" and M: "map last_packet_acked M = acked" and
    R: "fetching x (recv S) n" and le: "\<forall>m \<in> set acked. 0 \<le> m \<and> m \<le> int n" by (auto simp: session_at_def)
  have n: "n \<le> 512" using R by (simp add: fetching_def)
  from step show ?thesis
  proof (cases rule: session_step.cases)
    case (prov_sends P')
    from providing_sends [OF x P prov_sends(2)] M le R prov_sends(1) show ?thesis
      by (auto simp: session_at_def intro!: exI [of _ acked] exI [of _ n])
  next
    case (prov_timeouts P')
    from providing_timeouts [OF P prov_timeouts(2)] M le R prov_timeouts(1) show ?thesis
      by (auto simp: session_at_def intro!: exI [of _ acked] exI [of _ n])
  next
    case (recv_timeouts R')
    from fetching_timeouts [OF R recv_timeouts(2)] alone P M le recv_timeouts(1) show ?thesis
      by (auto simp: session_at_def intro!: exI [of _ acked] exI [of _ n])
  next
    case (to_recv b R')
    from providingD(5) [OF P to_recv(2)] obtain mem j where j: "j < 512" "b = data_datagram mem (piece_data x) j"
      by blast
    obtain n' where n': "n \<le> n'" "fetching x R' n'"
    proof (cases "n < 512")
      case True
      from fetching_data [OF R x j(1) True, of mem] to_recv(3) j(2) show ?thesis using that by auto
    next
      case False
      with n have "n = 512" by simp
      with fetching_data_done [OF _ x j(1) alone, of "recv S" mem] R to_recv(3) j(2) show ?thesis using that by auto
    qed
    moreover have "\<forall>m \<in> set acked. 0 \<le> m \<and> m \<le> int n'" using le n'(1) by fastforce
    ultimately show ?thesis using P M to_recv(1) by (auto simp: session_at_def intro!: exI [of _ acked] exI [of _ n'])
  next
    case (to_prov b P')
    have "answers x (set (outbox (recv S))) n" using R by (simp add: fetching_def)
    with to_prov(2) consider mem where "b = get_datagram mem (piece_hash x)" | mem j where "j \<le> n"
        "b = ack_datagram mem j"
      using alone unfolding answers_def by blast
    then show ?thesis
    proof cases
      case 1
      from providing_get [OF x P, of mem] obtain M' where
        "providing x P' M'" "map last_packet_acked M' = (if M = [] then [0] else map last_packet_acked M)"
        using to_prov(3) 1 by auto
      then have "session_at x S' (if M = [] then [0] else acked) n" using M le R to_prov(1)
          by (auto simp: session_at_def)
      then show ?thesis using M by fastforce
    next
      case 2
      from session_ack [OF P _ 2(1) n, of mem] le M obtain M' where
        M': "providing x P' M'" "\<forall>m \<in> set (map last_packet_acked M'). 0 \<le> m \<and> m \<le> int n"
          "M \<noteq> [] \<and> M' = [] \<longrightarrow> n = 512"
        using to_prov(3) 2(2) by auto
      then have "session_at x S' (map last_packet_acked M') n" using R to_prov(1) by (auto simp: session_at_def)
      with M'(3) M show ?thesis by (intro exI [of _ "map last_packet_acked M'"] exI [of _ n]) auto
    qed
  qed
qed

definition session_inv :: "setting \<Rightarrow> session \<Rightarrow> bool" where
  "session_inv x S \<longleftrightarrow> setting_ok x \<and> later x = [] \<and> (\<exists>acked n. session_at x S acked n)"

interpretation session: transition_invariant "session_step x" "session_inv x" for x
  by unfold_locales (use session_step_at in \<open>unfold session_inv_def, blast\<close>)

lemma session_reachable:
  assumes "session_start x S" and "(session_step x)\<^sup>*\<^sup>* S S'"
  shows "\<exists>acked n. session_at x S' acked n"
proof -
  have "session_inv x S"
    using session_start_at [OF assms(1)] assms(1) by (auto simp: session_inv_def session_start_def)
  from session.reachable_inv [OF this assms(2)] show ?thesis by (simp add: session_inv_def)
qed

section \<open>Completion\<close>

definition session_left :: "int list \<Rightarrow> nat \<Rightarrow> nat" where
  "session_left acked n = (512 - n) + (case acked of [] \<Rightarrow> 513 | m # _ \<Rightarrow> nat (512 - m))"

text \<open>If nothing is in flight, the provider's next task sends the next packet.\<close>

lemma session_sends:
  assumes x: "setting_ok x" and P: "providing x (prov S) [c]" and more: "last_packet_acked c < 512"
  shows "\<exists>S' c'. (session_step x)\<^sup>*\<^sup>* S S' \<and> recv S' = recv S \<and> providing x (prov S') [c'] \<and>
    last_packet_acked c' = last_packet_acked c \<and> last_packet_acked c < last_packet_sent c'"
proof (cases "last_packet_acked c < last_packet_sent c")
  case True
  with P show ?thesis by blast
next
  case False
  with acked_le_sent [OF P] have eq: "last_packet_sent c = last_packet_acked c" by simp
  obtain ps where "provide_ok (prov S) ps [c]" using P by (auto simp: providing_def)
  from send_all_ok [OF this] obtain P' where send: "all_provider_connection_send_data (prov S) = Inr P'"
    by (auto simp: safe_iff)
  from providing_sends [OF x P send] obtain M' where M': "providing x P' M'"
    "map last_packet_acked M' = [last_packet_acked c]" "map last_packet_sent M' = [last_packet_sent c + 1]"
    using eq more by auto
  then obtain c' where "M' = [c']" "last_packet_acked c' = last_packet_acked c"
    "last_packet_sent c' = last_packet_sent c + 1" by (cases M') auto
  with M'(1) eq session_step.prov_sends [OF send, of x] show ?thesis
    by (intro exI [of _ "S\<lparr>prov := P'\<rparr>"] exI [of _ c']) auto
qed

lemma session_progress:
  assumes x: "setting_ok x" and at: "session_at x S acked n" and n: "n < 512"
  shows "\<exists>S' acked' n'. (session_step x)\<^sup>*\<^sup>* S S' \<and> session_at x S' acked' n' \<and>
    session_left acked' n' < session_left acked n"
proof -
  from at obtain M where P: "providing x (prov S) M" and M: "map last_packet_acked M = acked" and
    R: "fetching x (recv S) n" and le: "\<forall>m \<in> set acked. 0 \<le> m \<and> m \<le> int n" by (auto simp: session_at_def)
  have ans: "answers x (set (outbox (recv S))) n" using R by (simp add: fetching_def)
  show ?thesis
    using providing_cases [OF P]
  proof (elim disjE exE)
    assume none: "M = []"
    from ans obtain mem where get: "(prov_addr x, get_datagram mem (piece_hash x)) \<in> set (outbox (recv S))"
      unfolding answers_def by blast
    from providing_get [OF x P, of mem] none obtain P' M' where
      P': "process_inbound_udp (get_datagram mem (piece_hash x)) (recv_addr x) (prov S) = Inr P'" "providing x P' M'"
        "map last_packet_acked M' = [0]" by auto
    then have "session_at x (S\<lparr>prov := P'\<rparr>) [0] n" using R by (auto simp: session_at_def)
    moreover have "(session_step x)\<^sup>*\<^sup>* S (S\<lparr>prov := P'\<rparr>)"
      using session_step.to_prov [OF get P'(1)] by blast
    moreover have "session_left [0] n < session_left acked n" using none M by (simp add: session_left_def)
    ultimately show ?thesis by blast
  next
    fix c
    assume one: "M = [c]"
    let ?m = "last_packet_acked c"
    have m: "0 \<le> ?m" "?m \<le> int n" "acked = [?m]" using le M one by auto
    have more: "?m < 512" using m n by linarith
    from session_sends [OF x P [unfolded one] more] obtain S1 c1 where
      S1: "(session_step x)\<^sup>*\<^sup>* S S1" "recv S1 = recv S" "providing x (prov S1) [c1]" "last_packet_acked c1 = ?m"
        "?m < last_packet_sent c1" by blast
    show ?thesis
    proof (cases "?m = int n")
      case True
      from providingD(4) [OF S1(3), of c1 n] S1(5) True obtain mem where
        data: "(recv_addr x, data_datagram mem (piece_data x) n) \<in> set (outbox (prov S1))" by auto
      from fetching_data [OF R x n n, of mem] obtain R' where
        R': "process_inbound_udp (data_datagram mem (piece_data x) n) (prov_addr x) (recv S1) = Inr R'"
          "fetching x R' (Suc n)" using S1(2) by auto
      have "(session_step x)\<^sup>*\<^sup>* S (S1\<lparr>recv := R'\<rparr>)"
        using S1(1) session_step.to_recv [OF data R'(1)] by (rule rtranclp.rtrancl_into_rtrancl)
      moreover have "session_at x (S1\<lparr>recv := R'\<rparr>) acked (Suc n)"
        using S1(3,4) R'(2) m by (auto simp: session_at_def intro!: exI [of _ "[c1]"])
      moreover have "session_left acked (Suc n) < session_left acked n" using n m by (simp add: session_left_def)
      ultimately show ?thesis by blast
    next
      case False
      define j where "j = nat ?m + 1"
      have j: "1 \<le> j" "j \<le> n" "int j = ?m + 1" using m(1,2) False by (auto simp: j_def)
      with ans obtain mem where ack: "(prov_addr x, ack_datagram mem j) \<in> set (outbox (recv S1))"
        unfolding answers_def S1(2) by blast
      have "j \<le> 512" using j n by simp
      from providing_ack [OF S1(3) this, of mem] obtain P' M' where
        P': "process_inbound_udp (ack_datagram mem j) (recv_addr x) (prov S1) = Inr P'" "providing x P' M'" and
        "\<forall>c m. [c1] = [c] \<and>
          m = (if last_packet_acked c < int j \<and> int j \<le> last_packet_sent c then int j else last_packet_acked c) \<longrightarrow>
          map last_packet_acked M' = (if m = 512 then [] else [m])" by blast
      then have M': "map last_packet_acked M' = [int j]" using S1(4,5) j n by auto
      have "(session_step x)\<^sup>*\<^sup>* S (S1\<lparr>prov := P'\<rparr>)"
        using S1(1) session_step.to_prov [OF ack P'(1)] by (rule rtranclp.rtrancl_into_rtrancl)
      moreover have "session_at x (S1\<lparr>prov := P'\<rparr>) [int j] n"
        using P'(2) M' R S1(2) j m by (auto simp: session_at_def)
      moreover have "session_left [int j] n < session_left acked n" using m j more by (simp add: session_left_def)
      ultimately show ?thesis by blast
    qed
  qed
qed

lemma session_completes:
  assumes "setting_ok x" and "session_at x S acked n"
  shows "\<exists>S' acked'. (session_step x)\<^sup>*\<^sup>* S S' \<and> session_at x S' acked' 512"
  using assms(2)
proof (induction "session_left acked n" arbitrary: S acked n rule: less_induct)
  case less
  show ?case
  proof (cases "n < 512")
    case False
    moreover have "n \<le> 512" using less.prems by (simp add: session_at_def fetching_def)
    ultimately have "n = 512" by simp
    with less.prems show ?thesis by blast
  next
    case True
    from session_progress [OF assms(1) less.prems True] obtain S1 acked1 n1 where
      S1: "(session_step x)\<^sup>*\<^sup>* S S1" "session_at x S1 acked1 n1" "session_left acked1 n1 < session_left acked n"
          by blast
    from less.hyps [OF S1(3,2)] S1(1) show ?thesis by (meson rtranclp_trans)
  qed
qed

text \<open>Behind the last packet the provider still has to hear of it.\<close>

definition serving :: "session \<Rightarrow> bool" where
  "serving S \<longleftrightarrow> (\<exists>a. cell (providers (prov S)) a \<noteq> None)"

lemma serving_iff:
  assumes "session_at x S acked n"
  shows "serving S \<longleftrightarrow> acked \<noteq> []"
proof -
  from assms obtain M where P: "providing x (prov S) M" and M: "map last_packet_acked M = acked"
    by (auto simp: session_at_def)
  obtain ps where ok: "provide_ok (prov S) ps M" using P by (auto simp: providing_def)
  then have "ps = [] \<longleftrightarrow> \<not> serving S"
    using dom_eq_empty_conv [of "cell (providers (prov S))"]
    by (auto simp: provide_ok_def serving_def fun_eq_iff simp del: dom_eq_empty_conv)
  with provide_length [OF ok] M show ?thesis by auto
qed

lemma session_closes:
  assumes x: "setting_ok x" and "session_at x S [m] 512"
  shows "\<exists>S1 S2 m'. (session_step x)\<^sup>*\<^sup>* S S1 \<and> session_step x S1 S2 \<and> session_at x S1 [m'] 512 \<and>
      session_at x S2 [] 512"
  using assms(2)
proof (induction "nat (512 - m)" arbitrary: S m rule: less_induct)
  case less
  from less.prems obtain M where P: "providing x (prov S) M" and M: "map last_packet_acked M = [m]" and
    R: "fetching x (recv S) 512" and m: "0 \<le> m" "m \<le> 512" by (auto simp: session_at_def)
  then obtain c where c: "M = [c]" "last_packet_acked c = m" by (cases M) auto
  have ans: "answers x (set (outbox (recv S))) 512" using R by (simp add: fetching_def)
  obtain S1 c1 where S1: "(session_step x)\<^sup>*\<^sup>* S S1" "recv S1 = recv S" "providing x (prov S1) [c1]"
      "last_packet_acked c1 = m" "m < 512 \<longrightarrow> m < last_packet_sent c1"
    using session_sends [OF x P [unfolded c(1)]] P c by (cases "m < 512") auto
  define j where "j = (if m < 512 then nat m + 1 else 512)"
  have j: "1 \<le> j" "j \<le> 512" "int j = (if m < 512 then m + 1 else 512)" using m by (auto simp: j_def)
  with ans obtain mem where ack: "(prov_addr x, ack_datagram mem j) \<in> set (outbox (recv S1))"
    unfolding answers_def S1(2) by blast
  from providing_ack [OF S1(3) j(2), of mem] obtain P' M' where
    P': "process_inbound_udp (ack_datagram mem j) (recv_addr x) (prov S1) = Inr P'" "providing x P' M'" and
    "\<forall>c m. [c1] = [c] \<and>
      m = (if last_packet_acked c < int j \<and> int j \<le> last_packet_sent c then int j else last_packet_acked c) \<longrightarrow>
      map last_packet_acked M' = (if m = 512 then [] else [m])" by blast
  then have M': "map last_packet_acked M' = (if j = 512 then [] else [int j])"
    using S1(4,5) j m by (auto split: if_splits)
  have step: "session_step x S1 (S1\<lparr>prov := P'\<rparr>)" by (rule session_step.to_prov [OF ack P'(1)])
  have at1: "session_at x S1 [m] 512" using S1(2,3,4) R m by (auto simp: session_at_def intro!: exI [of _ "[c1]"])
  show ?case
  proof (cases "j = 512")
    case True
    then have "session_at x (S1\<lparr>prov := P'\<rparr>) [] 512" using P'(2) M' R S1(2) by (auto simp: session_at_def)
    with S1(1) step at1 show ?thesis by blast
  next
    case False
    then have "session_at x (S1\<lparr>prov := P'\<rparr>) [int j] 512"
      using P'(2) M' R S1(2) j(2) by (auto simp: session_at_def)
    moreover have "nat (512 - int j) < nat (512 - m)" using False j m by (auto split: if_splits)
    ultimately obtain S2 S3 m' where
      "(session_step x)\<^sup>*\<^sup>* (S1\<lparr>prov := P'\<rparr>) S2" "session_step x S2 S3" "session_at x S2 [m'] 512"
          "session_at x S3 [] 512"
      using less.hyps by blast
    with S1(1) step show ?thesis by (meson rtranclp.rtrancl_into_rtrancl rtranclp_trans)
  qed
qed

lemma session_serves:
  assumes x: "setting_ok x" and at: "session_at x S acked n"
  shows "\<exists>S' m acked'. (session_step x)\<^sup>*\<^sup>* S S' \<and> session_at x S' (m # acked') n"
proof (cases acked)
  case (Cons m acked')
  with at show ?thesis by blast
next
  case Nil
  from at obtain M where P: "providing x (prov S) M" "map last_packet_acked M = acked" and R: "fetching x (recv S) n"
    by (auto simp: session_at_def)
  from R obtain mem where get: "(prov_addr x, get_datagram mem (piece_hash x)) \<in> set (outbox (recv S))"
    unfolding fetching_def answers_def by blast
  from providing_get [OF x P(1), of mem] Nil P(2) obtain P' M' where
    P': "process_inbound_udp (get_datagram mem (piece_hash x)) (recv_addr x) (prov S) = Inr P'" "providing x P' M'"
      "map last_packet_acked M' = [0]" by auto
  then have "session_at x (S\<lparr>prov := P'\<rparr>) [0] n" using R by (auto simp: session_at_def)
  with session_step.to_prov [OF get P'(1)] show ?thesis by blast
qed

lemma session_ends:
  assumes x: "setting_ok x" and at: "session_at x S acked n"
  shows "\<exists>S1 S2 m. (session_step x)\<^sup>*\<^sup>* S S1 \<and> session_step x S1 S2 \<and> session_at x S1 [m] 512 \<and> session_at x S2 [] 512"
proof -
  from session_completes [OF assms] obtain Sa as where Sa: "(session_step x)\<^sup>*\<^sup>* S Sa" "session_at x Sa as 512" by blast
  from session_serves [OF x Sa(2)] obtain Sb m ms where Sb: "(session_step x)\<^sup>*\<^sup>* Sa Sb" "session_at x Sb (m # ms) 512"
    by blast
  then obtain M where "providing x (prov Sb) M" "map last_packet_acked M = m # ms" by (auto simp: session_at_def)
  with providing_cases have "ms = []" by fastforce
  with session_closes [OF x] Sb(2) obtain S1 S2 m' where
    "(session_step x)\<^sup>*\<^sup>* Sb S1" "session_step x S1 S2" "session_at x S1 [m'] 512" "session_at x S2 [] 512" by blast
  with Sa(1) Sb(1) show ?thesis by (meson rtranclp_trans)
qed

section \<open>An example session\<close>

text \<open>One peer serves its only chunk, with the digest \<open>h\<close> announced for it, to another one.\<close>

definition example_setting :: "byte list \<Rightarrow> setting" where
  "example_setting h =
     \<lparr>prov_addr = \<lparr>sin_port = 7, sin_addr = 6\<rparr>, recv_addr = \<lparr>sin_port = 5, sin_addr = 6\<rparr>,
      prov_index = 0, recv_index = 0, piece = (0, 0), piece_hash = h, owned_index = 0,
      piece_data = replicate CHUNK_DATA_SIZE 9, disk_append = \<lambda>_ _. True, disk_space = \<lambda>_. CHUNK_DATA_SIZE,
          later = [], others = \<lambda>_. None, cur_job = 0,
      out_name = [0x6f], out_before = [], library = [(h, replicate CHUNK_DATA_SIZE 9)]\<rparr>"

definition example_owner :: "byte list \<Rightarrow> peer_s" where
  "example_owner h = example_peer\<lparr>has_chunks := [(example_chunk 0 1)
     \<lparr>hash_binary := h, ck_data := Some (replicate CHUNK_DATA_SIZE 9)\<rparr>]\<rparr>"

definition example_fetcher :: "byte list \<Rightarrow> peer_s" where
  "example_fetcher h =
     (example_fetching \<lparr>tv_sec = 0, tv_usec = 0\<rparr>
        ((example_chunk 0 1)\<lparr>hash_binary := h, ck_status := CHUNK_STATUS_DOWNDLOADING\<rparr>))
       \<lparr>can_append := \<lambda>_ _. True, disk_room := \<lambda>_. CHUNK_DATA_SIZE,
        config := (config example_peer)\<lparr>peers := [\<lparr>peer_id = 1, peer_addr = \<lparr>sin_port = 7, sin_addr = 6\<rparr>\<rparr>]\<rparr>,
        outbox := [(\<lparr>sin_port = 7, sin_addr = 6\<rparr>, get_datagram (\<lambda>_. 0) h)]\<rparr>"

lemma example_session:
  assumes "length h = 20"
  shows "session_start (example_setting h) \<lparr>prov = example_owner h, recv = example_fetcher h\<rparr>"
proof -
  let ?k = "(example_chunk 0 1)\<lparr>hash_binary := h, ck_status := CHUNK_STATUS_DOWNDLOADING\<rparr>"
  let ?t = "\<lparr>tv_sec = 0, tv_usec = 0\<rparr>" and ?x = "example_setting h" and ?R = "example_fetcher h"
  have owner: "provide_ok (example_owner h) [] []"
    by (simp add: example_owner_def provide_ok_def pl.view_def empty_heap_def heap_ok_def owned_ok_def)
  have P: "providing ?x (example_owner h) []"
    unfolding providing_def
  proof (intro conjI)
    show "\<exists>ps. provide_ok (example_owner h) ps []" using owner by blast
  qed (simp_all add: example_owner_def example_setting_def seach_owned_chunk_def search_bt_peer_def provides_def
      load_chunk_def)
  have "chunk_ok ?k" using assms by (simp add: example_chunk_def chunk_ok_def)
  then have "receive_ok (example_fetching ?t ?k) [0] [example_request]" by (rule example_fetching_receive) simp
  then have "receive_ok ?R [0] [example_request]"
    by (simp add: receive_ok_def example_fetcher_def example_fetching_def)
  then have inv: "receive_inv ?R" by (auto simp: receive_inv_def)
  have run: "running ?x ?R 0"
    unfolding running_def
  proof (intro exI conjI)
    show "cell (receivers ?R) = [0 \<mapsto> example_request]"
      by (simp add: example_fetcher_def example_fetching_def)
    show "jchunk (jobs ?R) (piece ?x) = Some ?k"
      by (simp add: example_fetcher_def example_fetching_def example_setting_def jchunk_example)
  qed (simp_all add: example_request_def example_setting_def example_chunk_def job_at_def file_now_def
      example_fetcher_def example_fetching_def jchunk_example)
  have ans: "answers ?x (set (outbox ?R)) 0"
    by (auto simp: answers_def example_fetcher_def example_setting_def)
  have "fetching ?x ?R 0"
    using inv run ans
    by (simp add: fetching_def) (simp add: example_fetcher_def example_setting_def search_bt_peer_def)
  with P assms show ?thesis by (simp add: session_start_def setting_ok_def) (simp add: example_setting_def)
qed

section \<open>Properties\<close>

lemma acked_in_heap:
  assumes "providing x P M" and "cell (providers P) a = Some c"
  shows "last_packet_acked c \<in> set (map last_packet_acked M)"
proof -
  obtain ps where ok: "provide_ok P ps M" using assms(1) by (auto simp: providing_def)
  then have "a \<in> set ps" using assms(2) by (auto simp: provide_ok_def)
  then obtain i where i: "i < length ps" "ps ! i = a" by (auto simp: in_set_conv_nth)
  with provide_at [OF ok, of i] provide_length [OF ok] assms(2) have "M ! i = pl.erase c" "i < length M" by auto
  then show ?thesis by (metis erased_provider(4) length_map nth_map nth_mem)
qed









end
