(* ===== verification/Chunk_Files.thy ===== *)
theory Chunk_Files imports Job begin

text \<open>
  Files of chunk hashes: \<open>make_chunks\<close> of \<open>chunk.c\<close> and the tool \<open>make_chunks.c\<close> that prints such a
  file, \<open>malloc_new_job\<close> of \<open>job.c\<close> and \<open>init_hasChunks\<close> of \<open>peer.c\<close> that read it.

  The readers pass each line to \<open>sscanf("%d %s")\<close> with a buffer of 40 bytes for the 40 hexadecimal
  digits and their terminating zero. How many bytes the stack frame really leaves there before
  something that matters is the parameter \<open>room\<close>; the declaration guarantees 40.
\<close>

section \<open>Making chunks\<close>

abbreviation (input) BT_CHUNK_SIZE :: nat where "BT_CHUNK_SIZE \<equiv> 524288"

text \<open>\<open>slots\<close> is the number of entries of \<open>chunk_hashes\<close>; \<open>mem\<close> the stack memory \<open>shahash\<close> finds.\<close>

function make_chunks :: "(nat \<Rightarrow> byte) \<Rightarrow> nat \<Rightarrow> byte list \<Rightarrow> byte list list result" where
  "make_chunks mem slots input =
     (if input = [] then Inr []
      else let buffer = take BT_CHUNK_SIZE input; numbytes = length buffer
           in case shahash mem buffer (of_nat numbytes) of
                None \<Rightarrow> Inl Endless_Loop
              | Some hash \<Rightarrow>
                  if slots = 0 then Inl Buffer_Overflow
                  else andThen (make_chunks mem (slots - 1) (drop BT_CHUNK_SIZE input)) (\<lambda>hashes.
                       Inr (hash # hashes)))"
  by pat_completeness auto
termination
  by (relation "measure (\<lambda>(mem, slots, input). length input)") auto

declare make_chunks.simps [simp del]

text \<open>\<open>ceil(length / BT_CHUNK_SIZE)\<close>, exact in double precision for files below 8 PB.\<close>

definition get_numchunks :: "byte list \<Rightarrow> nat" where
  "get_numchunks input = (length input + (BT_CHUNK_SIZE - 1)) div BT_CHUNK_SIZE"

text \<open>One line of the output: \<open>printf("%d %s\\n", i, ascii)\<close>.\<close>

definition chunk_line :: "nat \<Rightarrow> byte list \<Rightarrow> byte list" where
  "chunk_line i hash = decimal i @ 0x20 # c_string (binary2hex hash) @ [0x0a]"

fun chunk_lines :: "nat \<Rightarrow> byte list list \<Rightarrow> byte list" where
  "chunk_lines i [] = []"
| "chunk_lines i (hash # hashes) = chunk_line i hash @ chunk_lines (Suc i) hashes"

text \<open>
  The tool: its exit code and what it printed to the standard output. \<open>argv\<close> are the arguments behind
  the program's name; a file that does not exist can be neither opened nor examined.
\<close>

definition make_chunks_main ::
  "(nat \<Rightarrow> byte) \<Rightarrow> (byte list \<Rightarrow> byte list option) \<Rightarrow> byte list list \<Rightarrow> (int \<times> byte list) result" where
  "make_chunks_main mem fs argv =
     (case argv of
        [] \<Rightarrow> Inr (-1, [])
      | input_file # _ \<Rightarrow>
          case fs input_file of
            None \<Rightarrow> Inr (-1, [])
          | Some input \<Rightarrow>
              andThen (make_chunks mem (get_numchunks input) input) (\<lambda>hashes.
              Inr (0, chunk_lines 0 hashes)))"

section \<open>Reading chunk files\<close>

abbreviation (input) CHUNK_FILE_LINE_BUFFER_SIZE :: nat where "CHUNK_FILE_LINE_BUFFER_SIZE \<equiv> 64"

text \<open>
  \<open>sscanf(read_buffer, "%d %s", &id, hash_buffer)\<close>: what was converted. A conversion that fails leaves
  its target as it was, and ends the scan.
\<close>

definition scan_chunk_line :: "byte list \<Rightarrow> int option \<times> byte list option" where
  "scan_chunk_line read_buffer =
     (case scan_d (c_string read_buffer) of
        None \<Rightarrow> (None, None)
      | Some (i, rest) \<Rightarrow> (Some i, map_option fst (scan_s rest)))"

text \<open>
  The second pass over the file. \<open>count\<close> is the index of the chunk, \<open>mem\<close> what \<open>malloc\<close> left in the
  array of chunks (48 bytes each, the number first), \<open>hash_buffer\<close> the buffer as the lines before left
  it. The other fields of an owned chunk, which nothing reads, are given the values of a new job's.
\<close>

fun read_chunk_lines ::
  "nat \<Rightarrow> (nat \<Rightarrow> byte) \<Rightarrow> nat \<Rightarrow> byte list \<Rightarrow> byte list list \<Rightarrow> chunk_s list result" where
  "read_chunk_lines room mem count hash_buffer [] = Inr []"
| "read_chunk_lines room mem count hash_buffer (read_buffer # lines) =
     (let (scanned_id, scanned_hash) = scan_chunk_line read_buffer;
          chunk_id = (case scanned_id of Some i \<Rightarrow> i
            | None \<Rightarrow> sint (int_of_bytes (mem (48 * count)) (mem (48 * count + 1)) (mem (48 * count + 2)) (mem (48 * count + 3))));
          written = (case scanned_hash of None \<Rightarrow> [] | Some w \<Rightarrow> w @ [0])
      in if room < length written then Inl Buffer_Overflow
         else
           let hash_buffer = overwrite hash_buffer 0 written;
               chunk = \<lparr>ck_id = chunk_id, hash_binary = hex2binary (take (SHA1_HASH_SIZE * 2) hash_buffer),
                        ck_status = CHUNK_STATUS_NOT_FOUND, received_seq_num = 0, received_byte_num = 0,
                        ck_data = None\<rparr>
           in andThen (read_chunk_lines room mem (Suc count) hash_buffer lines) (\<lambda>chunks. Inr (chunk # chunks)))"

definition malloc_new_job ::
  "nat \<Rightarrow> byte list \<Rightarrow> byte list \<Rightarrow> peer_s \<Rightarrow> (job_s option \<times> peer_s) result" where
  "malloc_new_job room chunk_file_name outf s =
     (case files s chunk_file_name of
        None \<Rightarrow> Inr (None, s)
      | Some content \<Rightarrow>
          let (mem, s) = fresh_memory s;
              (stack, s) = fresh_memory s
          in andThen (read_chunk_lines room mem 0 (map stack [0..<room])
                (fgets_lines CHUNK_FILE_LINE_BUFFER_SIZE content)) (\<lambda>cs.
             Inr (Some \<lparr>output_file_name = outf, chunks = cs\<rparr>, s)))"

text \<open>The owned chunks. The file is not checked to exist: \<open>fgets\<close> then reads through a null pointer.\<close>

definition init_hasChunks :: "nat \<Rightarrow> byte list \<Rightarrow> peer_s \<Rightarrow> peer_s result" where
  "init_hasChunks room has_chunk_file_name s =
     (case files s has_chunk_file_name of
        None \<Rightarrow> Inl Null_Dereference
      | Some content \<Rightarrow>
          let (mem, s) = fresh_memory s;
              (stack, s) = fresh_memory s
          in andThen (read_chunk_lines room mem 0 (map stack [0..<room])
                (fgets_lines CHUNK_FILE_LINE_BUFFER_SIZE content)) (\<lambda>cs.
             Inr (s\<lparr>has_chunks := cs\<rparr>)))"

section \<open>What is made\<close>

lemma get_numchunks_Nil [simp]: "get_numchunks [] = 0"
  by (simp add: get_numchunks_def)

lemma get_numchunks_drop: "input \<noteq> [] \<Longrightarrow> get_numchunks input = Suc (get_numchunks (drop BT_CHUNK_SIZE input))"
proof -
  assume "input \<noteq> []"
  then have n: "1 \<le> length input" by (cases input) auto
  show ?thesis
  proof (cases "length input \<le> BT_CHUNK_SIZE")
    case True
    have "(length input + (BT_CHUNK_SIZE - 1)) div BT_CHUNK_SIZE = 1"
      by (rule div_nat_eqI, use n in linarith, use True in simp)
    with True show ?thesis by (simp add: get_numchunks_def)
  next
    case False
    then obtain k where "length input = BT_CHUNK_SIZE + k" by (metis le_add_diff_inverse nat_le_linear)
    then show ?thesis by (simp add: get_numchunks_def)
  qed
qed

definition piece_of :: "byte list \<Rightarrow> nat \<Rightarrow> byte list" where
  "piece_of input i = take BT_CHUNK_SIZE (drop (i * BT_CHUNK_SIZE) input)"

lemma make_chunks_pieces:
  "get_numchunks input \<le> slots \<Longrightarrow>
    make_chunks mem slots input = Inr (map (\<lambda>i. sha1 (piece_of input i)) [0..<get_numchunks input])"
proof (induction mem slots input rule: make_chunks.induct)
  case (1 mem slots input)
  show ?case
  proof (cases "input = []")
    case True
    then show ?thesis by (subst make_chunks.simps) simp
  next
    case False
    note n = get_numchunks_drop [OF False]
    have slots: "slots \<noteq> 0" "get_numchunks (drop BT_CHUNK_SIZE input) \<le> slots - 1" using 1(2) n by auto
    have sha: "shahash mem (take BT_CHUNK_SIZE input) (of_nat (length (take BT_CHUNK_SIZE input))) =
        Some (sha1 (take BT_CHUNK_SIZE input))"
      by (rule shahash_sha1) simp
    from 1(1) [OF False refl refl sha slots(1,2)] have IH: "make_chunks mem (slots - 1) (drop BT_CHUNK_SIZE input) =
        Inr (map (\<lambda>i. sha1 (piece_of (drop BT_CHUNK_SIZE input) i)) [0..<get_numchunks (drop BT_CHUNK_SIZE input)])" .
    have shift: "piece_of input (Suc i) = piece_of (drop BT_CHUNK_SIZE input) i" for i
      by (simp add: piece_of_def add.commute)
    have "map (\<lambda>i. sha1 (piece_of input i)) [0..<get_numchunks input] =
        sha1 (take BT_CHUNK_SIZE input) #
        map (\<lambda>i. sha1 (piece_of (drop BT_CHUNK_SIZE input) i)) [0..<get_numchunks (drop BT_CHUNK_SIZE input)]"
      unfolding n upt_conv_Cons [OF zero_less_Suc] map_Suc_upt [symmetric] list.map map_map comp_def shift
      by (simp add: piece_of_def)
    with False slots(1) sha IH show ?thesis by (subst make_chunks.simps) (simp add: Let_def)
  qed
qed

lemma make_chunks_overflow: "slots < get_numchunks input \<Longrightarrow> make_chunks mem slots input = Inl Buffer_Overflow"
proof (induction mem slots input rule: make_chunks.induct)
  case (1 mem slots input)
  then have ne: "input \<noteq> []" by auto
  have sha: "shahash mem (take BT_CHUNK_SIZE input) (of_nat (length (take BT_CHUNK_SIZE input))) =
      Some (sha1 (take BT_CHUNK_SIZE input))"
    by (rule shahash_sha1) simp
  show ?case
  proof (cases "slots = 0")
    case True
    with ne sha show ?thesis by (subst make_chunks.simps) (simp add: Let_def)
  next
    case False
    then have "slots - 1 < get_numchunks (drop BT_CHUNK_SIZE input)" using 1(2) get_numchunks_drop [OF ne] by simp
    with 1(1) [OF ne refl refl sha False] ne sha False show ?thesis by (subst make_chunks.simps) (simp add: Let_def)
  qed
qed

lemma concat_pieces: "concat (map (piece_of input) [0..<get_numchunks input]) = input"
proof (induction "length input" arbitrary: input rule: less_induct)
  case less
  show ?case
  proof (cases "input = []")
    case False
    have rest: "concat (map (piece_of (drop BT_CHUNK_SIZE input)) [0..<get_numchunks (drop BT_CHUNK_SIZE input)]) =
        drop BT_CHUNK_SIZE input"
      by (rule less) (use False in auto)
    have shift: "piece_of input (Suc i) = piece_of (drop BT_CHUNK_SIZE input) i" for i
      by (simp add: piece_of_def add.commute)
    have "piece_of input 0 = take BT_CHUNK_SIZE input" by (simp add: piece_of_def)
    then show ?thesis
      unfolding get_numchunks_drop [OF False] upt_conv_Cons [OF zero_less_Suc] map_Suc_upt [symmetric] list.map map_map
        comp_def shift concat.simps rest
      by simp
  qed simp
qed

section \<open>What is read\<close>

lemma length_hex2binary: "length (hex2binary s) = length s div 2"
  by (induction s rule: hex2binary.induct) auto

text \<open>Every chunk that is read is new: nothing found, nothing received, a hash of 20 bytes.\<close>

definition new_chunk :: "chunk_s \<Rightarrow> bool" where
  "new_chunk c \<longleftrightarrow> ck_status c = CHUNK_STATUS_NOT_FOUND \<and> received_seq_num c = 0 \<and> received_byte_num c = 0 \<and>
     ck_data c = None \<and> length (hash_binary c) = SHA1_HASH_SIZE"

lemma read_chunk_lines_new:
  "read_chunk_lines room mem count hash_buffer lines = Inr cs \<Longrightarrow> 40 \<le> room \<Longrightarrow> length hash_buffer = room \<Longrightarrow>
    length cs = length lines \<and> (\<forall>c \<in> set cs. new_chunk c)"
proof (induction lines arbitrary: count hash_buffer cs)
  case Nil
  then show ?case by simp
next
  case (Cons line lines)
  let ?written = "case snd (scan_chunk_line line) of None \<Rightarrow> [] | Some w \<Rightarrow> w @ [0]"
  let ?buf = "overwrite hash_buffer 0 ?written"
  have fit: "length ?written \<le> room"
    using Cons.prems(1) by (auto simp: Let_def case_prod_beta split: if_splits)
  then have len: "length ?buf = room" using Cons.prems(3) by simp
  obtain cs' c where cs: "cs = c # cs'" "read_chunk_lines room mem (Suc count) ?buf lines = Inr cs'"
    and c: "ck_status c = CHUNK_STATUS_NOT_FOUND" "received_seq_num c = 0" "received_byte_num c = 0" "ck_data c = None"
      "hash_binary c = hex2binary (take 40 ?buf)"
    using Cons.prems(1) fit by (auto simp: Let_def case_prod_beta andThen_eq_Inr)
  from Cons.IH [OF cs(2) Cons.prems(2) len] cs(1) c len Cons.prems(2) show ?case
    by (simp add: new_chunk_def length_hex2binary)
qed

text \<open>Reading back what was printed.\<close>

lemma hex_digit_char:
  assumes "d < 16"
  shows "\<not> is_space (hex_digit d) \<and> hex_digit d \<noteq> 0 \<and> hex_digit d \<noteq> 0x0a"
  using nibble_cases [OF assms] by (auto simp: upt_conv_Cons hex_digit_def is_space_def)

lemma hex_chars:
  assumes "c \<in> set (concat (map sprintf_2x buf))"
  shows "\<not> is_space c" and "c \<noteq> 0" and "c \<noteq> 0x0a"
proof -
  have "\<exists>d < 16. c = hex_digit d"
    using assms nibble_small by (auto simp: sprintf_2x_def)
  with hex_digit_char show "\<not> is_space c" "c \<noteq> 0" "c \<noteq> 0x0a" by auto
qed

lemma c_string_hex: "c_string (binary2hex buf) = concat (map sprintf_2x buf)"
  unfolding c_string_def binary2hex_def by (subst takeWhile_append2) (use hex_chars(2) in auto)

lemma length_hex: "length (concat (map sprintf_2x buf)) = 2 * length buf"
  by (induction buf) (auto simp: sprintf_2x_def)

lemma chunk_line_parts:
  assumes "length hash = SHA1_HASH_SIZE" and "i < 2 ^ 31"
  shows "0x0a \<notin> set (decimal i @ 0x20 # c_string (binary2hex hash))"
    and "length (decimal i @ 0x20 # c_string (binary2hex hash)) \<le> 51"
    and "scan_chunk_line (chunk_line i hash) = (Some (int i), Some (concat (map sprintf_2x hash)))"
proof -
  let ?hex = "concat (map sprintf_2x hash)"
  have dec: "\<forall>c \<in> set (decimal i). c \<noteq> 0 \<and> c \<noteq> 0x0a" using decimal_digits [of i] digit_not_space by blast
  show "0x0a \<notin> set (decimal i @ 0x20 # c_string (binary2hex hash))"
    using dec hex_chars(3) [of _ hash] by (auto simp: c_string_hex simp del: set_concat)
  have "length (decimal i) \<le> 10" using assms(2) by (intro length_decimal) simp_all
  then show "length (decimal i @ 0x20 # c_string (binary2hex hash)) \<le> 51"
    using assms(1) by (simp add: c_string_hex length_hex del: length_concat)
  have line: "chunk_line i hash = decimal i @ 0x20 # ?hex @ [0x0a]" by (simp add: chunk_line_def c_string_hex)
  have "\<forall>c \<in> set (chunk_line i hash). c \<noteq> 0"
    using dec hex_chars(2) [of _ hash] by (auto simp: line simp del: set_concat)
  then have str: "c_string (chunk_line i hash) = decimal i @ 0x20 # ?hex @ [0x0a]"
    unfolding c_string_def line [symmetric] by (simp add: takeWhile_eq_all_conv)
  have "scan_d (decimal i @ 0x20 # ?hex @ [0x0a]) = Some (int i, 0x20 # ?hex @ [0x0a])"
    by (rule scan_d_decimal) (use assms(2) in \<open>simp_all add: is_digit_def\<close>)
  moreover have "scan_s (0x20 # ?hex @ [0x0a]) = Some (?hex, [0x0a])"
  proof (rule scan_s_word)
    have "length ?hex \<noteq> 0" using assms(1) unfolding length_hex by simp
    then show "?hex \<noteq> []" by (metis list.size(3))
    show "\<forall>c \<in> set ?hex. \<not> is_space c" using hex_chars(1) by blast
    show "[0x0a] = [] \<or> is_space (hd [0x0a])" by (simp add: is_space_def)
  qed
  ultimately show "scan_chunk_line (chunk_line i hash) = (Some (int i), Some ?hex)"
    by (simp add: scan_chunk_line_def str)
qed

lemma fgets_chunk_lines:
  assumes "\<forall>h \<in> set hashes. length h = SHA1_HASH_SIZE" and "i + length hashes \<le> 2 ^ 31"
  shows "fgets_lines 64 (chunk_lines i hashes) = map (\<lambda>k. chunk_line (i + k) (hashes ! k)) [0..<length hashes]"
  using assms
proof (induction i hashes rule: chunk_lines.induct)
  case (1 i)
  then show ?case by simp
next
  case (2 i h hs)
  have h: "length h = SHA1_HASH_SIZE" and i: "i < 2 ^ 31" using 2(2,3) by simp_all
  note parts = chunk_line_parts(1,2) [OF h i]
  have "chunk_lines i (h # hs) = (decimal i @ 0x20 # c_string (binary2hex h)) @ 0x0a # chunk_lines (Suc i) hs"
    by (simp add: chunk_line_def)
  also have "fgets_lines 64 \<dots> = ((decimal i @ 0x20 # c_string (binary2hex h)) @ [0x0a]) # fgets_lines 64 (chunk_lines (Suc i) hs)"
    by (rule fgets_lines_line [OF parts(1)]) (use parts(2) in simp)
  also have "fgets_lines 64 (chunk_lines (Suc i) hs) = map (\<lambda>k. chunk_line (Suc i + k) (hs ! k)) [0..<length hs]"
    using 2 by simp
  also have "((decimal i @ 0x20 # c_string (binary2hex h)) @ [0x0a]) # \<dots> =
      map (\<lambda>k. chunk_line (i + k) ((h # hs) ! k)) [0..<length (h # hs)]"
    unfolding length_Cons upt_conv_Cons [OF zero_less_Suc] map_Suc_upt [symmetric] list.map map_map comp_def
    by (simp add: chunk_line_def)
  finally show ?case .
qed

lemma read_chunk_lines_printed:
  assumes "41 \<le> room" and "length hash_buffer = room"
    and "\<forall>k < n. length (hash k) = SHA1_HASH_SIZE" and "m + n \<le> 2 ^ 31"
  shows "\<exists>cs. read_chunk_lines room mem count hash_buffer (map (\<lambda>k. chunk_line (m + k) (hash k)) [0..<n]) = Inr cs \<and>
    map ck_id cs = map (\<lambda>k. int (m + k)) [0..<n] \<and> map hash_binary cs = map hash [0..<n]"
  using assms
proof (induction n arbitrary: m count hash_buffer hash)
  case 0
  then show ?case by simp
next
  case (Suc n)
  have h: "length (hash 0) = SHA1_HASH_SIZE" and m: "m < 2 ^ 31" using Suc.prems(3,4) by simp_all
  let ?hex = "concat (map sprintf_2x (hash 0))"
  let ?buf = "overwrite hash_buffer 0 (?hex @ [0])"
  have len: "length ?hex = 40" using h unfolding length_hex by simp
  then have fit: "length (?hex @ [0]) \<le> room" using Suc.prems(1) by simp
  have buf: "length ?buf = room" using fit Suc.prems(2) by simp
  have "take 40 ?buf = ?hex" using len by (simp add: overwrite_def del: length_concat)
  then have hash: "hex2binary (take (SHA1_HASH_SIZE * 2) ?buf) = hash 0" by (simp add: hex2binary_pairs)
  have "\<exists>cs. read_chunk_lines room mem (Suc count) ?buf
        (map (\<lambda>k. chunk_line (Suc m + k) (hash (Suc k))) [0..<n]) = Inr cs \<and>
      map ck_id cs = map (\<lambda>k. int (Suc m + k)) [0..<n] \<and> map hash_binary cs = map (\<lambda>k. hash (Suc k)) [0..<n]"
    by (rule Suc.IH [OF Suc.prems(1) buf]) (use Suc.prems(3,4) in auto)
  then obtain cs where cs: "read_chunk_lines room mem (Suc count) ?buf
        (map (\<lambda>k. chunk_line (Suc m + k) (hash (Suc k))) [0..<n]) = Inr cs"
      "map ck_id cs = map (\<lambda>k. int (Suc m + k)) [0..<n]" "map hash_binary cs = map (\<lambda>k. hash (Suc k)) [0..<n]"
    by blast
  have lines: "map (\<lambda>k. chunk_line (m + k) (hash k)) [0..<Suc n] =
      chunk_line m (hash 0) # map (\<lambda>k. chunk_line (Suc m + k) (hash (Suc k))) [0..<n]"
    unfolding upt_conv_Cons [OF zero_less_Suc] map_Suc_upt [symmetric] list.map map_map comp_def by simp
  let ?c = "\<lparr>ck_id = int m, hash_binary = hash 0, ck_status = CHUNK_STATUS_NOT_FOUND, received_seq_num = 0,
      received_byte_num = 0, ck_data = None\<rparr>"
  have "read_chunk_lines room mem count hash_buffer (map (\<lambda>k. chunk_line (m + k) (hash k)) [0..<Suc n]) = Inr (?c # cs)"
    unfolding lines using chunk_line_parts(3) [OF h m] fit cs(1) hash by (simp add: Let_def del: length_concat)
  moreover have "map ck_id (?c # cs) = map (\<lambda>k. int (m + k)) [0..<Suc n]"
    unfolding upt_conv_Cons [OF zero_less_Suc] map_Suc_upt [symmetric] list.map map_map comp_def by (simp add: cs(2))
  moreover have "map hash_binary (?c # cs) = map hash [0..<Suc n]"
    unfolding upt_conv_Cons [OF zero_less_Suc] map_Suc_upt [symmetric] list.map map_map comp_def by (simp add: cs(3))
  ultimately show ?case by blast
qed

lemma read_chunk_lines_overflow:
  assumes "length hash = SHA1_HASH_SIZE" and "i < 2 ^ 31"
  shows "read_chunk_lines 40 mem count hash_buffer (chunk_line i hash # lines) = Inl Buffer_Overflow"
proof -
  have "length (concat (map sprintf_2x hash)) = 40" using assms(1) unfolding length_hex by simp
  with chunk_line_parts(3) [OF assms] show ?thesis by (simp add: Let_def del: length_concat)
qed

text \<open>A word of the line and its zero always fit into as many bytes as the line's buffer has.\<close>

lemma fgets_lines_bound:
  assumes "line \<in> set (fgets_lines n content)"
  shows "length line \<le> n - 1"
  using assms
proof (induction n content rule: fgets_lines.induct)
  case (1 n content)
  show ?case
  proof (cases "n \<le> 1 \<or> content = []")
    case True
    with 1(2) show ?thesis by (subst (asm) fgets_lines.simps) simp
  next
    case False
    have "length (fgets_line n content) \<le> n - 1" by (simp add: fgets_line_def Let_def)
    with False 1 show ?thesis by (subst (asm) fgets_lines.simps) (auto simp: Let_def)
  qed
qed

lemma scan_sign_length: "length (snd (scan_sign t)) \<le> length t"
  by (simp add: scan_sign_def split: list.split)

lemma scan_d_shortens: "scan_d str = Some (i, rest) \<Longrightarrow> length rest < length str"
proof -
  assume scan: "scan_d str = Some (i, rest)"
  obtain neg s where s: "scan_sign (dropWhile is_space str) = (neg, s)" by fastforce
  have "length s \<le> length (dropWhile is_space str)" using scan_sign_length [of "dropWhile is_space str"] s by simp
  also have "\<dots> \<le> length str" by (rule length_dropWhile_le)
  finally have "length s \<le> length str" .
  moreover have "takeWhile is_digit s \<noteq> []" and "rest = drop (length (takeWhile is_digit s)) s"
    using scan s by (auto simp: scan_d_def Let_def split: if_splits)
  moreover from this(1) have "0 < length (takeWhile is_digit s)" "0 < length s" by (cases s; simp)+
  ultimately show ?thesis by (simp only: length_drop)
qed

lemma scan_s_shortens: "scan_s str = Some (w, rest) \<Longrightarrow> length w \<le> length str"
  using length_dropWhile_le [of is_space str] length_takeWhile_le [of "\<lambda>c. \<not> is_space c" "dropWhile is_space str"]
  by (auto simp: scan_s_def Let_def split: if_splits)

lemma scan_chunk_line_bound:
  assumes "snd (scan_chunk_line line) = Some w"
  shows "length w < length line"
proof -
  obtain i rest where d: "scan_d (c_string line) = Some (i, rest)" and w: "map_option fst (scan_s rest) = Some w"
    using assms by (auto simp: scan_chunk_line_def split: option.splits)
  have "length (c_string line) \<le> length line" by (simp add: c_string_def length_takeWhile_le)
  with scan_d_shortens [OF d] w scan_s_shortens [of rest] show ?thesis by fastforce
qed

lemma read_chunk_lines_fits:
  assumes "\<forall>line \<in> set lines. length line \<le> room"
  shows "\<exists>cs. read_chunk_lines room mem count hash_buffer lines = Inr cs"
  using assms
proof (induction lines arbitrary: count hash_buffer)
  case Nil
  then show ?case by simp
next
  case (Cons line lines)
  have "\<not> room < length (case snd (scan_chunk_line line) of None \<Rightarrow> [] | Some w \<Rightarrow> w @ [0])"
    using Cons.prems scan_chunk_line_bound [of line] by (cases "snd (scan_chunk_line line)") fastforce+
  moreover have "\<exists>cs. read_chunk_lines room mem (Suc count) b lines = Inr cs" for b
    using Cons by simp
  ultimately show ?case by (simp add: Let_def case_prod_beta) (metis andThen_Inr)
qed

lemma get_numchunks_bound: "length input \<le> 2 ^ 50 \<Longrightarrow> get_numchunks input \<le> 2 ^ 31"
  by (simp add: get_numchunks_def)

lemma malloc_new_job_printed:
  assumes "fs name = Some input" and "length input \<le> 2 ^ 50"
    and "make_chunks_main mem fs (name # args) = Inr (0, printed)"
    and "files s chunkf = Some printed" and "41 \<le> room"
  shows "\<exists>job. malloc_new_job room chunkf outf s = Inr (Some job, s\<lparr>ticks := Suc (Suc (ticks s))\<rparr>) \<and>
    output_file_name job = outf \<and>
    map ck_id (chunks job) = map int [0..<get_numchunks input] \<and>
    map hash_binary (chunks job) = map (\<lambda>i. sha1 (piece_of input i)) [0..<get_numchunks input] \<and>
    list_all new_chunk (chunks job)"
proof -
  let ?n = "get_numchunks input" and ?hashes = "map (\<lambda>i. sha1 (piece_of input i)) [0..<get_numchunks input]"
  have n: "?n \<le> 2 ^ 31" by (rule get_numchunks_bound [OF assms(2)])
  have "printed = chunk_lines 0 ?hashes"
    using assms(1,3) by (simp add: make_chunks_main_def make_chunks_pieces)
  moreover have "fgets_lines 64 (chunk_lines 0 ?hashes) = map (\<lambda>k. chunk_line (0 + k) (?hashes ! k)) [0..<length ?hashes]"
    by (rule fgets_chunk_lines) (use n in \<open>auto simp: length_sha1\<close>)
  ultimately have lines: "fgets_lines 64 printed = map (\<lambda>k. chunk_line (0 + k) (sha1 (piece_of input k))) [0..<?n]"
    by simp
  let ?mem = "uninit s (ticks s)" and ?buf = "map (uninit s (Suc (ticks s))) [0..<room]"
  have "\<exists>cs. read_chunk_lines room ?mem 0 ?buf (map (\<lambda>k. chunk_line (0 + k) (sha1 (piece_of input k))) [0..<?n]) = Inr cs \<and>
      map ck_id cs = map (\<lambda>k. int (0 + k)) [0..<?n] \<and> map hash_binary cs = map (\<lambda>k. sha1 (piece_of input k)) [0..<?n]"
    by (rule read_chunk_lines_printed) (use assms(5) n in \<open>simp_all add: length_sha1\<close>)
  then obtain cs where cs: "read_chunk_lines room ?mem 0 ?buf (fgets_lines 64 printed) = Inr cs"
      "map ck_id cs = map int [0..<?n]" "map hash_binary cs = ?hashes"
    unfolding lines by auto
  have "list_all new_chunk cs"
    using read_chunk_lines_new [OF cs(1)] assms(5) by (simp add: list_all_iff)
  with cs assms(4) show ?thesis by (simp add: malloc_new_job_def fresh_memory_def Let_def)
qed

section \<open>Properties\<close>




text \<open>
  C37. With the 40 bytes that \<open>hash_buffer\<close> is declared with, reading any chunk file that \<open>make_chunks\<close>
  prints for a non-empty file writes past the end of the buffer, for a job's chunk file and for the file
  of owned chunks alike.
\<close>

theorem hash_buffer_overflows:
  assumes "fs name = Some input" and "input \<noteq> []" and "length input \<le> 2 ^ 50"
    and "make_chunks_main mem fs (name # args) = Inr (0, printed)"
    and "files s chunkf = Some printed"
  shows "malloc_new_job 40 chunkf outf s = Inl Buffer_Overflow \<and> init_hasChunks 40 chunkf s = Inl Buffer_Overflow"
proof -
  let ?n = "get_numchunks input" and ?hashes = "map (\<lambda>i. sha1 (piece_of input i)) [0..<get_numchunks input]"
  have n: "?n \<le> 2 ^ 31" "0 < ?n" using assms(2,3) get_numchunks_drop [OF assms(2)] by (simp_all add: get_numchunks_def)
  have printed: "printed = chunk_lines 0 ?hashes"
    using assms(1,4) by (simp add: make_chunks_main_def make_chunks_pieces)
  have "fgets_lines 64 printed = map (\<lambda>k. chunk_line (0 + k) (?hashes ! k)) [0..<length ?hashes]"
    unfolding printed by (rule fgets_chunk_lines) (use n in \<open>auto simp: length_sha1\<close>)
  then obtain lines where "fgets_lines 64 printed = chunk_line 0 (sha1 (piece_of input 0)) # lines"
    using n(2) by (simp add: upt_conv_Cons)
  with assms(5) show ?thesis
    by (simp add: malloc_new_job_def init_hasChunks_def fresh_memory_def Let_def read_chunk_lines_overflow length_sha1
        del: read_chunk_lines.simps)
qed

theorem hash_buffer_overflows_witness:
  "malloc_new_job 40 [0x43] [0x4f] (example_peer\<lparr>files := [[0x43] \<mapsto> chunk_lines 0 [sha1 [0x61]]]\<rparr>) = Inl Buffer_Overflow"
proof -
  have n: "get_numchunks [0x61] = 1" by (simp add: get_numchunks_def)
  have p: "piece_of [0x61] 0 = [0x61]" by (simp add: piece_of_def)
  have tool: "make_chunks_main (\<lambda>_. 0) [[0x46] \<mapsto> [0x61]] [[0x46]] = Inr (0, chunk_lines 0 [sha1 [0x61]])"
    by (simp add: make_chunks_main_def make_chunks_pieces n p)
  show ?thesis
    using hash_buffer_overflows [OF _ _ _ tool, of "[0x61]" "example_peer\<lparr>files := [[0x43] \<mapsto> chunk_lines 0 [sha1 [0x61]]]\<rparr>" "[0x43]" "[0x4f]"]
    by simp
qed

end
