(* ===== verification/Input_Buffer.thy ===== *)
theory Input_Buffer imports Stdio Machine begin

text \<open>
  \<open>input_buffer.c\<close>: the buffer that collects what the user types and hands it on line by line. The
  object behind \<open>buf\<close> has \<open>USERBUF_SIZE + 1\<close> bytes. What \<open>handle_line\<close> does is a parameter, with the
  state it works on.
\<close>

abbreviation (input) USERBUF_SIZE :: nat where "USERBUF_SIZE \<equiv> 8191"

record user_iobuf =
  buf :: "byte list"
  cur :: c_int

definition create_userbuf :: user_iobuf where
  "create_userbuf = \<lparr>buf = replicate (USERBUF_SIZE + 1) 0, cur = 0\<rparr>"

text \<open>
  \<open>strchr\<close>: the index of the character in the string, if it occurs. A buffer without a terminating zero
  is searched past its end.
\<close>

definition strchr :: "byte \<Rightarrow> byte list \<Rightarrow> nat option result" where
  "strchr c str =
     (if 0 \<notin> set str then Inl Buffer_Overflow
      else let before = takeWhile (\<lambda>b. b \<noteq> c) (c_string str)
           in Inr (if length before < length (c_string str) then Some (length before) else None))"

definition memmove :: "byte list \<Rightarrow> nat \<Rightarrow> nat \<Rightarrow> nat \<Rightarrow> byte list result" where
  "memmove bytes dst src n =
     (if length bytes < src + n \<or> length bytes < dst + n then Inl Buffer_Overflow
      else Inr (overwrite bytes dst (take n (drop src bytes))))"

text \<open>
  The loop over the complete lines of the buffer, with \<open>n\<close> turns of fuel: every turn shortens the string
  in the buffer, so its size is enough.
\<close>

fun handle_lines ::
  "(byte list \<Rightarrow> 's \<Rightarrow> 's result) \<Rightarrow> nat \<Rightarrow> user_iobuf \<Rightarrow> 's \<Rightarrow> (user_iobuf \<times> 's) result" where
  "handle_lines handle_line n userbuf s =
     andThen (strchr 0x0a (buf userbuf)) (\<lambda>ret.
       case ret of
         None \<Rightarrow> Inr (userbuf, s)
       | Some r \<Rightarrow>
           (case n of
              0 \<Rightarrow> Inl Endless_Loop
            | Suc n \<Rightarrow>
                let b = (buf userbuf)[r := 0]
                in andThen (handle_line (c_string b) s) (\<lambda>s.
                   andThen (memmove b 0 (r + 1) (USERBUF_SIZE - r)) (\<lambda>b.
                   handle_lines handle_line n
                     (userbuf\<lparr>buf := b, cur := cur userbuf - (of_nat r + 1)\<rparr>) s))))"

declare handle_lines.simps [simp del]

text \<open>
  \<open>typed\<close> is what waits at the file descriptor: \<open>read\<close> takes as much of it as there is room for, and
  nothing at the end of the input or when it fails.
\<close>

definition process_user_input ::
  "byte list \<Rightarrow> user_iobuf \<Rightarrow> (byte list \<Rightarrow> 's \<Rightarrow> 's result) \<Rightarrow> 's \<Rightarrow> (user_iobuf \<times> 's) process result" where
  "process_user_input typed userbuf handle_line s =
     (if unat (cur userbuf) \<ge> USERBUF_SIZE - 1 then Inr (Exited (-1))
      else
        let got = take (USERBUF_SIZE - unat (cur userbuf)) typed;
            userbuf = userbuf\<lparr>buf := overwrite (buf userbuf) (unat (cur userbuf)) got,
                              cur := cur userbuf + of_nat (length got)\<rparr>
        in andThen (handle_lines handle_line (length (buf userbuf)) userbuf s) (\<lambda>r. Inr (Running r)))"

section \<open>The buffer stays a string\<close>

text \<open>The buffer has its size and ends with a zero, whatever was typed.\<close>

definition iobuf_ok :: "user_iobuf \<Rightarrow> bool" where
  "iobuf_ok u \<longleftrightarrow> length (buf u) = USERBUF_SIZE + 1 \<and> buf u ! USERBUF_SIZE = 0"

lemma create_userbuf_ok: "iobuf_ok create_userbuf"
  by (simp add: iobuf_ok_def create_userbuf_def del: replicate_Suc)

lemma iobuf_ok_zero: "iobuf_ok u \<Longrightarrow> 0 \<in> set (buf u)"
  by (metis iobuf_ok_def less_add_one nth_mem)

lemma c_string_before: "0 \<in> set b \<Longrightarrow> length (c_string b) < length b"
  unfolding c_string_def by (induction b) auto

text \<open>A line ends in front of the terminating zero.\<close>

lemma strchr_Some:
  assumes "strchr 0x0a b = Inr (Some r)"
  shows "r < length (c_string b)" and "length (c_string b) < length b" and "b ! r = 0x0a"
    and "take r b = takeWhile (\<lambda>c. c \<noteq> 0x0a) (c_string b)"
proof -
  let ?before = "takeWhile (\<lambda>c. c \<noteq> 0x0a) (c_string b)"
  have r: "0 \<in> set b" "r = length ?before" "r < length (c_string b)"
    using assms by (auto simp: strchr_def Let_def split: if_splits)
  then show "r < length (c_string b)" and len: "length (c_string b) < length b"
    by (simp_all add: c_string_before)
  have pre: "take (length (c_string b)) b = c_string b"
    unfolding c_string_def by (metis takeWhile_eq_take)
  have "c_string b ! r = 0x0a" using nth_length_takeWhile [of "\<lambda>c. c \<noteq> 0x0a" "c_string b"] r by auto
  then show "b ! r = 0x0a" using r(3) pre by (metis nth_take)
  have "take r (c_string b) = ?before" by (metis r(2) takeWhile_eq_take)
  then show "take r b = ?before" using pre r(3) by (metis min.absorb1 less_imp_le take_take)
qed

text \<open>What one line leaves: the rest of the string moves to the front.\<close>

lemma shift_line:
  assumes ok: "iobuf_ok u" and r: "strchr 0x0a (buf u) = Inr (Some r)"
  defines "b \<equiv> (buf u)[r := 0]"
  shows "c_string b = take r (buf u)"
    and "memmove b 0 (r + 1) (USERBUF_SIZE - r) =
      Inr (drop (r + 1) (buf u) @ drop (USERBUF_SIZE - r) b)"
    and "iobuf_ok (u\<lparr>buf := drop (r + 1) (buf u) @ drop (USERBUF_SIZE - r) b, cur := k\<rparr>)"
    and "c_string (drop (r + 1) (buf u) @ rest) = drop (r + 1) (c_string (buf u))"
proof -
  note r = strchr_Some [OF r]
  have len: "length (buf u) = 8192" and last: "buf u ! 8191 = 0" using ok by (simp_all add: iobuf_ok_def)
  have rb: "r < 8191" using r(1,2) len by simp
  have z: "\<forall>c \<in> set (take r (buf u)). c \<noteq> 0"
    unfolding r(4) c_string_def by (auto dest!: set_takeWhileD)
  have b: "b = take r (buf u) @ 0 # drop (r + 1) (buf u)"
    unfolding b_def using rb len by (simp add: upd_conv_take_nth_drop)
  show "c_string b = take r (buf u)"
    unfolding b c_string_def using z by (subst takeWhile_append2) auto
  have "take (8191 - r) (drop (r + 1) b) = drop (r + 1) (buf u)"
    unfolding b using len rb by simp
  moreover have "length b = 8192" by (simp add: b_def len)
  ultimately show "memmove b 0 (r + 1) (USERBUF_SIZE - r) = Inr (drop (r + 1) (buf u) @ drop (USERBUF_SIZE - r) b)"
    using rb len by (simp add: memmove_def overwrite_def)
  have "b ! 8191 = 0" using last rb len by (simp add: b_def nth_list_update)
  moreover have "\<not> 8191 < 8191 - r" by linarith
  ultimately show "iobuf_ok (u\<lparr>buf := drop (r + 1) (buf u) @ drop (USERBUF_SIZE - r) b, cur := k\<rparr>)"
    using rb len \<open>length b = 8192\<close> by (simp add: iobuf_ok_def nth_append)
  let ?str = "c_string (buf u)"
  have tail: "drop (r + 1) (buf u) = drop (r + 1) ?str @ dropWhile (\<lambda>c. c \<noteq> 0) (buf u)"
    using r(1) takeWhile_dropWhile_id [of "\<lambda>c. c \<noteq> 0" "buf u"] unfolding c_string_def
    by (metis (mono_tags, lifting) Suc_eq_plus1 Suc_leI diff_is_0_eq drop_0 drop_append)
  have "dropWhile (\<lambda>c. c \<noteq> 0) (buf u) \<noteq> []" using iobuf_ok_zero [OF ok] by (auto simp: dropWhile_eq_Nil_conv)
  then obtain more where more: "dropWhile (\<lambda>c. c \<noteq> 0) (buf u) = 0 # more"
    by (metis (mono_tags, lifting) hd_dropWhile list.collapse)
  have "\<forall>c \<in> set (drop (r + 1) ?str). c \<noteq> 0"
    by (metis (mono_tags, lifting) c_string_def in_set_dropD set_takeWhileD)
  then show "c_string (drop (r + 1) (buf u) @ rest) = drop (r + 1) ?str"
    unfolding tail more by (subst c_string_def) (simp add: takeWhile_append2)
qed

section \<open>The lines that are handled\<close>

text \<open>The complete lines of a text, and what is left behind the last newline.\<close>

primrec lines_of :: "byte list \<Rightarrow> byte list list \<times> byte list" where
  "lines_of [] = ([], [])"
| "lines_of (c # cs) =
     (case lines_of cs of (ls, rest) \<Rightarrow>
        if c = 0x0a then ([] # ls, rest)
        else (case ls of [] \<Rightarrow> ([], c # rest) | l # ls \<Rightarrow> ((c # l) # ls, rest)))"

lemma lines_of_open: "0x0a \<notin> set w \<Longrightarrow> lines_of w = ([], w)"
  by (induction w) auto

lemma lines_of_line: "0x0a \<notin> set w \<Longrightarrow> lines_of (w @ 0x0a # xs) = (w # fst (lines_of xs), snd (lines_of xs))"
  by (induction w) (auto simp: case_prod_beta)

lemma lines_of_rest: "0x0a \<notin> set (snd (lines_of xs))"
  by (induction xs) (auto simp: case_prod_beta split: list.split)

lemma lines_of_append:
  "lines_of (xs @ ys) =
     (fst (lines_of xs) @ fst (lines_of (snd (lines_of xs) @ ys)), snd (lines_of (snd (lines_of xs) @ ys)))"
  by (induction xs) (auto simp: case_prod_beta split: list.split)

lemma strchr_None: "0 \<in> set b \<Longrightarrow> 0x0a \<notin> set (c_string b) \<Longrightarrow> strchr 0x0a b = Inr None"
proof -
  assume z: "0 \<in> set b" and "0x0a \<notin> set (c_string b)"
  then have tw: "takeWhile (\<lambda>c. c \<noteq> 0x0a) (c_string b) = c_string b"
    by (metis (mono_tags, lifting) takeWhile_eq_all_conv)
  show ?thesis unfolding strchr_def Let_def tw using z by simp
qed

lemma strchr_cases:
  assumes "iobuf_ok u"
  obtains (none) "strchr 0x0a (buf u) = Inr None" "0x0a \<notin> set (c_string (buf u))"
  | (found) r where "strchr 0x0a (buf u) = Inr (Some r)"
      "lines_of (c_string (buf u)) =
         (take r (buf u) # fst (lines_of (drop (r + 1) (c_string (buf u)))),
          snd (lines_of (drop (r + 1) (c_string (buf u)))))"
proof -
  let ?str = "c_string (buf u)" and ?before = "takeWhile (\<lambda>c. c \<noteq> 0x0a) (c_string (buf u))"
  show thesis
  proof (cases "length ?before < length ?str")
    case False
    then have "?before = ?str" by (metis takeWhile_eq_take take_all not_less)
    then have "0x0a \<notin> set ?str" by (metis (mono_tags, lifting) set_takeWhileD)
    with False iobuf_ok_zero [OF assms] show thesis by (intro none) (simp_all add: strchr_def)
  next
    case True
    let ?r = "length ?before"
    have found': "strchr 0x0a (buf u) = Inr (Some ?r)"
      using True iobuf_ok_zero [OF assms] by (simp add: strchr_def Let_def)
    note r = strchr_Some [OF found']
    have "?str ! ?r = 0x0a" using nth_length_takeWhile [OF True] by simp
    then have "?str = ?before @ 0x0a # drop (?r + 1) ?str"
      using id_take_nth_drop [OF True] takeWhile_eq_take [of "\<lambda>c. c \<noteq> 0x0a" ?str] by simp
    moreover have "0x0a \<notin> set ?before" by (auto dest: set_takeWhileD)
    ultimately have "lines_of ?str = (?before # fst (lines_of (drop (?r + 1) ?str)), snd (lines_of (drop (?r + 1) ?str)))"
      using lines_of_line by metis
    then have "lines_of ?str = (take ?r (buf u) # fst (lines_of (drop (?r + 1) ?str)), snd (lines_of (drop (?r + 1) ?str)))"
      by (simp only: r(4))
    then show thesis by (rule found [OF found'])
  qed
qed

text \<open>One turn of the loop.\<close>

definition after_line :: "nat \<Rightarrow> user_iobuf \<Rightarrow> user_iobuf" where
  "after_line r u =
     u\<lparr>buf := drop (r + 1) (buf u) @ drop (USERBUF_SIZE - r) ((buf u)[r := 0]), cur := cur u - (of_nat r + 1)\<rparr>"

lemma handle_lines_None: "strchr 0x0a (buf u) = Inr None \<Longrightarrow> handle_lines h n u s = Inr (u, s)"
  by (subst handle_lines.simps) simp

lemma handle_lines_Some:
  assumes "iobuf_ok u" and "strchr 0x0a (buf u) = Inr (Some r)"
  shows "handle_lines h (Suc n) u s = andThen (h (take r (buf u)) s) (handle_lines h n (after_line r u))"
    and "iobuf_ok (after_line r u)" and "c_string (buf (after_line r u)) = drop (r + 1) (c_string (buf u))"
  using assms shift_line [OF assms]
  by (simp_all add: after_line_def handle_lines.simps [of h "Suc n"] Let_def)

text \<open>
  The loop hands on the complete lines of the string in the buffer, and what is behind them stays in the
  buffer; the fuel lasts.
\<close>

lemma handle_lines_lines:
  assumes "iobuf_ok u" and "length (c_string (buf u)) \<le> n"
  shows "\<exists>u'. iobuf_ok u' \<and> c_string (buf u') = snd (lines_of (c_string (buf u))) \<and>
    handle_lines h n u = (\<lambda>s. andThen (run_steps h (fst (lines_of (c_string (buf u)))) s) (\<lambda>s'. Inr (u', s')))"
  using assms
proof (induction n arbitrary: u)
  case (0 u)
  show ?case
  proof (cases rule: strchr_cases [OF 0(1)])
    case 1
    with 0 show ?thesis by (intro exI [of _ u]) (simp add: handle_lines_None lines_of_open fun_eq_iff)
  next
    case (2 r)
    with strchr_Some(1) [OF 2(1)] 0(2) show ?thesis by simp
  qed
next
  case (Suc n u)
  show ?case
  proof (cases rule: strchr_cases [OF Suc.prems(1)])
    case 1
    with Suc.prems show ?thesis by (intro exI [of _ u]) (simp add: handle_lines_None lines_of_open fun_eq_iff)
  next
    case (2 r)
    note step = handle_lines_Some [OF Suc.prems(1) 2(1)]
    let ?u = "after_line r u"
    have "length (c_string (buf ?u)) \<le> n" using step(3) Suc.prems(2) by simp
    from Suc.IH [OF step(2) this] obtain u' where u': "iobuf_ok u'" "c_string (buf u') = snd (lines_of (c_string (buf ?u)))"
      "handle_lines h n ?u = (\<lambda>s. andThen (run_steps h (fst (lines_of (c_string (buf ?u)))) s) (\<lambda>s'. Inr (u', s')))"
      by blast
    have "handle_lines h (Suc n) u =
        (\<lambda>s. andThen (run_steps h (fst (lines_of (c_string (buf u)))) s) (\<lambda>s'. Inr (u', s')))"
      by (rule ext) (simp add: step(1,3) 2(2) u'(3) andThen_assoc)
    with u'(1,2) step(3) 2(2) show ?thesis by (intro exI [of _ u']) simp
  qed
qed

section \<open>Typed input\<close>

text \<open>A buffer that holds the text \<open>L\<close> and nothing else.\<close>

definition holds :: "user_iobuf \<Rightarrow> byte list \<Rightarrow> bool" where
  "holds u L \<longleftrightarrow> length L \<le> USERBUF_SIZE \<and> 0 \<notin> set L \<and>
     buf u = L @ replicate (USERBUF_SIZE + 1 - length L) 0 \<and> cur u = of_nat (length L)"

lemma create_userbuf_holds: "holds create_userbuf []"
  by (simp add: holds_def create_userbuf_def del: replicate_Suc)

lemma c_string_zero: "0 \<notin> set L \<Longrightarrow> c_string (L @ 0 # bs) = L"
  unfolding c_string_def by (subst takeWhile_append2) auto

lemma c_string_padded: "0 \<notin> set L \<Longrightarrow> 0 < n \<Longrightarrow> c_string (L @ replicate n 0) = L"
  using c_string_zero [of L "replicate (n - 1) 0"] by (cases n) simp_all

lemma holdsD:
  assumes "holds u L"
  shows "iobuf_ok u" and "c_string (buf u) = L"
  using assms by (auto simp: holds_def iobuf_ok_def nth_append intro: c_string_padded simp del: replicate_Suc)

lemma unat_small: "n \<le> 8191 \<Longrightarrow> unat (of_nat n :: c_int) = n"
  by (simp add: unat_of_nat take_bit_nat_eq_self)

text \<open>Reading more text into it, and taking the first line out of it.\<close>

lemma holds_read:
  assumes "holds u L" and "0 \<notin> set T" and "length L + length T \<le> USERBUF_SIZE"
  shows "holds (u\<lparr>buf := overwrite (buf u) (length L) T, cur := cur u + of_nat (length T)\<rparr>) (L @ T)"
  using assms by (auto simp: holds_def overwrite_def drop_replicate simp del: replicate_Suc)

lemma holds_after_line:
  assumes "holds u L" and "L = w @ 0x0a # rest" and "0x0a \<notin> set w" and "length L + length w \<le> USERBUF_SIZE"
  shows "holds (after_line (length w) u) rest"
proof -
  have "buf (after_line (length w) u) = rest @ replicate (USERBUF_SIZE + 1 - length rest) 0"
  proof -
    have u: "buf u = w @ 0x0a # rest @ replicate (8192 - length L) 0" using assms(1,2) by (simp add: holds_def)
    then have "drop (8191 - length w) ((buf u)[length w := 0]) =
        drop (8191 - length w) ((w @ 0 # rest) @ replicate (8192 - length L) 0)" by (simp add: list_update_append)
    also have "\<dots> = replicate (length w + 1) 0" using assms(2,4) by (subst drop_append) (simp del: replicate_Suc)
    finally show ?thesis
      using u assms(2,4) by (simp add: after_line_def replicate_add [symmetric] del: replicate_Suc)
  qed
  with assms(1,2) show ?thesis by (auto simp: holds_def after_line_def)
qed

lemma handle_lines_holds:
  assumes "holds u L" and "2 * length L \<le> USERBUF_SIZE + 1" and "length L \<le> n"
  shows "\<exists>u'. holds u' (snd (lines_of L)) \<and>
    handle_lines h n u = (\<lambda>s. andThen (run_steps h (fst (lines_of L)) s) (\<lambda>s'. Inr (u', s')))"
  using assms
proof (induction n arbitrary: u L)
  case (0 u L)
  then show ?case
    using handle_lines_None [of u] by (intro exI [of _ u]) (auto simp: strchr_def holds_def c_string_def fun_eq_iff)
next
  case (Suc n u L)
  note u = holdsD [OF Suc.prems(1)]
  show ?case
  proof (cases "0x0a \<in> set L")
    case False
    then have "strchr 0x0a (buf u) = Inr None" using iobuf_ok_zero [OF u(1)] u(2) by (simp add: strchr_None)
    with False Suc.prems(1) show ?thesis by (intro exI [of _ u]) (simp add: handle_lines_None lines_of_open fun_eq_iff)
  next
    case True
    then obtain w rest where L: "L = w @ 0x0a # rest" "0x0a \<notin> set w" by (metis split_list_first)
    have z: "0 \<in> set (buf u)" by (rule iobuf_ok_zero [OF u(1)])
    have tw: "takeWhile (\<lambda>c. c \<noteq> 0x0a) L = w" unfolding L(1) using L(2) by (subst takeWhile_append2) auto
    have found: "strchr 0x0a (buf u) = Inr (Some (length w))"
      unfolding strchr_def u(2) Let_def tw using z by (simp add: L(1))
    have take: "take (length w) (buf u) = w" using Suc.prems(1) by (simp add: holds_def L(1))
    note step = handle_lines_Some [OF u(1) found, unfolded take]
    have fits: "length L + length w \<le> USERBUF_SIZE" using Suc.prems(2) by (simp add: L(1))
    have rest: "holds (after_line (length w) u) rest" by (rule holds_after_line [OF Suc.prems(1) L fits])
    have "2 * length rest \<le> USERBUF_SIZE + 1" "length rest \<le> n" using Suc.prems(2,3) by (simp_all add: L(1))
    from Suc.IH [OF rest this] obtain u' where u': "holds u' (snd (lines_of rest))"
      "handle_lines h n (after_line (length w) u) = (\<lambda>s. andThen (run_steps h (fst (lines_of rest)) s) (\<lambda>s'. Inr (u', s')))"
      by blast
    have "handle_lines h (Suc n) u = (\<lambda>s. andThen (run_steps h (fst (lines_of L)) s) (\<lambda>s'. Inr (u', s')))"
      by (rule ext) (simp add: step(1) u'(2) L lines_of_line andThen_assoc)
    with u'(1) show ?thesis by (intro exI [of _ u']) (simp add: L lines_of_line)
  qed
qed

text \<open>One call, with room enough: the complete lines are handled, the rest waits.\<close>

lemma process_user_input_holds:
  assumes "holds u L" and "0 \<notin> set T" and "length L + length T \<le> 4096"
  shows "\<exists>u'. holds u' (snd (lines_of (L @ T))) \<and>
    process_user_input T u h = (\<lambda>s. andThen (run_steps h (fst (lines_of (L @ T))) s) (\<lambda>s'. Inr (Running (u', s'))))"
proof -
  have cur: "unat (cur u) = length L" using assms(1) by (simp add: holds_def unat_small)
  let ?u = "u\<lparr>buf := overwrite (buf u) (length L) T, cur := cur u + of_nat (length T)\<rparr>"
  have read: "holds ?u (L @ T)" by (rule holds_read) (use assms in simp_all)
  have "length (buf ?u) = 8192" using holdsD(1) [OF read] by (simp add: iobuf_ok_def)
  with handle_lines_holds [OF read, of 8192 h] assms(3) obtain u' where u': "holds u' (snd (lines_of (L @ T)))"
    "handle_lines h (length (buf ?u)) ?u = (\<lambda>s. andThen (run_steps h (fst (lines_of (L @ T))) s) (\<lambda>s'. Inr (u', s')))"
    by auto
  have "take (8191 - length L) T = T" using assms(3) by simp
  with u' cur assms(3) show ?thesis
    by (intro exI [of _ u']) (simp add: process_user_input_def Let_def fun_eq_iff andThen_assoc)
qed

text \<open>A sequence of calls.\<close>

fun typed_pieces ::
  "(byte list \<Rightarrow> 's \<Rightarrow> 's result) \<Rightarrow> byte list list \<Rightarrow> user_iobuf \<Rightarrow> 's \<Rightarrow> (user_iobuf \<times> 's) process result" where
  "typed_pieces h [] u s = Inr (Running (u, s))"
| "typed_pieces h (T # Ts) u s = andRun (process_user_input T u h s) (\<lambda>(u, s). typed_pieces h Ts u s)"

fun paced :: "byte list \<Rightarrow> byte list list \<Rightarrow> bool" where
  "paced L [] \<longleftrightarrow> True"
| "paced L (T # Ts) \<longleftrightarrow> 0 \<notin> set T \<and> length L + length T \<le> 4096 \<and> paced (snd (lines_of (L @ T))) Ts"

lemma andRun_andThen: "andRun (andThen m (\<lambda>v. Inr (Running (g v)))) f = andThen m (\<lambda>v. f (g v))"
  by (cases m) auto

lemma typed_pieces_lines:
  assumes "holds u L" and "paced L Ts" and "0x0a \<notin> set L"
  shows "\<exists>u'. holds u' (snd (lines_of (L @ concat Ts))) \<and>
    typed_pieces h Ts u = (\<lambda>s. andThen (run_steps h (fst (lines_of (L @ concat Ts))) s) (\<lambda>s'. Inr (Running (u', s'))))"
  using assms
proof (induction L Ts arbitrary: u rule: paced.induct)
  case (1 L)
  then show ?case by (intro exI [of _ u]) (simp add: lines_of_open fun_eq_iff)
next
  case (2 L T Ts)
  let ?L = "snd (lines_of (L @ T))"
  from 2(3) have T: "0 \<notin> set T" "length L + length T \<le> 4096" "paced ?L Ts" by simp_all
  from process_user_input_holds [OF 2(2) T(1,2)] obtain u1 where u1: "holds u1 ?L"
    "process_user_input T u h = (\<lambda>s. andThen (run_steps h (fst (lines_of (L @ T))) s) (\<lambda>s'. Inr (Running (u1, s'))))"
    by blast
  from 2(1) [OF u1(1) T(3) lines_of_rest] obtain u' where u': "holds u' (snd (lines_of (?L @ concat Ts)))"
    "typed_pieces h Ts u1 = (\<lambda>s. andThen (run_steps h (fst (lines_of (?L @ concat Ts))) s) (\<lambda>s'. Inr (Running (u', s'))))"
    by blast
  have lines: "lines_of (L @ concat (T # Ts)) =
      (fst (lines_of (L @ T)) @ fst (lines_of (?L @ concat Ts)), snd (lines_of (?L @ concat Ts)))"
    using lines_of_append [of "L @ T" "concat Ts"] by simp
  have "typed_pieces h (T # Ts) u = (\<lambda>s. andThen (run_steps h (fst (lines_of (L @ concat (T # Ts)))) s)
      (\<lambda>s'. Inr (Running (u', s'))))"
    by (rule ext) (simp only: typed_pieces.simps u1(2) andRun_andThen prod.case u'(2) lines fst_conv run_steps_append andThen_assoc)
  with u'(1) show ?case by (intro exI [of _ u']) (simp only: lines snd_conv)
qed

section \<open>A call on any buffer\<close>

text \<open>Whatever is typed, whatever the buffer holds: the call ends, and the buffer stays a string.\<close>

lemma process_user_input_total:
  assumes "iobuf_ok u"
  shows "\<exists>u' ls. iobuf_ok u' \<and> process_user_input typed u h =
      (\<lambda>s. andThen (run_steps h ls s) (\<lambda>s'. Inr (Running (u', s')))) \<or> process_user_input typed u h = (\<lambda>s. Inr (Exited (-1)))"
proof (cases "unat (cur u) \<ge> USERBUF_SIZE - 1")
  case True
  then have "process_user_input typed u h = (\<lambda>s. Inr (Exited (-1)))" by (simp add: process_user_input_def fun_eq_iff)
  then show ?thesis by blast
next
  case False
  let ?got = "take (8191 - unat (cur u)) typed"
  let ?u = "u\<lparr>buf := overwrite (buf u) (unat (cur u)) ?got, cur := cur u + of_nat (length ?got)\<rparr>"
  have len: "length (buf u) = 8192" "buf u ! 8191 = 0" using assms by (simp_all add: iobuf_ok_def)
  have fits: "unat (cur u) + length ?got \<le> 8191" using False by simp
  have "drop 8191 (overwrite (buf u) (unat (cur u)) ?got) = drop 8191 (buf u)"
    by (rule drop_overwrite) (use fits len in simp_all)
  then have "drop 8191 (overwrite (buf u) (unat (cur u)) ?got) ! 0 = drop 8191 (buf u) ! 0" by (simp only:)
  then have "overwrite (buf u) (unat (cur u)) ?got ! 8191 = buf u ! 8191"
    using len fits by (simp add: nth_drop)
  then have ok: "iobuf_ok ?u" using len fits by (simp add: iobuf_ok_def)
  have "length (c_string (buf ?u)) \<le> length (buf ?u)" by (simp add: c_string_def length_takeWhile_le del: length_overwrite)
  from handle_lines_lines [OF ok this, of h] obtain u' where "iobuf_ok u'"
    "handle_lines h (length (buf ?u)) ?u = (\<lambda>s. andThen (run_steps h (fst (lines_of (c_string (buf ?u)))) s) (\<lambda>s'. Inr (u', s')))"
    by blast
  with False show ?thesis
    by (intro exI [of _ u'] exI [of _ "fst (lines_of (c_string (buf ?u)))"] disjI1)
      (simp add: process_user_input_def Let_def fun_eq_iff andThen_assoc)
qed

lemma typed_pieces_total:
  assumes "iobuf_ok u"
  shows "\<exists>r. typed_pieces (\<lambda>l s. Inr (g l s)) Ts u s = Inr r \<and> r \<noteq> Aborted"
  using assms
proof (induction Ts arbitrary: u s)
  case Nil
  then show ?case by simp
next
  case (Cons T Ts)
  have handled: "\<exists>s'. run_steps (\<lambda>l s. Inr (g l s)) ls s = Inr s'" for ls s
    by (induction ls arbitrary: s) auto
  from process_user_input_total [OF Cons.prems, of T "\<lambda>l s. Inr (g l s)"] show ?case
  proof (elim exE conjE disjE)
    fix u' ls
    assume u': "iobuf_ok u'" and call: "process_user_input T u (\<lambda>l s. Inr (g l s)) =
      (\<lambda>s. andThen (run_steps (\<lambda>l s. Inr (g l s)) ls s) (\<lambda>s'. Inr (Running (u', s'))))"
    obtain s' where "run_steps (\<lambda>l s. Inr (g l s)) ls s = Inr s'" using handled by blast
    with Cons.IH [OF u', of s'] call show ?thesis by simp
  qed simp
qed

section \<open>Bytes that stay behind\<close>

lemma handle_lines_at:
  assumes "iobuf_ok u" and "buf u = w @ 0x0a # rest" and "0 \<notin> set w" and "0x0a \<notin> set w"
  shows "handle_lines h (Suc n) u s = andThen (h w s) (handle_lines h n (after_line (length w) u))"
    and "iobuf_ok (after_line (length w) u)"
    and "buf (after_line (length w) u) = rest @ drop (USERBUF_SIZE - length w) (w @ 0 # rest)"
proof -
  have z: "0 \<in> set (buf u)" by (rule iobuf_ok_zero [OF assms(1)])
  have str: "c_string (buf u) = w @ 0x0a # c_string rest"
    using assms(3) unfolding assms(2) c_string_def by (subst takeWhile_append2) auto
  have tw: "takeWhile (\<lambda>c. c \<noteq> 0x0a) (w @ 0x0a # c_string rest) = w" using assms(4) by (subst takeWhile_append2) auto
  have found: "strchr 0x0a (buf u) = Inr (Some (length w))" unfolding strchr_def str Let_def tw using z by simp
  have "take (length w) (buf u) = w" by (simp add: assms(2))
  then show "handle_lines h (Suc n) u s = andThen (h w s) (handle_lines h n (after_line (length w) u))"
    and "iobuf_ok (after_line (length w) u)"
    using handle_lines_Some(1,2) [OF assms(1) found] by simp_all
  show "buf (after_line (length w) u) = rest @ drop (USERBUF_SIZE - length w) (w @ 0 # rest)"
    by (simp add: after_line_def assms(2))
qed

lemma process_user_input_call:
  assumes "iobuf_ok u" and "cur u = of_nat n" and "n + length T \<le> 8191" and "n < 8190"
  shows "process_user_input T u h s = andThen (handle_lines h 8192
    (u\<lparr>buf := overwrite (buf u) n T, cur := of_nat (n + length T)\<rparr>) s) (\<lambda>r. Inr (Running r))"
proof -
  have "unat (cur u) = n" "take (8191 - n) T = T" "length (overwrite (buf u) n T) = 8192"
    using assms by (simp_all add: unat_small iobuf_ok_def)
  with assms(2,4) show ?thesis by (simp add: process_user_input_def Let_def)
qed

lemma stale_run:
  assumes "length w = 4095" and "0 \<notin> set w" and "0x0a \<notin> set w"
    and "length v = 4095" and "0 \<notin> set v" and "0x0a \<notin> set v"
  shows "typed_pieces h [w @ [0x0a, 0x0a], v, typed] create_userbuf s =
    andThen (run_steps h [w, [], v] s) (\<lambda>_. Inr (Exited (-1)))"
proof -
  define u1 where "u1 = create_userbuf\<lparr>buf := overwrite (buf create_userbuf) 0 (w @ [0x0a, 0x0a]), cur := of_nat 4097\<rparr>"
  have b1: "buf u1 = w @ 0x0a # 0x0a # replicate 4095 0"
    using assms(1) by (simp add: u1_def create_userbuf_def overwrite_def drop_replicate del: replicate_Suc)
  have ok1: "iobuf_ok u1" using assms(1) by (simp add: iobuf_ok_def b1 nth_append nth_Cons' del: replicate_Suc)
  note line1 = handle_lines_at [OF ok1 b1 assms(2,3)]
  define u2 where "u2 = after_line (length w) u1"
  have b2: "buf u2 = [] @ 0x0a # replicate 4095 0 @ 0x0a # replicate 4095 0"
    unfolding u2_def line1(3) using assms(1) by simp
  have empty: "0 \<notin> set ([] :: byte list)" "0x0a \<notin> set ([] :: byte list)" by simp_all
  note line2 = handle_lines_at [OF line1(2) [folded u2_def] b2 empty]
  define u3 where "u3 = after_line (length ([] :: byte list)) u2"
  have b3: "buf u3 = replicate 4095 0 @ 0x0a # replicate 4096 0"
  proof -
    have tail: "drop (8191 - length ([] :: byte list)) ([] @ 0 # replicate 4095 0 @ 0x0a # replicate 4095 (0 :: byte)) = [0]"
      by (simp add: drop_Cons' drop_replicate)
    have "replicate 4095 0 @ [0] = replicate 4096 (0 :: byte)"
      using replicate_Suc [of 4095 "0 :: byte"] by (simp add: replicate_append_same del: replicate_Suc)
    then show ?thesis unfolding u3_def line2(3) tail by simp
  qed
  have c3: "cur u3 = of_nat 0" by (simp add: u3_def u2_def u1_def after_line_def assms(1))
  have ok3: "iobuf_ok u3" using line2(2) by (simp add: u3_def)
  have stop3: "handle_lines h n u3 s = Inr (u3, s)" for n s
    by (rule handle_lines_None, rule strchr_None) (simp_all add: b3 c_string_def takeWhile_append del: replicate_Suc)
  have piece1: "process_user_input (w @ [0x0a, 0x0a]) create_userbuf h s =
      andThen (h w s) (\<lambda>s. andThen (h [] s) (\<lambda>s. Inr (Running (u3, s))))" for s
  proof -
    have "process_user_input (w @ [0x0a, 0x0a]) create_userbuf h s =
        andThen (handle_lines h (Suc 8191) u1 s) (\<lambda>r. Inr (Running r))"
      using process_user_input_call [OF create_userbuf_ok, of 0 "w @ [0x0a, 0x0a]" h s] assms(1)
      by (simp add: u1_def create_userbuf_def del: replicate_Suc)
    also have "\<dots> = andThen (h w s) (\<lambda>s. andThen (handle_lines h (Suc 8190) u2 s) (\<lambda>r. Inr (Running r)))"
      unfolding line1(1) by (simp add: andThen_assoc u2_def)
    also have "\<dots> = andThen (h w s) (\<lambda>s. andThen (h [] s) (\<lambda>s. Inr (Running (u3, s))))"
      unfolding line2(1) by (simp only: andThen_assoc u3_def [symmetric] stop3 andThen_Inr)
    finally show ?thesis .
  qed
  define u4 where "u4 = u3\<lparr>buf := overwrite (buf u3) 0 v, cur := of_nat 4095\<rparr>"
  have b4: "buf u4 = v @ 0x0a # replicate 4096 0"
    using assms(4) by (simp add: u4_def b3 overwrite_def drop_replicate del: replicate_Suc)
  have ok4: "iobuf_ok u4" using assms(4) by (simp add: iobuf_ok_def b4 nth_append nth_Cons' del: replicate_Suc)
  note line4 = handle_lines_at [OF ok4 b4 assms(5,6)]
  define u5 where "u5 = after_line (length v) u4"
  have b5: "buf u5 = replicate 8192 0"
    unfolding u5_def line4(3) using assms(4) by (simp add: drop_Cons' drop_replicate replicate_add [symmetric] del: replicate_Suc)
  have c5: "cur u5 = - 1" by (simp add: u5_def u4_def after_line_def assms(4))
  have stop5: "handle_lines h n u5 s = Inr (u5, s)" for n s
    by (rule handle_lines_None, rule strchr_None) (simp_all add: b5 c_string_def del: replicate_Suc)
  have piece2: "process_user_input v u3 h s = andThen (h v s) (\<lambda>s. Inr (Running (u5, s)))" for s
  proof -
    have "process_user_input v u3 h s = andThen (handle_lines h (Suc 8191) u4 s) (\<lambda>r. Inr (Running r))"
      using process_user_input_call [OF ok3 c3, of v h s] assms(4) by (simp add: u4_def)
    then show ?thesis unfolding line4(1) by (simp add: andThen_assoc stop5 u5_def [symmetric])
  qed
  have piece3: "process_user_input typed u5 h s = Inr (Exited (-1))" for s
    by (simp add: process_user_input_def c5 unsigned_minus_1_eq_mask mask_eq_exp_minus_1)
  show ?thesis
    by (simp add: piece1 piece2 piece3 andRun_def andThen_assoc cong: andThen_cong)
qed

section \<open>Properties\<close>



text \<open>
  C27. Every call of \<open>process_user_input\<close> ends: whatever bytes are typed, however they are split, and
  whatever total function handles the lines, the loop returns or the process exits because the buffer is
  full. No byte outside the buffer is touched.
\<close>

theorem process_user_input_ends:
  "\<exists>r. typed_pieces (\<lambda>line s. Inr (g line s)) Ts create_userbuf s = Inr r \<and> r \<noteq> Aborted"
  by (rule typed_pieces_total [OF create_userbuf_ok])

text \<open>
  C38. The bound of 4096 bytes is sharp. A line of 4095 bytes and an empty line, read together, leave the
  second newline behind in the buffer, because \<open>memmove\<close> copies the rest of the buffer but clears nothing
  behind it. The next 4095 bytes are then handled as a line although no newline was typed, \<open>cur\<close> drops
  below zero, and the process exits at the next input.
\<close>

theorem stale_newline:
  assumes "length w = 4095" and "0 \<notin> set w" and "0x0a \<notin> set w"
    and "length v = 4095" and "0 \<notin> set v" and "0x0a \<notin> set v"
  shows "typed_pieces h [w @ [0x0a, 0x0a], v, typed] create_userbuf s =
    andThen (run_steps h [w, [], v] s) (\<lambda>_. Inr (Exited (-1)))"
  using assms by (rule stale_run)

theorem stale_newline_witness:
  "typed_pieces (\<lambda>l ls. Inr (ls @ [l])) [replicate 4095 0x61 @ [0x0a, 0x0a], replicate 4095 0x62, [0x63]] create_userbuf [] =
    Inr (Exited (-1))"
proof -
  have "typed_pieces (\<lambda>l ls. Inr (ls @ [l])) [replicate 4095 0x61 @ [0x0a, 0x0a], replicate 4095 0x62, [0x63]] create_userbuf [] =
      andThen (run_steps (\<lambda>l ls. Inr (ls @ [l])) [replicate 4095 (0x61 :: byte), [], replicate 4095 0x62] [])
        (\<lambda>_. Inr (Exited (-1)))"
    by (rule stale_newline) (simp_all del: replicate_Suc)
  then show ?thesis by (simp del: typed_pieces.simps)
qed

end
