(* ===== verification/Keyboard.thy ===== *)
theory Keyboard imports Chunk_Files Input_Buffer Main_Loop begin

text \<open>
  The user's commands: \<open>handle_user_input\<close> and \<open>process_get\<close> of \<open>peer.c\<close> on the lines of the keyboard
  buffer, and the main loop with the keyboard connected. Whatever is typed, the peer's invariant holds.
\<close>

section \<open>Commands\<close>

text \<open>
  \<open>sscanf(line, "GET %120s %120s", chunkf, outf)\<close> on cleared buffers: the value it returns and the two
  strings. The value is \<open>EOF\<close>, which is not zero, if the line ends before the first word does.
\<close>

abbreviation (input) GET_COMMAND :: "byte list" where "GET_COMMAND \<equiv> [0x47, 0x45, 0x54]"

definition sscanf_get :: "byte list \<Rightarrow> int \<times> byte list \<times> byte list" where
  "sscanf_get line =
     (if take 3 line = GET_COMMAND
      then case scan_s_max 120 (drop 3 line) of
             None \<Rightarrow> (-1, [], [])
           | Some (chunkf, rest) \<Rightarrow>
               (case scan_s_max 120 rest of
                  None \<Rightarrow> (1, chunkf, [])
                | Some (outf, rest) \<Rightarrow> (2, chunkf, outf))
      else if line = take (length line) GET_COMMAND then (-1, [], []) else (0, [], []))"

definition get_command :: "nat \<Rightarrow> byte list \<Rightarrow> byte list \<Rightarrow> peer_s \<Rightarrow> peer_s result" where
  "get_command room chunkfile outputfile s =
     andThen (malloc_new_job room chunkfile outputfile s) (\<lambda>(new_job, s). process_get new_job s)"

definition handle_user_input :: "nat \<Rightarrow> byte list \<Rightarrow> peer_s \<Rightarrow> peer_s result" where
  "handle_user_input room line s =
     (let (converted, chunkf, outf) = sscanf_get line
      in if converted \<noteq> 0 \<and> length outf > 0 then get_command room chunkf outf s else Inr s)"

section \<open>The main loop with its keyboard\<close>

text \<open>
  One turn of the loop: \<open>inbound\<close> is the datagram at the socket, \<open>typed\<close> the text at the standard input,
  each if \<open>select\<close> found the descriptor readable.
\<close>

type_synonym loop_state = "timeval \<times> user_iobuf \<times> peer_s"

definition peer_loop_turn ::
  "nat \<Rightarrow> (byte list \<times> sockaddr_in) option \<times> byte list option \<Rightarrow> loop_state \<Rightarrow> loop_state process result" where
  "peer_loop_turn room = (\<lambda>(inbound, typed) (last_flood_whohas_time, userbuf, s).
     andThen (case inbound of None \<Rightarrow> Inr s | Some (bytes, sender) \<Rightarrow> process_inbound_udp bytes sender s) (\<lambda>s.
     andRun (case typed of None \<Rightarrow> Inr (Running (userbuf, s))
             | Some input \<Rightarrow> process_user_input input userbuf (handle_user_input room) s) (\<lambda>(userbuf, s).
     andThen (peer_run_tasks (last_flood_whohas_time, s)) (\<lambda>(last, s).
     Inr (Running (last, userbuf, s))))))"

text \<open>The process: it stays in the loop until it exits.\<close>

definition peer_loop_step ::
  "nat \<Rightarrow> (byte list \<times> sockaddr_in) option \<times> byte list option \<Rightarrow> loop_state process \<Rightarrow> loop_state process result" where
  "peer_loop_step room i p = andRun (Inr p) (peer_loop_turn room i)"

section \<open>Typed commands keep the invariant\<close>

text \<open>The buffer of a line has 64 bytes, so no word of it with its zero is longer than 63.\<close>

lemma new_chunk_fresh: "new_chunk c \<Longrightarrow> chunk_ok c \<and> ck_status c = CHUNK_STATUS_NOT_FOUND"
  by (simp add: new_chunk_def chunk_ok_def)

lemma malloc_new_job_safe:
  assumes "63 \<le> room"
  shows "safe (malloc_new_job room chunkf outf s) (\<lambda>(job, s'). (\<forall>j. job = Some j \<longrightarrow> fresh_job j) \<and>
    (peer_inv s \<longrightarrow> peer_inv s'))"
proof (cases "files s chunkf")
  case None
  then show ?thesis by (simp add: malloc_new_job_def)
next
  case (Some content)
  let ?mem = "uninit s (ticks s)" and ?buf = "map (uninit s (Suc (ticks s))) [0..<room]"
  have "\<forall>line \<in> set (fgets_lines 64 content). length line \<le> room"
    using fgets_lines_bound [of _ 64 content] assms by fastforce
  from read_chunk_lines_fits [OF this, of ?mem 0 ?buf] obtain cs
    where cs: "read_chunk_lines room ?mem 0 ?buf (fgets_lines 64 content) = Inr cs" by blast
  from read_chunk_lines_new [OF cs] assms new_chunk_fresh have "fresh_job \<lparr>output_file_name = outf, chunks = cs\<rparr>"
    by (simp add: fresh_job_def)
  with Some cs show ?thesis by (auto simp: malloc_new_job_def fresh_memory_def Let_def)
qed

lemma get_command_inv:
  assumes "63 \<le> room" and "peer_inv s"
  shows "safe (get_command room chunkf outf s) peer_inv"
  unfolding get_command_def safe_andThen
proof (rule safe_mono [OF malloc_new_job_safe [OF assms(1)]])
  fix v
  assume v: "case v of (job, s') \<Rightarrow> (\<forall>j. job = Some j \<longrightarrow> fresh_job j) \<and> (peer_inv s \<longrightarrow> peer_inv s')"
  obtain job s' where p: "v = (job, s')" by fastforce
  with v assms(2) have "peer_inv s'" "\<forall>j. job = Some j \<longrightarrow> fresh_job j" by auto
  with p process_get_inv show "safe (case v of (new_job, s) \<Rightarrow> process_get new_job s) peer_inv" by simp
qed

lemma handle_user_input_inv:
  assumes "63 \<le> room" and "peer_inv s"
  shows "safe (handle_user_input room line s) peer_inv"
  using assms get_command_inv by (simp add: handle_user_input_def case_prod_beta Let_def)

text \<open>The lines of a run are those of a machine that never faults.\<close>

interpretation typing: faultless "handle_user_input (63 + k)" "\<lambda>_ _. True" peer_inv for k
  by unfold_locales (use handle_user_input_inv in \<open>auto simp: safe_outcome\<close>)

lemma typed_lines_inv:
  assumes "63 \<le> room" and "peer_inv s"
  shows "safe (run_steps (handle_user_input room) ls s) peer_inv"
  using typing.run_safe [OF assms(2) fed_all, of ls "room - 63"] assms(1) by simp

definition loop_inv :: "loop_state process \<Rightarrow> bool" where
  "loop_inv p \<longleftrightarrow> (case p of Exited c \<Rightarrow> c = -1 | Aborted \<Rightarrow> False | Running (t, u, s) \<Rightarrow> iobuf_ok u \<and> peer_inv s)"

definition loop_admissible :: "loop_state process \<Rightarrow> (byte list \<times> sockaddr_in) option \<times> byte list option \<Rightarrow> bool" where
  "loop_admissible p i \<longleftrightarrow>
     (case (p, fst i) of (Running (t, u, s), Some (bytes, sender)) \<Rightarrow> friendly s bytes sender | _ \<Rightarrow> True)"

lemma typed_inv:
  assumes "63 \<le> room" and "iobuf_ok u" and "peer_inv s"
  shows "safe (process_user_input input u (handle_user_input room) s)
    (\<lambda>p. case p of Exited c \<Rightarrow> c = -1 | Aborted \<Rightarrow> False | Running (u, s) \<Rightarrow> iobuf_ok u \<and> peer_inv s)"
  using process_user_input_total [OF assms(2), of input "handle_user_input room"]
proof (elim exE conjE disjE)
  fix u' ls
  assume "iobuf_ok u'" and "process_user_input input u (handle_user_input room) =
    (\<lambda>s. andThen (run_steps (handle_user_input room) ls s) (\<lambda>s'. Inr (Running (u', s'))))"
  with typed_lines_inv [OF assms(1,3), of ls] show ?thesis by (auto simp: safe_andThen elim: safe_mono)
qed simp

lemma peer_loop_step_ok:
  assumes room: "63 \<le> room" and inv: "loop_inv p" and adm: "loop_admissible p i"
  shows "outcome {Use_After_Free} (peer_loop_step room i p) loop_inv"
proof (cases p)
  case (Running x)
  obtain t u s where x: "x = (t, u, s)" by (cases x)
  obtain inbound typed where i: "i = (inbound, typed)" by fastforce
  let ?F = "{Use_After_Free}"
  have u: "iobuf_ok u" and s: "peer_inv s" using inv by (simp_all add: loop_inv_def Running x)
  have inbound: "outcome ?F (case inbound of None \<Rightarrow> Inr s | Some (b, a) \<Rightarrow> process_inbound_udp b a s) peer_inv"
    using s adm process_inbound_udp_safe [OF s]
    by (auto simp: loop_admissible_def Running x i split: option.split intro: outcome_safe)
  have tasks: "outcome ?F (andThen (peer_run_tasks (t, s)) (\<lambda>(last, s). Inr (Running (last, u, s)))) loop_inv"
    if "peer_inv s" "iobuf_ok u" for u s
    using peer_run_tasks_ok [of s t] that
    by (auto simp: outcome_andThen turn_inv_def loop_inv_def elim: outcome_mono)
  have rest: "outcome ?F (andRun (case typed of None \<Rightarrow> Inr (Running (u, s))
             | Some input \<Rightarrow> process_user_input input u (handle_user_input room) s) (\<lambda>(userbuf, s).
     andThen (peer_run_tasks (t, s)) (\<lambda>(last, s). Inr (Running (last, userbuf, s))))) loop_inv"
    if "peer_inv s" for s
  proof (cases typed)
    case None
    with tasks [OF that u] show ?thesis by simp
  next
    case (Some input)
    have "outcome ?F (process_user_input input u (handle_user_input room) s)
      (\<lambda>p. case p of Exited c \<Rightarrow> c = -1 | Aborted \<Rightarrow> False | Running (u, s) \<Rightarrow> iobuf_ok u \<and> peer_inv s)"
      by (rule outcome_safe [OF typed_inv [OF room u that]])
    with Some tasks show ?thesis
      by (auto simp: andRun_def outcome_andThen loop_inv_def split: process.split elim!: outcome_mono)
  qed
  show ?thesis
    unfolding peer_loop_step_def Running x i andRun_simps peer_loop_turn_def prod.case outcome_andThen
    by (rule outcome_mono [OF inbound rest])
qed (use inv in \<open>simp_all add: peer_loop_step_def loop_inv_def\<close>)

text \<open>The process of a peer, for a frame that leaves enough bytes behind the buffer.\<close>

interpretation peer_process: machine "peer_loop_step 63" loop_admissible "{Use_After_Free}" loop_inv
  by unfold_locales (rule peer_loop_step_ok [OF order_refl])

section \<open>What a command does\<close>

lemma scan_s_max_word:
  assumes "w \<noteq> []" and "length w \<le> n" and "list_all (\<lambda>c. \<not> is_space c) w" and "rest = [] \<or> is_space (hd rest)"
  shows "scan_s_max n (0x20 # w @ rest) = Some (w, rest)"
proof -
  have w: "\<forall>c \<in> set w. \<not> is_space c" using assms(3) by (simp add: list_all_iff)
  have "dropWhile is_space (0x20 # w @ rest) = w @ rest" using assms(1) w by (cases w) (auto simp: is_space_def)
  moreover have "takeWhile (\<lambda>c. \<not> is_space c) (w @ rest) = w" using w assms(4) by (cases rest) auto
  moreover have "0 < n" using assms(1,2) by (cases w) auto
  ultimately show ?thesis using assms(1,2) by (simp add: scan_s_max_def)
qed

definition command_word :: "byte list \<Rightarrow> bool" where
  "command_word w \<longleftrightarrow> w \<noteq> [] \<and> length w \<le> 120 \<and> list_all (\<lambda>c. \<not> is_space c) w"

lemma sscanf_get_words:
  assumes "command_word w1" and "command_word w2"
  shows "sscanf_get (GET_COMMAND @ 0x20 # w1 @ 0x20 # w2) = (2, w1, w2)"
proof -
  have "scan_s_max 120 (0x20 # w1 @ 0x20 # w2) = Some (w1, 0x20 # w2)"
    using assms(1) by (intro scan_s_max_word) (simp_all add: command_word_def is_space_def)
  moreover have "scan_s_max 120 (0x20 # w2) = Some (w2, [])"
    using assms(2) scan_s_max_word [of w2 120 "[]"] by (simp add: command_word_def)
  ultimately show ?thesis by (simp add: sscanf_get_def)
qed

lemma send_all_whohas_outbox:
  "send_all_whohas_packet packets to s = s\<lparr>outbox := outbox s @ map (\<lambda>p. (to, datagram p)) packets\<rparr>"
  by (induction packets to s rule: send_all_whohas_packet.induct) (simp_all add: send_packet_def)

lemma send_whohas_outbox:
  "send_whohas_to_peers packets ps s = s\<lparr>outbox := outbox s @
     concat (map (\<lambda>q. map (\<lambda>p. (peer_addr q, datagram p)) packets) (filter (\<lambda>q. peer_id q \<noteq> identity (config s)) ps))\<rparr>"
  by (induction packets ps s rule: send_whohas_to_peers.induct) (simp_all add: send_all_whohas_outbox)

lemma flood_whohas_outbox:
  assumes "current_job s = Some j" and "cell (jobs s) j = Some job"
    and "get_receiver_connection_number s = Inr n" and "n < max_receiver_connection s"
  shows "\<exists>mem. flood_whohas s = Inr (s\<lparr>ticks := Suc (ticks s), outbox := outbox s @
     concat (map (\<lambda>q. map (\<lambda>p. (peer_addr q, datagram p)) (malloc_all_whohas_packet mem job))
       (filter (\<lambda>q. peer_id q \<noteq> identity (config s)) (peers (config s))))\<rparr>)"
proof -
  let ?mem = "\<lambda>k i. uninit s (ticks s) (k * MAX_PACKET_LENGTH + HEADER_SIZE + i)"
  have none: "concat (map (\<lambda>q. map f []) qs) = []" for f :: "network_packet_s \<Rightarrow> sockaddr_in \<times> byte list" and qs :: "bt_peer_s list"
    by (induction qs) simp_all
  show ?thesis
    using assms by (intro exI [of _ ?mem])
      (simp add: flood_whohas_def fresh_memory_def Let_def send_whohas_outbox none)
qed

text \<open>The whole effect of a typed GET command.\<close>

lemma get_command_effect:
  assumes "command_word w1" and "command_word w2"
    and "make_chunks_main mem fs (name # args) = Inr (0, printed)" and "fs name = Some input" and "length input \<le> 2 ^ 50"
    and "files s w1 = Some printed" and "41 \<le> room"
    and "get_receiver_connection_number s = Inr n" and "n < max_receiver_connection s"
  shows "\<exists>job mem'. output_file_name job = w2 \<and> list_all new_chunk (chunks job) \<and>
    map hash_binary (chunks job) = map (\<lambda>i. sha1 (piece_of input i)) [0..<get_numchunks input] \<and>
    handle_user_input room (GET_COMMAND @ 0x20 # w1 @ 0x20 # w2) s = Inr (s\<lparr>ticks := Suc (Suc (Suc (ticks s))),
      jobs := snd (heap_alloc (jobs s) job), current_job := Some (brk (jobs s)),
      outbox := outbox s @ concat (map (\<lambda>q. map (\<lambda>p. (peer_addr q, datagram p)) (malloc_all_whohas_packet mem' job))
        (filter (\<lambda>q. peer_id q \<noteq> identity (config s)) (peers (config s))))\<rparr>)"
proof -
  from malloc_new_job_printed [OF assms(4,5,3,6,7), of w2] obtain job
    where job: "malloc_new_job room w1 w2 s = Inr (Some job, s\<lparr>ticks := Suc (Suc (ticks s))\<rparr>)"
      "output_file_name job = w2" "list_all new_chunk (chunks job)"
      "map hash_binary (chunks job) = map (\<lambda>i. sha1 (piece_of input i)) [0..<get_numchunks input]"
    by blast
  let ?j = "brk (jobs s)"
  let ?s = "s\<lparr>ticks := Suc (Suc (ticks s)), jobs := snd (heap_alloc (jobs s) job), current_job := Some ?j\<rparr>"
  have cell: "cell (jobs ?s) ?j = Some job" by (simp add: heap_alloc_def)
  have "get_receiver_connection_number ?s = Inr n" using assms(8) by (simp add: get_receiver_connection_number_def)
  with flood_whohas_outbox [of ?s ?j job n] cell assms(9) obtain mem' where
    flood: "flood_whohas ?s = Inr (?s\<lparr>ticks := Suc (ticks ?s), outbox := outbox ?s @
     concat (map (\<lambda>q. map (\<lambda>p. (peer_addr q, datagram p)) (malloc_all_whohas_packet mem' job))
       (filter (\<lambda>q. peer_id q \<noteq> identity (config ?s)) (peers (config ?s))))\<rparr>)"
    by auto
  show ?thesis
    using sscanf_get_words [OF assms(1,2)] job flood assms(2)
    by (intro exI [of _ job] exI [of _ mem'])
      (simp add: handle_user_input_def get_command_def process_get_def heap_alloc_def command_word_def)
qed

lemma new_chunks_asked:
  assumes "list_all new_chunk cs"
  shows "hashes_ok cs" and "filter not_found cs = cs"
  using assms by (simp_all add: hashes_ok_def list_all_iff new_chunk_def not_found_def filter_id_conv)

section \<open>Properties\<close>



end
