(* ===== verification/Announcement.thy ===== *)
theory Announcement imports Transfer_Sides Keyboard begin

text \<open>
  WHOHAS and IHAVE between two peers: how the two packets arrive, and what follows when the asked peer has
  every piece of the other one's job and that one has no connection yet. It then waits for all pieces, in
  the order of the job, and has sent the GET for the first of them.
\<close>

section \<open>How the packets arrive\<close>

text \<open>The hashes of a packet lie in the bytes that its length covers.\<close>

lemma announced_same:
  assumes "take (4 + 20 * length (announced_hashes pl)) pl' = take (4 + 20 * length (announced_hashes pl)) pl"
    and "pl \<noteq> []" and "pl' \<noteq> []"
  shows "announced_hashes pl' = announced_hashes pl"
proof -
  let ?n = "length (announced_hashes pl)"
  have nth: "xs ! 0 = take (4 + 20 * ?n) xs ! 0" if "xs \<noteq> []" for xs :: "byte list" using that by simp
  have "pl' ! 0 = pl ! 0" using nth [OF assms(2)] nth [OF assms(3)] assms(1) by simp
  then have count: "hash_count pl' = hash_count pl" by (simp add: hash_count_def)
  have part: "hash_at (take (4 + 20 * ?n) xs) i = hash_at xs i" if "i < ?n" for xs i
    using that by (simp add: hash_at_def drop_take min_def)
  have "hash_at pl' i = hash_at pl i" if "i < ?n" for i
      using part [OF that, of pl'] part [OF that, of pl] assms(1) by simp
  with count show ?thesis by (simp add: announced_hashes_def)
qed

lemma receive_hash_datagram:
  assumes "header pk = new_header ty (20 + 20 * length (announced_hashes (payload pk))) 0 0"
    and "length (payload pk) = 1484" and "length (announced_hashes (payload pk)) \<le> 74"
  shows "header (received_packet (receive_buffer mem (datagram pk))) = header pk"
    and "announced_hashes (payload (received_packet (receive_buffer mem (datagram pk)))) = announced_hashes
      (payload pk)"
    and "length (payload (received_packet (receive_buffer mem (datagram pk)))) = 1484"
proof -
  let ?pkt = "received_packet (receive_buffer mem (datagram pk))" and ?n = "length (announced_hashes (payload pk))"
  have n: "16 \<le> 20 + 20 * ?n" "20 + 20 * ?n \<le> 1500" "20 + 20 * ?n - 16 = 4 + 20 * ?n" using assms(3) by simp_all
  note r = received_datagram [OF assms(1) n(1,2), of mem, unfolded n(3)]
  show "header ?pkt = header pk" using r(1) assms(2) by simp
  show len: "length (payload ?pkt) = 1484" by (simp add: length_received_payload)
  show "announced_hashes (payload ?pkt) = announced_hashes (payload pk)"
    by (rule announced_same) (use r(2) assms(2) len in auto)
qed

lemma receive_whohas_datagram:
  assumes "header pk = new_header TYPE_WHOHAS (20 + 20 * length (announced_hashes (payload pk))) 0 0"
    and "length (payload pk) = 1484" and "length (announced_hashes (payload pk)) \<le> 74"
  obtains pkt where "process_inbound_udp (datagram pk) sender s = Inr (process_whohas pkt sender
      (s\<lparr>ticks := Suc (ticks s)\<rparr>))"
    and "announced_hashes (payload pkt) = announced_hashes (payload pk)" and "length (payload pkt) = 1484"
proof -
  let ?n = "length (announced_hashes (payload pk))"
      and ?pkt = "received_packet (receive_buffer (uninit s (ticks s)) (datagram pk))"
  note r = receive_hash_datagram [OF assms]
  have "header ?pkt = new_header 0 (20 + 20 * ?n) 0 0" using r(1) assms(1) by simp
  with new_header_valid [of 0 "20 + 20 * ?n" 0 0] assms(3)
  have "validate_packet (header ?pkt) = 1" "get_packet_type (header ?pkt) = 0" by simp_all
  then have "process_inbound_udp (datagram pk) sender s = Inr (process_whohas ?pkt sender (s\<lparr>ticks := Suc (ticks s)\<rparr>))"
    by (simp add: process_inbound_udp_def fresh_memory_def Let_def)
  with r(2,3) show thesis using that by blast
qed

lemma receive_ihave_datagram:
  assumes "header pk = new_header TYPE_IHAVE (20 + 20 * length (announced_hashes (payload pk))) 0 0"
    and "length (payload pk) = 1484" and "length (announced_hashes (payload pk)) \<le> 74"
  obtains pkt where "process_inbound_udp (datagram pk) sender s =
      process_ihave pkt (search_bt_peer (config s) sender) (s\<lparr>ticks := Suc (ticks s)\<rparr>)"
    and "announced_hashes (payload pkt) = announced_hashes (payload pk)" and "length (payload pkt) = 1484"
proof -
  let ?n = "length (announced_hashes (payload pk))"
      and ?pkt = "received_packet (receive_buffer (uninit s (ticks s)) (datagram pk))"
  note r = receive_hash_datagram [OF assms]
  have "header ?pkt = new_header 1 (20 + 20 * ?n) 0 0" using r(1) assms(1) by simp
  with new_header_valid [of 1 "20 + 20 * ?n" 0 0] assms(3)
  have "validate_packet (header ?pkt) = 1" "get_packet_type (header ?pkt) = 1" by simp_all
  then have "process_inbound_udp (datagram pk) sender s =
      process_ihave ?pkt (search_bt_peer (config s) sender) (s\<lparr>ticks := Suc (ticks s)\<rparr>)"
    by (simp add: process_inbound_udp_def fresh_memory_def Let_def)
  with r(2,3) show thesis using that by blast
qed

section \<open>The answer\<close>

lemma process_whohas_answers:
  assumes "length (payload pkt) = 1484" and "announced_hashes (payload pkt) \<noteq> []"
    and "\<forall>h \<in> set (announced_hashes (payload pkt)). owned (has_chunks s) h"
  shows "\<exists>p. process_whohas pkt sender s = s\<lparr>ticks := Suc (ticks s), outbox := outbox s @ [(sender, datagram p)]\<rparr> \<and>
    header p = new_header TYPE_IHAVE (20 + 20 * length (announced_hashes (payload pkt))) 0 0 \<and>
    length (payload p) = 1484 \<and> announced_hashes (payload p) = announced_hashes (payload pkt)"
proof -
  have "announced_hashes (payload pkt) = filter (owned (has_chunks s)) (announced_hashes (payload pkt))"
    using assms(3) by (simp add: filter_id_conv)
  from malloc_ihave_packet_spec(2) [OF assms(1) this assms(2), of "uninit s (ticks s)"] show ?thesis
    by (auto simp: process_whohas_def fresh_memory_def Let_def send_packet_def)
qed

section \<open>Taking the offer\<close>

abbreviation pending :: "chunk_s \<Rightarrow> chunk_s" where "pending k \<equiv> k\<lparr>ck_status := CHUNK_STATUS_PENDING\<rparr>"

lemma search_hash_skip: "h \<notin> hash_binary ` set ds \<Longrightarrow> search_hash h n (ds @ cs) = search_hash h (n + length ds) cs"
  by (induction ds arbitrary: n) auto

lemma add_ihave_all:
  assumes "current_job s = Some j" and "cell (jobs s) j = Some job" and "chunks job = ds @ cs"
    and "distinct (map hash_binary (ds @ cs))" and "list_all not_found cs" and "cell (receivers s) a = Some c"
  shows "add_ihave_loop (Some a) (map hash_binary cs) s = Inr (s\<lparr>
    jobs := (jobs s)\<lparr>cell := (cell (jobs s))(j \<mapsto> job\<lparr>chunks := ds @ map pending cs\<rparr>)\<rparr>,
    receivers := (receivers s)\<lparr>cell := (cell (receivers s))(a \<mapsto>
      c\<lparr>chunk_list := chunk_list c @ map (Pair j) [length ds..<length ds + length cs]\<rparr>)\<rparr>\<rparr>)"
  using assms
proof (induction cs arbitrary: ds s job c)
  case Nil
  have "job\<lparr>chunks := ds\<rparr> = job" using Nil.prems(3) by (cases job) simp
  then have J: "(jobs s)\<lparr>cell := (cell (jobs s))(j \<mapsto> job\<lparr>chunks := ds\<rparr>)\<rparr> = jobs s"
    using Nil.prems(2) by (cases "jobs s") (simp add: fun_upd_idem)
  have "c\<lparr>chunk_list := chunk_list c\<rparr> = c" by (cases c) simp
  then have L: "(receivers s)\<lparr>cell := (cell (receivers s))(a \<mapsto> c\<lparr>chunk_list := chunk_list c\<rparr>)\<rparr> = receivers s"
    using Nil.prems(6) by (cases "receivers s") (simp add: fun_upd_idem)
  then show ?case by (simp only: list.map add_ihave_loop.simps list.size(3) append_Nil2 add_0_right upt_conv_Nil
      order_refl J L) simp
next
  case (Cons k cs)
  let ?job = "job\<lparr>chunks := (ds @ [pending k]) @ cs\<rparr>" and ?c = "c\<lparr>chunk_list := chunk_list c @ [(j, length ds)]\<rparr>"
  let ?s = "s\<lparr>jobs := (jobs s)\<lparr>cell := (cell (jobs s))(j \<mapsto> ?job)\<rparr>,
      receivers := (receivers s)\<lparr>cell := (cell (receivers s))(a \<mapsto> ?c)\<rparr>\<rparr>"
  have found: "search_hash (hash_binary k) 0 (chunks job) = Some (length ds)"
    using Cons.prems(3,4) by (simp add: search_hash_skip)
  have "add_ihave_loop (Some a) (map hash_binary (k # cs)) s = add_ihave_loop (Some a) (map hash_binary cs) ?s"
    using Cons.prems(1,2,3,5,6) found
    by (simp add: get_chunk_def heap_load_def load_job_chunk_def store_job_chunk_def heap_store_def not_found_def
        add_chunk_to_receiver_connection_def load_receiver_def store_receiver_def)
  also have "\<dots> = Inr (?s\<lparr>jobs := (jobs ?s)\<lparr>cell := (cell (jobs ?s))(j \<mapsto> ?job\<lparr>chunks := (ds @ [pending k]) @
      map pending cs\<rparr>)\<rparr>,
    receivers := (receivers ?s)\<lparr>cell := (cell (receivers ?s))(a \<mapsto>
      ?c\<lparr>chunk_list := chunk_list ?c @ map (Pair j)
          [length (ds @ [pending k])..<length (ds @ [pending k]) + length cs]\<rparr>)\<rparr>\<rparr>)"
    by (rule Cons.IH) (use Cons.prems in simp_all)
  finally show ?case by (simp add: upt_conv_Cons fun_upd_def cong: if_cong del: upt_Suc)
qed

lemma process_ihave_takes:
  assumes none: "receiver_connection_head s = None" "cell (receivers s) = Map.empty" "0 < max_receiver_connection s"
    and job: "current_job s = Some j" "cell (jobs s) j = Some job" "chunks job = k # ks"
    and new: "distinct (map hash_binary (chunks job))" "list_all not_found (chunks job)"
    and pkt: "announced_hashes (payload pkt) = map hash_binary (chunks job)" and p: "p < length (peers (config s))"
  shows "\<exists>t h mem a c. process_ihave pkt (Some p) s = Inr (s\<lparr>ticks := t,
      jobs := (jobs s)\<lparr>cell := (cell (jobs s))(j \<mapsto> job\<lparr>chunks := k\<lparr>ck_status := CHUNK_STATUS_DOWNDLOADING\<rparr>
          # map pending ks\<rparr>)\<rparr>,
      receivers := h, receiver_connection_head := Some a,
      outbox := outbox s @ [(peer_addr (peers (config s) ! p), get_datagram mem (hash_binary k))]\<rparr>) \<and>
    cell h = [a \<mapsto> c] \<and> rc_provider c = Some p \<and> chunk_list c = map (Pair j) [0..<length (chunks job)]"
proof -
  define c0 where "c0 = fst (init_receiver_connection (blank_receiver_connection (Some p)) s)"
  let ?a = "brk (receivers s)" and ?n = "length (chunks job)"
  define c1 where "c1 = c0\<lparr>chunk_list := map (Pair j) [0..<?n]\<rparr>"
  have c0: "chunk_list c0 = []" "rc_provider c0 = Some p"
      "snd (init_receiver_connection (blank_receiver_connection (Some p)) s) = s\<lparr>ticks := Suc (ticks s)\<rparr>"
    by (simp_all add: c0_def init_receiver_connection_def blank_receiver_connection_def gettimeofday_def Let_def)
  let ?J = "(jobs s)\<lparr>cell := (cell (jobs s))(j \<mapsto> job\<lparr>chunks := map pending (chunks job)\<rparr>)\<rparr>"
  let ?s = "s\<lparr>ticks := Suc (ticks s), jobs := ?J, receivers := \<lparr>cell = [?a \<mapsto> c1], brk = Suc ?a\<rparr>\<rparr>"
  let ?z = "s\<lparr>ticks := Suc (ticks s), receivers := snd (heap_alloc (receivers s) c0)\<rparr>"
  have loop: "add_ihave_loop (Some ?a) (map hash_binary (chunks job)) ?z = Inr ?s"
  proof -
    let ?R = "receivers ?z"
    have "add_ihave_loop (Some ?a) (map hash_binary (chunks job)) ?z = Inr (?z\<lparr>
        jobs := (jobs ?z)\<lparr>cell := (cell (jobs ?z))(j \<mapsto> job\<lparr>chunks := [] @ map pending (chunks job)\<rparr>)\<rparr>,
        receivers := ?R\<lparr>cell := (cell ?R)(?a \<mapsto>
          c0\<lparr>chunk_list := chunk_list c0 @ map (Pair j)
              [length ([] :: chunk_s list)..<length ([] :: chunk_s list) + ?n]\<rparr>)\<rparr>\<rparr>)"
      by (rule add_ihave_all) (use job new in \<open>simp_all add: heap_alloc_def\<close>)
    moreover have "?R\<lparr>cell := (cell ?R)(?a \<mapsto> c1)\<rparr> = \<lparr>cell = [?a \<mapsto> c1], brk = Suc ?a\<rparr>"
      using none(2) by (cases "receivers s") (simp add: heap_alloc_def)
    ultimately show ?thesis using c0(1) by (simp add: c1_def)
  qed
  have "fst (init_receiver_connection (blank_receiver_connection (Some p)) s) = c0" by (simp add: c0_def)
  then have "malloc_receiver_connection pkt (Some p) s =
      andThen (add_ihave_loop (Some ?a) (map hash_binary (chunks job)) ?z) (\<lambda>s. andThen (load_receiver s (Some ?a)) (\<lambda>c.
         if chunk_list c = [] then andThen (free_receiver_connection (Some ?a) s) (\<lambda>s. Inr (None, s)) else Inr
             (Some ?a, s)))"
    using c0(3) by (simp add: malloc_receiver_connection_def case_prod_beta add_ihave_to_receiver_connection_def
        pkt Let_def heap_alloc_def cong: if_cong)
  then have malloc: "malloc_receiver_connection pkt (Some p) s = Inr (Some ?a, ?s)"
    using job(3) unfolding loop by (simp add: load_receiver_def heap_load_def c1_def)
  let ?c2 = "c1\<lparr>rc_next := None\<rparr>"
  let ?s2 = "?s\<lparr>receivers := \<lparr>cell = [?a \<mapsto> ?c2], brk = Suc ?a\<rparr>, receiver_connection_head := Some ?a\<rparr>"
  have add: "add_receiver_connection (Some ?a) ?s = Inr ?s2"
    using none(1) by (simp add: add_receiver_connection_def load_receiver_def store_receiver_def heap_load_def
      heap_store_def)
  have list: "chunk_list ?c2 = (j, 0) # map (Pair j) [1..<?n]"
    using job(3) upt_conv_Cons [of 0 ?n] by (simp add: c1_def del: upt_Suc)
  have k: "jchunk (jobs ?s2) (j, 0) = Some (pending k)" using job(3) by (simp add: jchunk_def)
  have "start_connection (Some ?a) ?s2 = Inr (?s2\<lparr>
      jobs := put_chunk (jobs ?s2) (j, 0) ((pending k)\<lparr>ck_status := CHUNK_STATUS_DOWNDLOADING\<rparr>),
      receivers := (receivers ?s2)\<lparr>cell := (cell (receivers ?s2))(?a \<mapsto>
        ?c2\<lparr>last_get_time := Some (clock ?s2 (Suc (ticks ?s2)))\<rparr>)\<rparr>,
      ticks := Suc (Suc (ticks ?s2)),
      outbox := outbox ?s2 @ [(peer_addr (peers (config ?s2) ! p),
        datagram (malloc_get_packet (uninit ?s2 (ticks ?s2)) (hash_binary (pending k))))]\<rparr>)"
    by (rule start_connection_eq [OF _ list k]) (use p c0(2) in \<open>simp_all add: c1_def\<close>)
  then have start: "start_connection (Some ?a) ?s2 = Inr (s\<lparr>ticks := Suc (Suc (Suc (ticks s))),
      jobs := (jobs s)\<lparr>cell := (cell (jobs s))(j \<mapsto> job\<lparr>chunks := k\<lparr>ck_status := CHUNK_STATUS_DOWNDLOADING\<rparr>
          # map pending ks\<rparr>)\<rparr>,
      receivers := \<lparr>cell = [?a \<mapsto> ?c2\<lparr>last_get_time := Some (clock s (Suc (Suc (ticks s))))\<rparr>], brk = Suc ?a\<rparr>,
      receiver_connection_head := Some ?a,
      outbox := outbox s @ [(peer_addr (peers (config s) ! p), get_datagram (uninit s (Suc (ticks s)))
          (hash_binary k))]\<rparr>)"
    using job(3) by (simp add: put_chunk_def)
  have "process_ihave pkt (Some p) s = start_connection (Some ?a) ?s2"
    using none(1,3) job(1) malloc add
    by (simp add: process_ihave_def search_receiver_connection_def get_receiver_connection_number_def)
  with start show ?thesis
    by (intro exI [of _ "Suc (Suc (Suc (ticks s)))"] exI
      [of _ "\<lparr>cell = [?a \<mapsto> ?c2\<lparr>last_get_time := Some (clock s (Suc (Suc (ticks s))))\<rparr>], brk = Suc ?a\<rparr>"]
        exI [of _ "uninit s (Suc (ticks s))"] exI [of _ ?a] exI
            [of _ "?c2\<lparr>last_get_time := Some (clock s (Suc (Suc (ticks s))))\<rparr>"])
      (simp add: c1_def c0(2))
qed

end
