(* ===== verification/Download.thy ===== *)
theory Download imports Chunk_Transfer Announcement "HOL-Library.Sublist" begin

text \<open>
  The download of a whole file from one other peer: the GET command, WHOHAS, IHAVE, one chunk after the
  other, and the end of the job. The steps are those of a transfer, the flood and the end of a job, and
  the loss of datagrams; the transfers of the single chunks are those of theory \<open>Chunk_Transfer\<close>.
\<close>

section \<open>Steps\<close>

inductive download_step :: "sockaddr_in \<Rightarrow> sockaddr_in \<Rightarrow> session \<Rightarrow> session \<Rightarrow> bool" for pa ra :: sockaddr_in where
  transfers:
    "prov_addr x = pa \<Longrightarrow> recv_addr x = ra \<Longrightarrow> session_step x S S' \<Longrightarrow> download_step pa ra S S'"
| floods:
    "flood_whohas (recv S) = Inr R \<Longrightarrow> download_step pa ra S (S\<lparr>recv := R\<rparr>)"
| ends_job:
    "finish_job (recv S) = Inr R \<Longrightarrow> download_step pa ra S (S\<lparr>recv := R\<rparr>)"
| loses_to_prov:
    "subseq out (outbox (recv S)) \<Longrightarrow> download_step pa ra S (S\<lparr>recv := (recv S)\<lparr>outbox := out\<rparr>\<rparr>)"
| loses_to_recv:
    "subseq out (outbox (prov S)) \<Longrightarrow> download_step pa ra S (S\<lparr>prov := (prov S)\<lparr>outbox := out\<rparr>\<rparr>)"

inductive_cases download_stepE [elim!]: "download_step pa ra S S'"

lemma transfer_downloads:
  assumes "(session_step x)\<^sup>*\<^sup>* S S'"
  shows "(download_step (prov_addr x) (recv_addr x))\<^sup>*\<^sup>* S S'"
  using assms by (induction rule: rtranclp_induct) (auto intro: rtranclp.rtrancl_into_rtrancl download_step.transfers)

lemma loses_all:
  assumes "subseq out (outbox (recv S))"
  shows "(download_step pa ra)\<^sup>*\<^sup>* S \<lparr>prov = (prov S)\<lparr>outbox := []\<rparr>, recv = (recv S)\<lparr>outbox := out\<rparr>\<rparr>"
proof -
  let ?S = "S\<lparr>recv := (recv S)\<lparr>outbox := out\<rparr>\<rparr>"
  have "download_step pa ra S ?S" by (rule loses_to_prov [OF assms])
  moreover have "download_step pa ra ?S (?S\<lparr>prov := (prov ?S)\<lparr>outbox := []\<rparr>\<rparr>)" by (rule loses_to_recv) simp
  moreover have "?S\<lparr>prov := (prov ?S)\<lparr>outbox := []\<rparr>\<rparr> = \<lparr>prov = (prov S)\<lparr>outbox := []\<rparr>, recv = (recv S)\<lparr>outbox := out\<rparr>\<rparr>"
    by (cases S) simp
  ultimately show ?thesis by (metis rtranclp.rtrancl_into_rtrancl r_into_rtranclp)
qed

section \<open>One chunk after the other\<close>

text \<open>The data of every chunk that is wanted: it has the announced digest and the provider has it.\<close>

definition good_data :: "setting \<Rightarrow> (chunk_ref \<Rightarrow> byte list) \<Rightarrow> bool" where
  "good_data x data \<longleftrightarrow>
     data (piece x) = piece_data x \<and> sha1 (piece_data x) = piece_hash x \<and>
     (\<forall>r \<in> set (later x). length (data r) = CHUNK_DATA_SIZE \<and> (sha1 (data r), data r) \<in> set (library x) \<and>
        (\<exists>k. others x r = Some k \<and> hash_binary k = sha1 (data r))) \<and>
     (\<forall>t name. disk_append x t name) \<and> (\<forall>t. CHUNK_DATA_SIZE \<le> disk_space x t)"

lemma provides_found: "provides P (h, d) \<Longrightarrow> \<exists>i. seach_owned_chunk (has_chunks P) h = Some i"
  by (auto simp: provides_def dest: load_chunk_entry(1) split: prod.splits option.splits)

lemma judged_good:
  assumes "good_data x data" and "judged x R"
  shows "\<exists>k. jchunk (jobs R) (piece x) = Some k \<and> ck_status k = CHUNK_STATUS_FINISHED"
    and "files R (out_name x) = Some (out_before x @ data (piece x))"
proof -
  have disk: "disk_append x t name" "\<not> disk_space x t < CHUNK_DATA_SIZE" for t name
    using assms(1) by (auto simp: good_data_def not_less)
  from assms disk show "\<exists>k. jchunk (jobs R) (piece x) = Some k \<and> ck_status k = CHUNK_STATUS_FINISHED"
    "files R (out_name x) = Some (out_before x @ data (piece x))"
    unfolding judged_def good_data_def by auto
qed

text \<open>The setting of the next chunk, and that it is one when the datagrams of the last one are gone.\<close>

definition next_setting :: "setting \<Rightarrow> (chunk_ref \<Rightarrow> byte list) \<Rightarrow> peer_s \<Rightarrow> peer_s \<Rightarrow> chunk_ref \<Rightarrow> chunk_ref list \<Rightarrow>
    setting" where
  "next_setting x data P R r rs =
     x\<lparr>piece := r, piece_hash := sha1 (data r), owned_index := the (seach_owned_chunk (has_chunks P) (sha1 (data r))),
       piece_data := data r, later := rs, others := jchunk (jobs R), out_before := out_before x @ data (piece x)\<rparr>"

lemma next_chunk_starts:
  assumes x: "setting_ok x" and good: "good_data x data" and later: "later x = r # rs"
    and pend: "chunk_ok k" "ck_status k = CHUNK_STATUS_PENDING" "others x r = Some k"
    and P: "providing x P []" and R: "fetching x R 512"
  shows "\<exists>out. let y = next_setting x data P R r rs in
    subseq out (outbox R) \<and> setting_ok y \<and> providing y (P\<lparr>outbox := []\<rparr>) [] \<and> fetching y (R\<lparr>outbox := out\<rparr>) 0"
proof -
  let ?y = "next_setting x data P R r rs"
  have d: "length (data r) = CHUNK_DATA_SIZE" "(sha1 (data r), data r) \<in> set (library x)"
      "hash_binary k = sha1 (data r)"
    using good pend(3) by (auto simp: good_data_def later)
  have rec: "received x R" using R by (simp add: fetching_def)
  then obtain mem where kR: "jchunk (jobs R) r = Some (k\<lparr>ck_status := CHUNK_STATUS_DOWNDLOADING\<rparr>)"
    and get: "(prov_addr x, get_datagram mem (sha1 (data r))) \<in> set (outbox R)"
    using pend(3) d(3) that unfolding received_def later by (simp del: split_paired_All) auto
  let ?out = "[(prov_addr x, get_datagram mem (sha1 (data r)))]"
      and ?R = "R\<lparr>outbox := [(prov_addr x, get_datagram mem (sha1 (data r)))]\<rparr>"
  have "subseq ?out (outbox R)" using get by (simp add: subseq_singleton_left)
  moreover have "setting_ok ?y" using x d by (simp add: setting_ok_def next_setting_def length_sha1 SHA1_HASH_SIZE_def)
  moreover have "providing ?y (P\<lparr>outbox := []\<rparr>) []"
  proof -
    let ?P = "P\<lparr>outbox := []\<rparr>"
    have lib: "\<forall>e \<in> set (library x). provides ?P e"
      using providingD(11) [OF P] by (simp add: provides_same [of ?P P])
    then obtain i where "seach_owned_chunk (has_chunks P) (sha1 (data r)) = Some i"
      using provides_found d(2) by fastforce
    moreover obtain ps where "provide_ok P ps []" using P by (auto simp: providing_def)
    then have "provide_ok ?P ps []" by (simp add: provide_ok_def)
    ultimately show ?thesis
      using providingD(8-10) [OF P] lib unfolding providing_def next_setting_def by auto
  qed
  moreover have "fetching ?y ?R 0"
  proof -
    have "receive_inv ?R" using R by (simp add: fetching_def receive_inv_def receive_ok_def)
    moreover have "answers ?y (set (outbox ?R)) 0" by (auto simp: answers_def next_setting_def)
    moreover have "running ?y ?R 0"
    proof -
      obtain a c where c: "cell (receivers R) = [a \<mapsto> c]" "rc_provider c = Some (prov_index x)" "chunk_list c = r # rs"
        using rec by (auto simp: received_def later)
      have job: "job_at ?y ?R" using rec by (simp add: received_def job_at_def next_setting_def)
      have stored: "file_now ?R (out_name ?y) = out_before ?y"
        using judged_good(2) [OF good] rec by (simp add: received_def file_now_def next_setting_def)
      have "received_seq_num k = 0" using pend(1,2) by (simp add: chunk_ok_def)
      with c kR d(3) show ?thesis
        unfolding running_def
        by (intro conjI job stored exI [of _ a] exI [of _ c] exI [of _ "k\<lparr>ck_status := CHUNK_STATUS_DOWNDLOADING\<rparr>"])
          (simp_all add: next_setting_def split: option.split)
    qed
    ultimately show ?thesis using R by (simp add: fetching_def next_setting_def)
  qed
  ultimately show ?thesis unfolding Let_def by (intro exI [of _ ?out] conjI)
qed

lemma chunk_arrives:
  assumes "setting_ok x" and "providing x P []" and "fetching x R 0"
  shows "\<exists>S. (download_step (prov_addr x) (recv_addr x))\<^sup>*\<^sup>* \<lparr>prov = P, recv = R\<rparr> S \<and>
    providing x (prov S) [] \<and> fetching x (recv S) 512"
proof -
  let ?S = "\<lparr>prov = P, recv = R\<rparr>"
  have "session_at x ?S [] 0" using assms by (simp add: session_at_def)
  from session_ends [OF assms(1) this] obtain S1 S where
    "(session_step x)\<^sup>*\<^sup>* ?S S1" "session_step x S1 S" "session_at x S [] 512" by blast
  moreover from this(1,2) have "(download_step (prov_addr x) (recv_addr x))\<^sup>*\<^sup>* ?S S"
    by (rule transfer_downloads [OF rtranclp.rtrancl_into_rtrancl])
  ultimately show ?thesis by (auto simp: session_at_def)
qed

text \<open>The chunks of a connection, one after the other.\<close>

definition fetched :: "setting \<Rightarrow> (chunk_ref \<Rightarrow> byte list) \<Rightarrow> peer_s \<Rightarrow> bool" where
  "fetched x data R \<longleftrightarrow>
     receive_inv R \<and> cell (receivers R) = Map.empty \<and> job_at x R \<and>
     files R (out_name x) = Some (out_before x @ concat (map data (piece x # later x))) \<and>
     (\<forall>q \<in> set (piece x # later x). \<exists>k. jchunk (jobs R) q = Some k \<and> ck_status k = CHUNK_STATUS_FINISHED) \<and>
     (\<forall>q. q \<notin> set (piece x # later x) \<longrightarrow> jchunk (jobs R) q = others x q)"

lemma fetched_step:
  assumes "later x = r # rs" and "\<exists>k. jchunk (jobs R) (piece x) = Some k \<and> ck_status k = CHUNK_STATUS_FINISHED"
    and "\<forall>q. q \<noteq> piece x \<and> q \<noteq> r \<longrightarrow> jchunk (jobs R) q = others x q" and "piece x \<notin> set (later x)"
    and "fetched (next_setting x data P R r rs) data R'"
  shows "fetched x data R'"
proof -
  let ?y = "next_setting x data P R r rs"
  have y: "piece ?y = r" "later ?y = rs" "cur_job ?y = cur_job x" "out_name ?y = out_name x"
    "out_before ?y = out_before x @ data (piece x)" "others ?y = jchunk (jobs R)"
    by (simp_all add: next_setting_def)
  have kept: "jchunk (jobs R') q = jchunk (jobs R) q" if "q \<notin> set (later x)" for q
    using assms(5) that unfolding fetched_def y assms(1) by blast
  have "\<forall>q \<in> set (r # rs). \<exists>k. jchunk (jobs R') q = Some k \<and> ck_status k = CHUNK_STATUS_FINISHED"
    using assms(5) unfolding fetched_def y by simp
  then have "\<forall>q \<in> set (piece x # later x). \<exists>k. jchunk (jobs R') q = Some k \<and> ck_status k = CHUNK_STATUS_FINISHED"
    using assms(1,2) kept [OF assms(4)] by simp
  moreover have "\<forall>q. q \<notin> set (piece x # later x) \<longrightarrow> jchunk (jobs R') q = others x q"
    using assms(1,3) kept by simp
  ultimately show ?thesis
    using assms(5) unfolding fetched_def job_at_def y assms(1) by simp
qed

lemma chunks_arrive:
  assumes "setting_ok x" and "good_data x data" and "providing x P []" and "fetching x R 0"
  shows "\<exists>S. (download_step (prov_addr x) (recv_addr x))\<^sup>*\<^sup>* \<lparr>prov = P, recv = R\<rparr> S \<and> fetched x data (recv S)"
  using assms
proof (induction "later x" arbitrary: x P R)
  case Nil
  from chunk_arrives [OF Nil.prems(1,3,4)] obtain S where
    S: "(download_step (prov_addr x) (recv_addr x))\<^sup>*\<^sup>* \<lparr>prov = P, recv = R\<rparr> S" "fetching x (recv S) 512" by blast
  then have rec: "received x (recv S)" by (simp add: fetching_def)
  then have "judged x (recv S)" by (simp add: received_def)
  from judged_good [OF Nil.prems(2) this] rec Nil.hyps S(2) have "fetched x data (recv S)"
    by (auto simp: fetched_def received_def fetching_def)
  with S(1) show ?case by blast
next
  case (Cons r rs)
  let ?D = "download_step (prov_addr x) (recv_addr x)"
  have later: "later x = r # rs" using Cons.hyps(2) by simp
  obtain k where one: "piece x \<notin> set (later x)" "r \<noteq> piece x" "distinct (r # rs)"
    and k: "others x r = Some k" "chunk_ok k" "ck_status k = CHUNK_STATUS_PENDING"
  proof (rule fetching_running [OF Cons.prems(4)])
    fix a c k0
    assume R: "receive_ok R [a] [rl.erase c]" "distinct (piece x # later x)"
      "\<forall>r \<in> set (later x). chunk_states (jobs R) r = Some CHUNK_STATUS_PENDING"
      "\<forall>q. q \<noteq> piece x \<longrightarrow> jchunk (jobs R) q = others x q"
    then have "r \<noteq> piece x" by (auto simp: later)
    moreover from R(3) obtain k where "jchunk (jobs R) r = Some k" "ck_status k = CHUNK_STATUS_PENDING"
      by (auto simp: later chunk_states_def)
    moreover have "jobs_ok (jobs R) (current_job R)" using R(1) by (simp add: receive_ok_def)
    moreover have "chunk_ok k" using \<open>jobs_ok _ _\<close> \<open>jchunk _ r = _\<close> unfolding jobs_ok_def by blast
    ultimately show thesis using R(2,4) that by (simp add: later)
  qed simp
  from chunk_arrives [OF Cons.prems(1,3,4)] obtain S where
    S: "?D\<^sup>*\<^sup>* \<lparr>prov = P, recv = R\<rparr> S" "providing x (prov S) []" "fetching x (recv S) 512" by blast
  let ?y = "next_setting x data (prov S) (recv S) r rs"
  from next_chunk_starts [OF Cons.prems(1,2) later k(2,3,1) S(2,3)] obtain out where
    out: "subseq out (outbox (recv S))" and
    y: "setting_ok ?y" "providing ?y ((prov S)\<lparr>outbox := []\<rparr>) []" "fetching ?y ((recv S)\<lparr>outbox := out\<rparr>) 0"
    by (auto simp: Let_def)
  have rec: "received x (recv S)" using S(3) by (simp add: fetching_def)
  then have jd: "judged x (recv S)" by (simp add: received_def)
  note good = judged_good [OF Cons.prems(2) jd]
  have rest: "\<forall>q. q \<noteq> piece x \<and> q \<noteq> r \<longrightarrow> jchunk (jobs (recv S)) q = others x q"
    using rec by (simp add: received_def later)
  have "good_data ?y data"
  proof -
    have "jchunk (jobs (recv S)) q = others x q" if "q \<in> set rs" for q
      using rest one that unfolding later by (metis distinct.simps(2) list.set_intros(2))
    with Cons.prems(2) show ?thesis
      unfolding good_data_def next_setting_def later by (elim conjE, intro conjI) (assumption | simp)+
  qed
  moreover have "rs = later ?y" by (simp add: next_setting_def)
  ultimately obtain S' where
    S': "(download_step (prov_addr ?y) (recv_addr ?y))\<^sup>*\<^sup>* \<lparr>prov = (prov S)\<lparr>outbox := []\<rparr>,
        recv = (recv S)\<lparr>outbox := out\<rparr>\<rparr> S'"
      "fetched ?y data (recv S')"
    using Cons.hyps(1) [OF _ y(1) _ y(2,3)] by blast
  have "?D\<^sup>*\<^sup>* S S'"
    using rtranclp_trans [OF loses_all [OF out]] S'(1) by (simp add: next_setting_def)
  moreover have "fetched x data (recv S')"
    by (rule fetched_step [OF later good(1) rest one(1) S'(2)])
  ultimately show ?case using S(1) by (meson rtranclp_trans)
qed

section \<open>From the offer to the first chunk\<close>

text \<open>A peer that may ask \<open>pa\<close>, and one that may serve \<open>ra\<close>; neither has a connection.\<close>

definition may_fetch :: "sockaddr_in \<Rightarrow> peer_s \<Rightarrow> bool" where
  "may_fetch pa R \<longleftrightarrow>
     peer_inv R \<and> cell (receivers R) = Map.empty \<and> 0 < max_receiver_connection R \<and>
     (\<exists>p. search_bt_peer (config R) pa = Some p \<and> peer_addr (peers (config R) ! p) = pa \<and>
        peer_id (peers (config R) ! p) \<noteq> identity (config R)) \<and>
     (\<forall>t name. can_append R t name) \<and> (\<forall>t. CHUNK_DATA_SIZE \<le> disk_room R t)"

definition may_serve :: "sockaddr_in \<Rightarrow> peer_s \<Rightarrow> bool" where
  "may_serve ra P \<longleftrightarrow>
     peer_inv P \<and> cell (providers P) = Map.empty \<and> 0 < max_provider_connection P \<and>
     (\<exists>p. search_bt_peer (config P) ra = Some p \<and> peer_addr (peers (config P) ! p) = ra)"

lemma may_fetch_idle:
  assumes "may_fetch pa R"
  shows "receive_ok R [] []" and "receiver_connection_head R = None"
proof -
  from assms obtain as L where "receive_ok R as L" by (auto simp: may_fetch_def peer_inv_def receive_inv_def)
  moreover have "cell (receivers R) = Map.empty" using assms by (simp add: may_fetch_def)
  ultimately show ok: "receive_ok R [] []" by (rule receive_none)
  then show "receiver_connection_head R = None"
    by (simp add: receive_ok_def rl.view_def)
qed

lemma may_serve_idle:
  assumes "may_serve ra P"
  shows "provide_ok P [] []"
proof -
  from assms obtain ps M where ok: "provide_ok P ps M" by (auto simp: may_serve_def peer_inv_def provide_inv_def)
  moreover from this assms have "ps = []" by (simp add: may_serve_def provide_ok_def)
  ultimately show ?thesis using provide_length [OF ok] by simp
qed

text \<open>The pieces of a job: every chunk is new, the other peer has it, and no two are the same.\<close>

definition obtainable :: "peer_s \<Rightarrow> (nat \<Rightarrow> byte list) \<Rightarrow> job_s \<Rightarrow> bool" where
  "obtainable P data job \<longleftrightarrow>
     chunks job \<noteq> [] \<and> length (chunks job) \<le> MAX_HASH_LIST_NUM \<and> list_all new_chunk (chunks job) \<and>
     distinct (map hash_binary (chunks job)) \<and>
     (\<forall>i < length (chunks job). length (data i) = CHUNK_DATA_SIZE \<and> hash_binary (chunks job ! i) = sha1 (data i) \<and>
        provides P (sha1 (data i), data i))"

lemma whohas_answered:
  assumes P: "may_serve ra P" and job: "obtainable P data job"
    and pk: "pk \<in> set (malloc_all_whohas_packet mem job)"
  shows "\<exists>t p. process_inbound_udp (datagram pk) ra P = Inr (P\<lparr>ticks := t, outbox := outbox P @ [(ra, datagram p)]\<rparr>) \<and>
    header p = new_header TYPE_IHAVE (20 + 20 * length (chunks job)) 0 0 \<and> length (payload p) = 1484 \<and>
    announced_hashes (payload p) = map hash_binary (chunks job)"
proof -
  let ?n = "length (chunks job)" and ?H = "map hash_binary (chunks job)"
  have n: "1 \<le> ?n" "?n \<le> 74" using job by (auto simp: obtainable_def Suc_le_eq)
  have new: "list_all new_chunk (chunks job)" using job by (simp add: obtainable_def)
  note spec = malloc_all_whohas_packet_spec [OF new_chunks_asked(1) [OF new], where mem = mem,
      unfolded new_chunks_asked(2) [OF new]]
  have "(?n + 73) div 74 = 1" using n by (intro div_nat_eqI) auto
  then have "malloc_all_whohas_packet mem job = [pk]"
    using spec(2) pk by (cases "malloc_all_whohas_packet mem job") auto
  then have ann: "announced_hashes (payload pk) = ?H" using spec(1) by simp
  then have len: "length (announced_hashes (payload pk)) = ?n" by simp
  with spec(3) [OF pk] have pk_ok: "header pk = new_header TYPE_WHOHAS
      (20 + 20 * length (announced_hashes (payload pk))) 0 0"
    "length (payload pk) = 1484" by auto
  obtain pkt where pkt: "process_inbound_udp (datagram pk) ra P = Inr
      (process_whohas pkt ra (P\<lparr>ticks := Suc (ticks P)\<rparr>))"
    "announced_hashes (payload pkt) = ?H" "length (payload pkt) = 1484"
    by (rule receive_whohas_datagram [OF pk_ok, of ra P]) (use n len ann in auto)
  have "owned (has_chunks P) h" if h: "h \<in> set ?H" for h
  proof -
    from h obtain i where i: "i < ?n" "h = hash_binary (chunks job ! i)" by (auto simp: in_set_conv_nth)
    then have "provides P (h, data i)" using job by (simp add: obtainable_def)
    from provides_found [OF this] show ?thesis by auto
  qed
  moreover have "?H \<noteq> []" using n by auto
  ultimately show ?thesis
    using process_whohas_answers [OF pkt(3), of "P\<lparr>ticks := Suc (ticks P)\<rparr>" ra] pkt(1,2) by force
qed

lemma ihave_accepted:
  assumes R: "may_fetch pa R" and cur: "current_job R = Some j" "cell (jobs R) j = Some job" "chunks job = k # ks"
    and job: "obtainable P data job" and q: "search_bt_peer (config R) pa = Some q"
      "peer_addr (peers (config R) ! q) = pa"
    and p: "header p = new_header TYPE_IHAVE (20 + 20 * length (chunks job)) 0 0" "length (payload p) = 1484"
      "announced_hashes (payload p) = map hash_binary (chunks job)"
  shows "\<exists>t h mem a c R'. process_inbound_udp (datagram p) pa R = Inr R' \<and> R' = R\<lparr>ticks := t,
      jobs := (jobs R)\<lparr>cell := (cell (jobs R))(j \<mapsto> job\<lparr>chunks := k\<lparr>ck_status := CHUNK_STATUS_DOWNDLOADING\<rparr>
          # map pending ks\<rparr>)\<rparr>,
      receivers := h, receiver_connection_head := Some a,
      outbox := outbox R @ [(pa, get_datagram mem (hash_binary k))]\<rparr> \<and>
    cell h = [a \<mapsto> c] \<and> rc_provider c = Some q \<and> chunk_list c = map (Pair j) [0..<length (chunks job)] \<and> receive_inv R'"
proof -
  let ?n = "length (chunks job)" and ?R = "R\<lparr>ticks := Suc (ticks R)\<rparr>"
  have len: "length (announced_hashes (payload p)) = ?n" by (simp add: p(3))
  have bound: "length (announced_hashes (payload p)) \<le> 74" using job len by (simp add: obtainable_def)
  have hd: "header p = new_header TYPE_IHAVE (20 + 20 * length (announced_hashes (payload p))) 0 0"
    unfolding len by (rule p(1))
  obtain pkt where pkt: "process_inbound_udp (datagram p) pa R = process_ihave pkt (search_bt_peer (config R) pa) ?R"
    "announced_hashes (payload pkt) = map hash_binary (chunks job)"
    by (rule receive_ihave_datagram [OF hd p(2) bound, of pa R]) (simp add: p(3))
  have qs: "q < length (peers (config ?R))" using search_bt_peer_Some [OF q(1)] by simp
  have idle: "receiver_connection_head ?R = None" "cell (receivers ?R) = Map.empty" "0 < max_receiver_connection ?R"
    using may_fetch_idle(2) [OF R] R by (simp_all add: may_fetch_def)
  have new: "distinct (map hash_binary (chunks job))" "list_all not_found (chunks job)"
    using job by (auto simp: obtainable_def list_all_iff new_chunk_def not_found_def)
  have "current_job ?R = Some j" "cell (jobs ?R) j = Some job" using cur by simp_all
  from process_ihave_takes [OF idle this cur(3) new pkt(2) qs] obtain t h mem a c where
    take: "process_ihave pkt (Some q) ?R = Inr (?R\<lparr>ticks := t,
      jobs := (jobs ?R)\<lparr>cell := (cell (jobs ?R))(j \<mapsto> job\<lparr>chunks := k\<lparr>ck_status := CHUNK_STATUS_DOWNDLOADING\<rparr>
          # map pending ks\<rparr>)\<rparr>,
      receivers := h, receiver_connection_head := Some a,
      outbox := outbox ?R @ [(peer_addr (peers (config ?R) ! q), get_datagram mem (hash_binary k))]\<rparr>)" (is "_ =
          Inr ?R'")
    and c: "cell h = [a \<mapsto> c]" "rc_provider c = Some q" "chunk_list c = map (Pair j) [0..<?n]" by blast
  have "receive_ok ?R [] []" using may_fetch_idle(1) [OF R] by (simp add: receive_ok_def)
  from process_ihave_ok [OF this qs, of pkt] take have "receive_inv ?R'" by (auto simp: safe_iff receive_inv_def)
  with take pkt(1) q c show ?thesis
    by (intro exI [of _ t] exI [of _ h] exI [of _ mem] exI [of _ a] exI [of _ c] exI [of _ ?R']) simp
qed

text \<open>Both together: the session of the first chunk can start.\<close>

definition first_setting :: "sockaddr_in \<Rightarrow> sockaddr_in \<Rightarrow> peer_s \<Rightarrow> peer_s \<Rightarrow> job_s heap \<Rightarrow> (nat \<Rightarrow> byte list) \<Rightarrow> nat \<Rightarrow>
    job_s \<Rightarrow> setting" where
  "first_setting pa ra P R J data j job =
     \<lparr>prov_addr = pa, recv_addr = ra, prov_index = the (search_bt_peer (config R) pa),
      recv_index = the (search_bt_peer (config P) ra), piece = (j, 0), piece_hash = sha1 (data 0),
      owned_index = the (seach_owned_chunk (has_chunks P) (sha1 (data 0))), piece_data = data 0,
      disk_append = can_append R, disk_space = disk_room R, later = map (Pair j) [1..<length (chunks job)],
      others = jchunk J, cur_job = j, out_name = output_file_name job, out_before = file_now R (output_file_name job),
      library = map (\<lambda>i. (sha1 (data i), data i)) [0..<length (chunks job)]\<rparr>"

lemma first_providing:
  assumes P: "may_serve ra P" and job: "obtainable P data job"
  shows "providing (first_setting pa ra P R J data j job) (P\<lparr>ticks := t, outbox := []\<rparr>) []" (is "providing ?x ?P []")
proof -
  have 0: "0 < length (chunks job)" using job by (simp add: obtainable_def)
  have lib: "\<forall>e \<in> set (library ?x). provides ?P e"
    using job by (auto simp: obtainable_def first_setting_def provides_same [of ?P P])
  have "provides P (sha1 (data 0), data 0)" using job 0 by (simp add: obtainable_def)
  from provides_found [OF this] have "seach_owned_chunk (has_chunks ?P) (piece_hash ?x) = Some (owned_index ?x)"
    by (auto simp: first_setting_def)
  moreover have "provide_ok ?P [] []" using may_serve_idle [OF P] by (simp add: provide_ok_def)
  then have "\<exists>ps. provide_ok ?P ps []" by blast
  moreover have "search_bt_peer (config ?P) (recv_addr ?x) = Some (recv_index ?x)"
    "peer_addr (peers (config ?P) ! recv_index ?x) = recv_addr ?x" "0 < max_provider_connection ?P"
    using P by (auto simp: may_serve_def first_setting_def)
  ultimately show ?thesis using lib by (simp add: providing_def)
qed

lemma first_fetching:
  assumes R: "may_fetch pa R" and job: "obtainable P data job" and j: "chunks job = k # ks"
    and R': "current_job R' = Some j" "cell (jobs R') j = Some
      (job\<lparr>chunks := k\<lparr>ck_status := CHUNK_STATUS_DOWNDLOADING\<rparr> # map pending ks\<rparr>)"
      "receive_inv R'" "config R' = config R" "files R' = files R" "can_append R' = can_append R"
          "disk_room R' = disk_room R"
      "outbox R' = [(pa, get_datagram mem (hash_binary k))]"
    and c: "cell (receivers R') = [a \<mapsto> c]" "rc_provider c = search_bt_peer (config R) pa"
      "chunk_list c = map (Pair j) [0..<length (chunks job)]"
  shows "fetching (first_setting pa ra P R (jobs R') data j job) R' 0" (is "fetching ?x R' 0")
proof -
  obtain q where q: "search_bt_peer (config R) pa = Some q" "peer_addr (peers (config R) ! q) = pa"
    using R by (auto simp: may_fetch_def)
  have k: "hash_binary k = sha1 (data 0)" "new_chunk k" using job j by (auto simp: obtainable_def)
  have "chunk_list c = piece ?x # later ?x"
    using c(3) j upt_conv_Cons [of 0 "length (chunks job)"] by (simp add: first_setting_def del: upt_Suc)
  moreover have "jchunk (jobs R') (piece ?x) = Some (k\<lparr>ck_status := CHUNK_STATUS_DOWNDLOADING\<rparr>)"
    by (simp add: jchunk_def R'(2) first_setting_def)
  ultimately have "running ?x R' 0"
    using k q c(1,2) R'(1,2,5) unfolding running_def
    by (intro conjI exI [of _ a] exI [of _ c] exI [of _ "k\<lparr>ck_status := CHUNK_STATUS_DOWNDLOADING\<rparr>"])
      (simp_all add: new_chunk_def first_setting_def job_at_def file_now_def)
  moreover have "answers ?x (set (outbox R')) 0" by (auto simp: answers_def first_setting_def R'(8) k(1))
  ultimately show ?thesis using R' q by (simp add: fetching_def) (simp add: first_setting_def)
qed

lemma first_good:
  assumes R: "may_fetch pa R" and job: "obtainable P data job" and j: "chunks job = k # ks"
    and J: "cell J j = Some (job\<lparr>chunks := k\<lparr>ck_status := CHUNK_STATUS_DOWNDLOADING\<rparr> # map pending ks\<rparr>)"
  shows "good_data (first_setting pa ra P R J data j job) (data \<circ> snd)" (is "good_data ?x _")
proof -
  let ?n = "length (chunks job)"
  have at: "\<exists>k. jchunk J (j, i) = Some k \<and> hash_binary k = sha1 (data i)" if "1 \<le> i" "i < ?n" for i
  proof -
    have "hash_binary (chunks job ! i) = sha1 (data i)" using job that by (simp add: obtainable_def)
    with that j show ?thesis by (cases i) (simp_all add: jchunk_def J)
  qed
  have "length (data i) = CHUNK_DATA_SIZE" if "i < ?n" for i using job that by (simp add: obtainable_def)
  with at R show ?thesis by (auto simp: good_data_def first_setting_def may_fetch_def)
qed

lemma first_chunk_starts:
  assumes P: "may_serve ra P" and R: "may_fetch pa R" and job: "obtainable P data job"
    and cur: "current_job R = Some j" "cell (jobs R) j = Some job"
    and pk: "pk \<in> set (malloc_all_whohas_packet mem job)" "(pa, datagram pk) \<in> set (outbox R)"
  shows "\<exists>J P' R'. let x = first_setting pa ra P R J data j job in
    (download_step pa ra)\<^sup>*\<^sup>* \<lparr>prov = P, recv = R\<rparr> \<lparr>prov = P', recv = R'\<rparr> \<and> setting_ok x \<and> good_data x (data \<circ> snd) \<and>
    providing x P' [] \<and> fetching x R' 0 \<and> (\<forall>i \<ge> length (chunks job). jchunk J (j, i) = None)"
proof -
  obtain k ks where j: "chunks job = k # ks" using job by (cases "chunks job") (auto simp: obtainable_def)
  obtain q where q: "search_bt_peer (config R) pa = Some q" "peer_addr (peers (config R) ! q) = pa"
    using R by (auto simp: may_fetch_def)
  from whohas_answered [OF P job pk(1)] obtain t p where
    P1: "process_inbound_udp (datagram pk) ra P = Inr (P\<lparr>ticks := t, outbox := outbox P @ [(ra, datagram p)]\<rparr>)"
        (is "_ = Inr ?P1")
    and p: "header p = new_header TYPE_IHAVE (20 + 20 * length (chunks job)) 0 0" "length (payload p) = 1484"
      "announced_hashes (payload p) = map hash_binary (chunks job)" by blast
  from ihave_accepted [OF R cur j job q p] obtain t' h mem' a c R1 where
    R1: "process_inbound_udp (datagram p) pa R = Inr R1" "R1 = R\<lparr>ticks := t',
      jobs := (jobs R)\<lparr>cell := (cell (jobs R))(j \<mapsto> job\<lparr>chunks := k\<lparr>ck_status := CHUNK_STATUS_DOWNDLOADING\<rparr>
          # map pending ks\<rparr>)\<rparr>,
      receivers := h, receiver_connection_head := Some a, outbox := outbox R @
          [(pa, get_datagram mem' (hash_binary k))]\<rparr>"
    and c: "cell h = [a \<mapsto> c]" "rc_provider c = Some q" "chunk_list c = map (Pair j) [0..<length (chunks job)]"
    and inv: "receive_inv R1" by blast
  let ?x = "first_setting pa ra P R (jobs R1) data j job"
  let ?S = "\<lparr>prov = P, recv = R\<rparr>" and ?S1 = "\<lparr>prov = ?P1, recv = R\<rparr>" and ?S2 = "\<lparr>prov = ?P1, recv = R1\<rparr>"
  let ?out = "[(pa, get_datagram mem' (hash_binary k))]"
  have addr: "prov_addr ?x = pa" "recv_addr ?x = ra" by (simp_all add: first_setting_def)
  have "session_step ?x ?S ?S1"
    using session_step.to_prov [of ?x "datagram pk" ?S ?P1] P1 pk(2) by (simp add: addr)
  then have 1: "download_step pa ra ?S ?S1" by (rule download_step.transfers [OF addr])
  have "session_step ?x ?S1 ?S2"
    using session_step.to_recv [of ?x "datagram p" ?S1 R1] R1(1) by (simp add: addr)
  then have 2: "download_step pa ra ?S1 ?S2" by (rule download_step.transfers [OF addr])
  have "subseq ?out (outbox (recv ?S2))" by (simp add: R1(2) subseq_singleton_left)
  from loses_all [OF this, of pa ra] have 3: "(download_step pa ra)\<^sup>*\<^sup>* ?S2 \<lparr>prov = P\<lparr>ticks := t, outbox := []\<rparr>,
      recv = R1\<lparr>outbox := ?out\<rparr>\<rparr>"
    by simp
  have "(download_step pa ra)\<^sup>*\<^sup>* ?S \<lparr>prov = P\<lparr>ticks := t, outbox := []\<rparr>, recv = R1\<lparr>outbox := ?out\<rparr>\<rparr>"
    using 1 2 3 by (meson converse_rtranclp_into_rtranclp)
  moreover have "setting_ok ?x"
    using job j by (simp add: setting_ok_def first_setting_def obtainable_def length_sha1) (force simp: length_sha1)
  moreover have J: "cell (jobs R1) j = Some (job\<lparr>chunks := k\<lparr>ck_status := CHUNK_STATUS_DOWNDLOADING\<rparr> # map pending ks\<rparr>)"
    by (simp add: R1(2))
  from first_good [OF R job j this] have "good_data ?x (data \<circ> snd)" .
  moreover have "providing ?x (P\<lparr>ticks := t, outbox := []\<rparr>) []" by (rule first_providing [OF P job])
  moreover have "receive_inv (R1\<lparr>outbox := ?out\<rparr>)" using inv by (simp add: receive_inv_def receive_ok_def)
  then have "fetching (first_setting pa ra P R (jobs (R1\<lparr>outbox := ?out\<rparr>)) data j job) (R1\<lparr>outbox := ?out\<rparr>) 0"
    by (intro first_fetching [OF R job j, where a = a and c = c and mem = mem']) (use cur c q in \<open>simp_all add: R1(2)\<close>)
  moreover have "\<forall>i \<ge> length (chunks job). jchunk (jobs R1) (j, i) = None" by (simp add: jchunk_def J j)
  ultimately show ?thesis by (simp add: Let_def) blast
qed

section \<open>The end of the job\<close>

lemma fetched_ends:
  assumes R: "fetched x data R" and all: "piece x # later x = map (Pair (cur_job x)) [0..<n]"
    and none: "\<forall>i \<ge> n. others x (cur_job x, i) = None"
  shows "\<exists>R'. finish_job R = Inr R' \<and> current_job R' = None \<and> files R' = files R"
proof -
  let ?j = "cur_job x"
  from R obtain job where job: "current_job R = Some ?j" "cell (jobs R) ?j = Some job"
    by (auto simp: fetched_def job_at_def)
  have fin: "\<exists>k. jchunk (jobs R) (?j, i) = Some k \<and> ck_status k = CHUNK_STATUS_FINISHED" if "i < n" for i
    using R that unfolding fetched_def all by auto
  have beyond: "jchunk (jobs R) (?j, i) = None" if "n \<le> i" for i
  proof -
    have "(?j, i) \<notin> set (piece x # later x)" using that unfolding all by auto
    then have "jchunk (jobs R) (?j, i) = others x (?j, i)" using R unfolding fetched_def by blast
    with none that show ?thesis by simp
  qed
  have "\<not> not_found k" if "k \<in> set (chunks job)" for k
  proof -
    from that obtain i where i: "i < length (chunks job)" "k = chunks job ! i" by (auto simp: in_set_conv_nth)
    then have k: "jchunk (jobs R) (?j, i) = Some k" by (simp add: jchunk_def job(2))
    with beyond have "i < n" by (cases "i < n") auto
    from fin [OF this] k show ?thesis by (simp add: not_found_def)
  qed
  then have "get_not_found_chunk_number job = 0"
    by (simp add: get_not_found_chunk_number_def count_not_found_filter filter_empty_conv)
  moreover from R obtain as L where "receive_ok R as L" "cell (receivers R) = Map.empty"
    by (auto simp: fetched_def receive_inv_def)
  then have "get_receiver_connection_number R = Inr 0" using receive_number [OF receive_none] by fastforce
  ultimately show ?thesis using job by (simp add: finish_job_def heap_load_def heap_free_def)
qed

lemma obtainable_downloads:
  assumes P: "may_serve ra P" and R: "may_fetch pa R" and job: "obtainable P data job"
    and cur: "current_job R = Some j" "cell (jobs R) j = Some job"
    and pk: "pk \<in> set (malloc_all_whohas_packet mem job)" "(pa, datagram pk) \<in> set (outbox R)"
  shows "\<exists>S. (download_step pa ra)\<^sup>*\<^sup>* \<lparr>prov = P, recv = R\<rparr> S \<and> current_job (recv S) = None \<and>
    files (recv S) (output_file_name job) =
      Some (file_now R (output_file_name job) @ concat (map data [0..<length (chunks job)]))"
proof -
  let ?n = "length (chunks job)"
  from first_chunk_starts [OF assms] obtain J P' R' where
    start: "(download_step pa ra)\<^sup>*\<^sup>* \<lparr>prov = P, recv = R\<rparr> \<lparr>prov = P', recv = R'\<rparr>"
    and x: "setting_ok (first_setting pa ra P R J data j job)" "good_data (first_setting pa ra P R J data j job)
      (data \<circ> snd)"
      "providing (first_setting pa ra P R J data j job) P' []" "fetching (first_setting pa ra P R J data j job) R' 0"
    and none: "\<forall>i \<ge> ?n. jchunk J (j, i) = None"
    by (auto simp: Let_def)
  let ?x = "first_setting pa ra P R J data j job"
  have f: "prov_addr ?x = pa" "recv_addr ?x = ra" "cur_job ?x = j" "out_name ?x = output_file_name job"
      "others ?x = jchunk J"
    "out_before ?x = file_now R (output_file_name job)" by (simp_all add: first_setting_def)
  have "0 < ?n" using job by (simp add: obtainable_def)
  then have all: "piece ?x # later ?x = map (Pair (cur_job ?x)) [0..<?n]"
    using upt_conv_Cons [of 0 ?n] by (simp add: first_setting_def)
  from chunks_arrive [OF x] obtain S where
    run: "(download_step pa ra)\<^sup>*\<^sup>* \<lparr>prov = P', recv = R'\<rparr> S" and S: "fetched ?x (data \<circ> snd) (recv S)"
    unfolding f by blast
  from fetched_ends [OF S all] none f obtain R2 where
    fin: "finish_job (recv S) = Inr R2" "current_job R2 = None" "files R2 = files (recv S)" by auto
  have "(download_step pa ra)\<^sup>*\<^sup>* \<lparr>prov = P, recv = R\<rparr> (S\<lparr>recv := R2\<rparr>)"
    using rtranclp_trans [OF start run] download_step.ends_job [OF fin(1)] by (rule rtranclp.rtrancl_into_rtrancl)
  moreover have "files R2 (output_file_name job) =
      Some (file_now R (output_file_name job) @ concat (map data [0..<?n]))"
    using S unfolding fetched_def all fin(3) f by (simp add: comp_def)
  ultimately show ?thesis using fin(2) by (intro exI [of _ "S\<lparr>recv := R2\<rparr>"]) simp
qed

lemma whole_pieces:
  assumes "length input = m * BT_CHUNK_SIZE"
  shows "get_numchunks input = m" and "i < m \<Longrightarrow> length (piece_of input i) = CHUNK_DATA_SIZE"
proof -
  show "get_numchunks input = m" using assms by (simp add: get_numchunks_def div_mult_self3)
  assume "i < m"
  then have "i * BT_CHUNK_SIZE + BT_CHUNK_SIZE \<le> m * BT_CHUNK_SIZE"
    using mult_le_mono1 [of "Suc i" m BT_CHUNK_SIZE] by simp
  then show "length (piece_of input i) = CHUNK_DATA_SIZE" using assms by (simp add: piece_of_def)
qed

text \<open>What the GET command leaves behind: a job for pieces the other peer has, and a WHOHAS packet to that peer.\<close>

lemma new_job_obtainable:
  assumes "length input = m * BT_CHUNK_SIZE" and "1 \<le> m" and "m \<le> MAX_HASH_LIST_NUM"
    and "distinct (map (\<lambda>i. sha1 (piece_of input i)) [0..<m])"
    and "\<forall>i < m. provides P (sha1 (piece_of input i), piece_of input i)"
    and "list_all new_chunk (chunks job)"
    and hashes: "map hash_binary (chunks job) = map (\<lambda>i. sha1 (piece_of input i)) [0..<m]"
  shows "length (chunks job) = m" and "obtainable P (piece_of input) job"
proof -
  show m: "length (chunks job) = m" using arg_cong [OF hashes, of length] by simp
  have "hash_binary (chunks job ! i) = sha1 (piece_of input i)" if "i < m" for i
    using arg_cong [OF hashes, of "\<lambda>xs. xs ! i"] that m by simp
  then show "obtainable P (piece_of input) job"
    using assms m whole_pieces(2) [OF assms(1)] by (auto simp: obtainable_def)
qed

lemma whohas_sent:
  assumes "may_fetch pa R" and "list_all new_chunk (chunks job)" and "chunks job \<noteq> []"
  shows "\<exists>pk \<in> set (malloc_all_whohas_packet mem job). (pa, datagram pk) \<in> set (concat (map
      (\<lambda>q. map (\<lambda>p. (peer_addr q, datagram p)) (malloc_all_whohas_packet mem job))
      (filter (\<lambda>q. peer_id q \<noteq> identity (config R)) (peers (config R)))))"
proof -
  have "0 < length (chunks job)" using assms(3) by simp
  then have "malloc_all_whohas_packet mem job \<noteq> []"
    using new_chunks_asked [OF assms(2)] malloc_all_whohas_packet_spec(2) [of job mem] by (auto simp: div_eq_0_iff)
  then obtain pk where pk: "pk \<in> set (malloc_all_whohas_packet mem job)" by (meson last_in_set)
  obtain q where q: "search_bt_peer (config R) pa = Some q" "peer_addr (peers (config R) ! q) = pa"
    "peer_id (peers (config R) ! q) \<noteq> identity (config R)" using assms(1) by (auto simp: may_fetch_def)
  then have "peers (config R) ! q \<in> set (filter (\<lambda>q. peer_id q \<noteq> identity (config R)) (peers (config R)))"
    using search_bt_peer_Some [OF q(1)] by simp
  with pk q(2) show ?thesis by (auto intro!: bexI)
qed

text \<open>The two peers of the witness: one has a piece in memory, the other the chunk file of a file with that one piece.\<close>

definition example_library :: peer_s where
  "example_library = example_owner (sha1 (replicate CHUNK_DATA_SIZE 9))"

definition example_asker :: peer_s where
  "example_asker = example_peer\<lparr>files := [[0x43] \<mapsto> chunk_lines 0 [sha1 (replicate CHUNK_DATA_SIZE 9)]],
     can_append := \<lambda>_ _. True, disk_room := \<lambda>_. CHUNK_DATA_SIZE,
     config := (config example_peer)\<lparr>peers := [\<lparr>peer_id = 2, peer_addr = \<lparr>sin_port = 7, sin_addr = 6\<rparr>\<rparr>]\<rparr>\<rparr>"

lemma example_may_serve: "may_serve \<lparr>sin_port = 5, sin_addr = 6\<rparr> example_library"
proof -
  have "receive_ok example_library [] []"
    by (simp add: example_library_def example_owner_def receive_ok_def jobs_ok_def rinv_def rl.view_def
      chunk_states_def jchunk_def
        empty_heap_def heap_ok_def)
  moreover have "provide_ok example_library [] []"
    by (simp add: example_library_def example_owner_def provide_ok_def pl.view_def empty_heap_def heap_ok_def
      owned_ok_def length_sha1)
  ultimately have "peer_inv example_library" by (auto simp: peer_inv_def receive_inv_def provide_inv_def)
  then show ?thesis by (simp add: may_serve_def) (simp add: example_library_def example_owner_def
      search_bt_peer_def empty_heap_def)
qed

lemma example_may_fetch: "may_fetch \<lparr>sin_port = 7, sin_addr = 6\<rparr> example_asker"
proof -
  have "receive_ok example_asker [] []"
    by (simp add: example_asker_def receive_ok_def jobs_ok_def rinv_def rl.view_def chunk_states_def jchunk_def
      empty_heap_def heap_ok_def)
  moreover have "provide_ok example_asker [] []"
    by (simp add: example_asker_def provide_ok_def pl.view_def empty_heap_def heap_ok_def owned_ok_def
      example_chunk_def)
  ultimately have "peer_inv example_asker" by (auto simp: peer_inv_def receive_inv_def provide_inv_def)
  then show ?thesis by (simp add: may_fetch_def) (simp add: example_asker_def search_bt_peer_def empty_heap_def)
qed

section \<open>Properties\<close>



end
