(* ===== verification/Equal_Chunks.thy ===== *)
theory Equal_Chunks imports Peer_Properties Keyboard begin

text \<open>
  Jobs in which two chunks have the same hash. \<open>get_chunk\<close> finds the first chunk of the job with an
  announced hash, never a later one, so the second chunk of such a job is asked for and offered, but never put
  into a connection: it is not downloaded, and the job is never ended.
\<close>

section \<open>Runs that return\<close>

text \<open>\<open>returning m Q\<close>: if \<open>m\<close> returns, the result satisfies \<open>Q\<close>.\<close>

abbreviation returning :: "'a result \<Rightarrow> ('a \<Rightarrow> bool) \<Rightarrow> bool" where
  "returning m Q \<equiv> outcome UNIV m Q"

named_theorems returning_simps "what loads, stores and frees return"

declare outcome_andThen [returning_simps]

lemma returning_load_job_chunk [returning_simps]:
  "returning (load_job_chunk s r) Q \<longleftrightarrow> (\<forall>k. jchunk (jobs s) r = Some k \<longrightarrow> Q k)"
  by (cases r) (auto simp: load_job_chunk_def jchunk_def heap_load_def split: option.split)

lemma returning_store_job_chunk [returning_simps]:
  "returning (store_job_chunk s r k) Q \<longleftrightarrow>
    (\<forall>k'. jchunk (jobs s) r = Some k' \<longrightarrow> Q (s\<lparr>jobs := put_chunk (jobs s) r k\<rparr>))"
  by (cases r) (auto simp: store_job_chunk_def jchunk_def put_chunk_def heap_load_def heap_store_def
    split: option.split)

lemma returning_load_receiver [returning_simps]:
  "returning (load_receiver s p) Q \<longleftrightarrow> (\<forall>a c. p = Some a \<and> cell (receivers s) a = Some c \<longrightarrow> Q c)"
  by (auto simp: load_receiver_def heap_load_def split: option.split)

lemma returning_store_receiver [returning_simps]:
  "returning (store_receiver s p c) Q \<longleftrightarrow>
    (\<forall>a c'. p = Some a \<and> cell (receivers s) a = Some c' \<longrightarrow>
      Q (s\<lparr>receivers := (receivers s)\<lparr>cell := (cell (receivers s))(a \<mapsto> c)\<rparr>\<rparr>))"
  by (auto simp: store_receiver_def heap_store_def split: option.split)

lemma returning_iff: "returning m Q \<longleftrightarrow> (\<forall>v. m = Inr v \<longrightarrow> Q v)"
  by (cases m) simp_all

lemmas returning_load_peer [returning_simps] = returning_iff [of "load_peer s p" for s p]
lemmas returning_load_provider [returning_simps] = returning_iff [of "load_provider s p" for s p]
lemmas returning_heap_load [returning_simps] = returning_iff [of "heap_load h p" for h p]

lemma returning_any: "(\<And>v. Q v) \<Longrightarrow> returning m Q"
  by (cases m) simp_all

lemma returning_Inr: "m = Inr v \<Longrightarrow> returning m Q \<Longrightarrow> Q v"
  by simp

lemma for_each_returning:
  assumes "\<And>a s. Q s \<Longrightarrow> returning (op (Some a) s) Q" and "Q s"
  shows "returning (for_each nxt op n p s) Q"
  using assms(2)
proof (induction n arbitrary: p s)
  case 0
  then show ?case by (cases p) simp_all
next
  case (Suc n)
  show ?case
  proof (cases p)
    case (Some a)
    have "returning (op (Some a) s) Q" using assms(1) Suc.prems .
    then show ?thesis unfolding Some for_each.simps outcome_andThen
      by (rule outcome_mono) (intro returning_any Suc.IH)
  qed (use Suc.prems in simp)
qed

section \<open>A chunk behind an equal one\<close>

definition behind :: "nat \<Rightarrow> nat \<Rightarrow> ptr \<Rightarrow> job_s heap \<Rightarrow> receiver_connection_s heap \<Rightarrow> bool" where
  "behind j b current J H \<longleftrightarrow>
     current = Some j \<and>
     (\<exists>a k k'. a < b \<and> jchunk J (j, a) = Some k' \<and> jchunk J (j, b) = Some k \<and> hash_binary k' = hash_binary k \<and>
        ck_status k = CHUNK_STATUS_NOT_FOUND) \<and>
     (\<forall>a c. cell H a = Some c \<longrightarrow> (j, b) \<notin> set (chunk_list c))"

abbreviation left_behind :: "nat \<Rightarrow> nat \<Rightarrow> peer_s \<Rightarrow> bool" where
  "left_behind j b s \<equiv> behind j b (current_job s) (jobs s) (receivers s)"

lemma behind_put:
  assumes "behind j b current J H" and "jchunk J r = Some k" and "r \<noteq> (j, b)" and "hash_binary k' = hash_binary k"
  shows "behind j b current (put_chunk J r k') H"
proof -
  obtain a k1 k2 where k: "a < b" "jchunk J (j, a) = Some k1" "jchunk J (j, b) = Some k2"
      "hash_binary k1 = hash_binary k2"
    "ck_status k2 = CHUNK_STATUS_NOT_FOUND" using assms(1) by (auto simp: behind_def)
  let ?k1 = "if (j, a) = r then k' else k1"
  have "jchunk (put_chunk J r k') (j, a) = Some ?k1" "jchunk (put_chunk J r k') (j, b) = Some k2"
    "hash_binary ?k1 = hash_binary k2" using assms(2-4) k by auto
  with k assms(1) show ?thesis unfolding behind_def by blast
qed

lemma behind_store:
  "behind j b current J H \<Longrightarrow> (j, b) \<notin> set (chunk_list c) \<Longrightarrow> behind j b current J (H\<lparr>cell := (cell H)(a \<mapsto> c)\<rparr>)"
  by (simp add: behind_def)

lemma behind_free: "behind j b current J H \<Longrightarrow> behind j b current J (H\<lparr>cell := (cell H)(a := None)\<rparr>)"
  by (simp add: behind_def)

lemma behind_alloc:
  "behind j b current J H \<Longrightarrow> (j, b) \<notin> set (chunk_list c) \<Longrightarrow> behind j b current J (H\<lparr>cell := (cell H)(a \<mapsto> c), brk := n\<rparr>)"
  by (simp add: behind_def)

lemma behind_unlisted: "behind j b current J H \<Longrightarrow> cell H a = Some c \<Longrightarrow> (j, b) \<notin> set (chunk_list c)"
  by (simp add: behind_def)

lemma behind_list: "behind j b current J H \<Longrightarrow> cell H a = Some c \<Longrightarrow> chunk_list c = r # rs \<Longrightarrow> r \<noteq> (j, b) \<and> (j, b) \<notin> set rs"
  by (auto dest: behind_unlisted)

text \<open>The lookup finds the chunk before it.\<close>

lemma get_chunk_first:
  assumes "left_behind j b s" and "get_chunk h s = Inr (Some r)"
  shows "r \<noteq> (j, b)"
proof
  assume r: "r = (j, b)"
  obtain a k k' where k: "a < b" "jchunk (jobs s) (j, a) = Some k'" "jchunk (jobs s) (j, b) = Some k"
    "hash_binary k' = hash_binary k" "current_job s = Some j" using assms(1) by (auto simp: behind_def)
  then obtain job where job: "cell (jobs s) j = Some job" "a < length (chunks job)" "b < length (chunks job)"
    "chunks job ! a = k'" "chunks job ! b = k" by (auto simp: jchunk_def split: option.splits if_splits)
  then have "search_hash h 0 (chunks job) = Some b" using assms(2) r k(5) by (auto simp: get_chunk_def heap_load_def)
  from search_hash_Some [OF this] k(1,4) job show False by auto
qed

lemma add_ihave_behind:
  "left_behind j b s \<Longrightarrow> returning (add_ihave_loop p hs s) (left_behind j b)"
proof (induction p hs s rule: add_ihave_loop.induct)
  case (2 p h hs s)
  have "returning (case t of None \<Rightarrow> add_ihave_loop p hs s | Some r \<Rightarrow> andThen (load_job_chunk s r) (\<lambda>c.
      if ck_status c = CHUNK_STATUS_NOT_FOUND
      then andThen (add_chunk_to_receiver_connection r p s) (add_ihave_loop p hs) else add_ihave_loop p hs s))
          (left_behind j b)"
    if t: "get_chunk h s = Inr t" for t
  proof (cases t)
    case None
    with 2 t show ?thesis by simp
  next
    case (Some r)
    then have r: "r \<noteq> (j, b)" using get_chunk_first [OF 2(4)] t by simp
    have add: "returning (add_chunk_to_receiver_connection r p s) (left_behind j b)"
      using r 2(4) by (auto simp: add_chunk_to_receiver_connection_def returning_simps intro!: behind_put behind_store
          dest: behind_unlisted)
    show ?thesis
      using 2 t Some outcome_mono [OF add] by (auto simp: returning_simps)
  qed
  then show ?case by (cases "get_chunk h s") simp_all
qed simp

lemma start_connection_behind: "left_behind j b s \<Longrightarrow> returning (start_connection p s) (left_behind j b)"
  unfolding start_connection_def
  by (auto simp: returning_simps fresh_memory_def gettimeofday_def Let_def send_packet_def intro!: behind_put
    behind_store
      dest: behind_list behind_unlisted split: list.split)

section \<open>The receiving operations\<close>

named_theorems behind_simps "the small definitions the operations are made of"

declare
  returning_simps [behind_simps]
  fresh_memory_def [behind_simps]
  gettimeofday_def [behind_simps]
  elapsed_since_def [behind_simps]
  send_packet_def [behind_simps]
  Let_def [behind_simps]

lemma free_receiver_behind: "left_behind j b s \<Longrightarrow> returning (free_receiver_connection p s) (left_behind j b)"
  by (auto simp: free_receiver_connection_def heap_free_def behind_simps intro: behind_free split: option.split)

lemma unlink_behind:
  "behind j b current J h \<Longrightarrow> returning (ll_unlink rc_next rc_next_update h n t x) (behind j b current J)"
proof (induction n arbitrary: t)
  case (Suc n)
  have "behind j b current J (h\<lparr>cell := (cell h)(a \<mapsto> c\<lparr>rc_next := q\<rparr>)\<rparr>)" if "cell h a = Some c" for a c q
    using Suc.prems behind_unlisted [OF Suc.prems that] by (intro behind_store) simp_all
  with Suc.IH [OF Suc.prems] Suc.prems show ?case
    by (auto simp: heap_load_def heap_store_def outcome_andThen split: option.split)
qed simp

lemma remove_receiver_behind: "left_behind j b s \<Longrightarrow> returning (remove_receiver_connection p s) (left_behind j b)"
  by (auto simp: remove_receiver_connection_def ll_remove_def outcome_andThen heap_load_def split: option.split
      intro: outcome_mono [OF unlink_behind])

lemma cancel_chunks_behind: "left_behind j b s \<Longrightarrow> (j, b) \<notin> set rs \<Longrightarrow> returning (cancel_chunks rs s) (left_behind j b)"
proof (induction rs arbitrary: s)
  case (Cons r rs)
  have "returning (cancel_chunks rs s') (left_behind j b)" if "left_behind j b s'" for s'
    using Cons.IH [OF that] Cons.prems(2) by simp
  moreover have "left_behind j b (s\<lparr>jobs := put_chunk (jobs s) r (k\<lparr>ck_status := CHUNK_STATUS_NOT_FOUND,
      received_seq_num := 0, received_byte_num := 0\<rparr>)\<rparr>)" if "jchunk (jobs s) r = Some k" for k
    using Cons.prems that by (auto intro!: behind_put)
  ultimately show ?case using Cons.prems(1) by (simp add: behind_simps)
qed simp

lemma cancel_receiver_behind: "left_behind j b s \<Longrightarrow> returning (cancel_receiver_connection p s) (left_behind j b)"
  unfolding cancel_receiver_connection_def behind_simps
  by (auto intro: outcome_mono [OF cancel_chunks_behind] free_receiver_behind dest: behind_list behind_unlisted)

lemma save_data_behind: "left_behind j b s \<Longrightarrow> returning (save_data_packet pkt p s) (left_behind j b)"
  unfolding save_data_packet_def behind_simps
  by (auto simp: behind_simps intro!: behind_put dest: behind_list behind_unlisted split: list.split option.split)

lemma append_chunk_same:
  "jobs (snd (append_chunk name data s)) = jobs s" "receivers (snd (append_chunk name data s)) = receivers s"
  "current_job (snd (append_chunk name data s)) = current_job s"
  by (simp_all add: append_chunk_def Let_def)

lemma save_chunk_behind: "left_behind j b s \<Longrightarrow> returning (save_chunk p s) (left_behind j b)"
  unfolding save_chunk_def behind_simps
  by (auto simp: behind_simps append_chunk_same case_prod_beta intro!: behind_put dest: behind_list
    behind_unlisted split: list.split option.split)

lemma reset_receiver_behind: "left_behind j b s \<Longrightarrow> returning (reset_receiver_connection p s) (left_behind j b)"
  unfolding reset_receiver_connection_def behind_simps
  by (auto simp: behind_simps intro!: start_connection_behind outcome_mono [OF remove_receiver_behind]
      free_receiver_behind behind_store split: list.split)
    (drule (2) behind_list, simp)

lemma receiver_timeout_behind: "left_behind j b s \<Longrightarrow> returning (receiver_control_by_timeout p s) (left_behind j b)"
  unfolding receiver_control_by_timeout_def behind_simps
  by (auto simp: behind_simps intro!: start_connection_behind outcome_mono [OF cancel_receiver_behind]
      remove_receiver_behind split: receiver_status.split option.split)

lemma add_receiver_behind: "left_behind j b s \<Longrightarrow> returning (add_receiver_connection p s) (left_behind j b)"
  unfolding add_receiver_connection_def
  by (auto simp: behind_simps intro!: behind_store dest: behind_list behind_unlisted)

section \<open>The handlers\<close>

lemma malloc_receiver_behind:
  "left_behind j b s \<Longrightarrow> returning (malloc_receiver_connection pkt p s) (\<lambda>(q, s'). left_behind j b s')"
  unfolding malloc_receiver_connection_def add_ihave_to_receiver_connection_def init_receiver_connection_def
      behind_simps
  by (auto simp: behind_simps heap_alloc_def [abs_def] case_prod_beta blank_receiver_connection_def
      intro!: behind_alloc outcome_mono [OF add_ihave_behind] free_receiver_behind outcome_mono
          [OF free_receiver_behind])

lemma process_ihave_behind: "left_behind j b s \<Longrightarrow> returning (process_ihave pkt p s) (left_behind j b)"
  unfolding process_ihave_def outcome_andThen
  by (auto simp: behind_simps add_ihave_to_receiver_connection_def returning_iff [of "search_receiver_connection p s"]
      returning_iff [of "get_receiver_connection_number s"]
      intro!: add_ihave_behind outcome_mono [OF malloc_receiver_behind] outcome_mono [OF add_receiver_behind]
          start_connection_behind)

lemma process_data_behind: "left_behind j b s \<Longrightarrow> returning (process_data pkt sender p s) (left_behind j b)"
  unfolding process_data_def outcome_andThen
  by (auto simp: behind_simps returning_iff [of "search_receiver_connection p s"]
      intro!: outcome_mono [OF save_data_behind] outcome_mono [OF save_chunk_behind] reset_receiver_behind behind_store
      split: list.split) (drule (2) behind_list, simp)+

text \<open>The providing operations change neither a job nor a receiver connection.\<close>

lemma frame_behind: "receiver_frame s s' \<Longrightarrow> left_behind j b s \<Longrightarrow> left_behind j b s'"
  by (simp add: receiver_frame_def)

lemma frame_providers [simp]:
  "receiver_frame s (s'\<lparr>providers := h\<rparr>) = receiver_frame s s'"
  "receiver_frame s (s'\<lparr>provider_connection_head := q\<rparr>) = receiver_frame s s'"
  "receiver_frame s (s'\<lparr>provider_id := n\<rparr>) = receiver_frame s s'"
  "receiver_frame s (s'\<lparr>has_chunks := cs\<rparr>) = receiver_frame s s'"
  "receiver_frame s (s'\<lparr>ticks := t\<rparr>) = receiver_frame s s'"
  "receiver_frame s (s'\<lparr>outbox := out\<rparr>) = receiver_frame s s'"
  by (simp_all add: receiver_frame_def)

lemma returning_store_provider:
  "returning (store_provider s p c) (receiver_frame r) \<longleftrightarrow> returning (store_provider s p c) (\<lambda>_. receiver_frame r s)"
  by (auto simp: store_provider_def heap_store_def split: option.split)

lemma store_provider_frame: "receiver_frame r s \<Longrightarrow> returning (store_provider s p c) (receiver_frame r)"
  unfolding returning_store_provider by (simp add: returning_iff)

lemma finish_provider_frame: "receiver_frame r s \<Longrightarrow> returning (finish_provider_connection p s) (receiver_frame r)"
  by (simp add: finish_provider_connection_def remove_provider_connection_def free_provider_connection_def
      outcome_andThen) (simp add: returning_iff split: prod.split)

lemma process_get_packet_frame: "returning (process_get_packet pkt p s) (receiver_frame s)"
proof -
  have load: "receiver_frame s (snd (load_chunk h s))" for h
    by (simp add: load_chunk_def Let_def split: option.split)
  have "receiver_frame s (snd (malloc_provider_connection pkt p s))"
    using load [of "take SHA1_HASH_SIZE (payload pkt)"]
    by (simp add: malloc_provider_connection_def init_provider_connection_def gettimeofday_def heap_alloc_def
      Let_def case_prod_beta
        split: prod.split option.split)
  moreover have "returning (add_provider_connection q s') (receiver_frame s)" if "receiver_frame s s'" for q s'
    using that by (auto simp: add_provider_connection_def outcome_andThen returning_load_provider
        intro!: outcome_mono [OF store_provider_frame])
  ultimately show ?thesis
    by (simp add: process_get_packet_def outcome_andThen case_prod_beta Let_def) (simp add: returning_iff)
qed

lemma process_ack_frame: "returning (process_ack pkt p s) (receiver_frame s)"
proof -
  have time: "receiver_frame s s'" if "only_time s s'" for s' using only_time_fields(6) that .
  have "returning (set_RTT a c s) (\<lambda>(c, s'). only_time s s')" for a c
    by (auto simp: set_RTT_def elapsed_since_def gettimeofday_def Let_def split: option.split)
  then have control: "returning (provider_control_by_ack c a s) (\<lambda>(c, s'). receiver_frame s s')" for c a
    unfolding provider_control_by_ack_def outcome_andThen
    by (rule outcome_mono) (auto simp: case_prod_beta intro!: time only_time_trans [OF _ only_time_react])
  then show ?thesis
    by (auto simp: process_ack_def outcome_andThen returning_iff [of "search_provider_connection p s"]
      returning_load_provider
        intro!: outcome_mono [OF control] outcome_mono [OF store_provider_frame] finish_provider_frame)
qed

lemma provider_timeout_frame: "receiver_frame r s \<Longrightarrow> returning (provider_control_by_timeout p s) (receiver_frame r)"
proof -
  assume r: "receiver_frame r s"
  have "receiver_frame r (snd (connection_scale_down c (s\<lparr>ticks := t\<rparr>)))" for c t
    by (rule receiver_frame_trans [OF _ only_time_fields(6) [OF only_time_scale_down]]) (simp add: r)
  with r show ?thesis
    by (auto simp: provider_control_by_timeout_def behind_simps case_prod_beta intro!: finish_provider_frame
      store_provider_frame)
qed

lemma send_data_frame: "receiver_frame r s \<Longrightarrow> returning (send_data_packet p s) (receiver_frame r)"
  by (auto simp: send_data_packet_def behind_simps returning_iff [of "chunk_slice s i q" for s i q] case_prod_beta
      intro!: store_provider_frame)

section \<open>The main loop\<close>

lemma process_inbound_behind: "left_behind j b s \<Longrightarrow> returning (process_inbound_udp bytes sender s) (left_behind j b)"
proof -
  assume s: "left_behind j b s"
  let ?s = "s\<lparr>ticks := Suc (ticks s)\<rparr>"
  have s': "left_behind j b ?s" using s by simp
  have "left_behind j b (process_whohas pkt sender ?s)" for pkt
    using s by (simp add: process_whohas_def fresh_memory_def send_packet_def split: option.split)
  then show ?thesis
    using process_ihave_behind [OF s'] process_data_behind [OF s'] s
      outcome_mono [OF process_get_packet_frame frame_behind, OF _ s'] outcome_mono
          [OF process_ack_frame frame_behind, OF _ s']
    by (simp add: process_inbound_udp_def fresh_memory_def Let_def)
qed

lemma flood_whohas_behind: "left_behind j b s \<Longrightarrow> returning (flood_whohas s) (left_behind j b)"
  by (auto simp: flood_whohas_def behind_simps returning_iff [of "get_receiver_connection_number s"] send_whohas_outbox)

lemma finish_job_behind:
  assumes s: "left_behind j b s"
  shows "returning (finish_job s) (left_behind j b)"
proof -
  obtain k where k: "current_job s = Some j" "jchunk (jobs s) (j, b) = Some k" "ck_status k = CHUNK_STATUS_NOT_FOUND"
    using s by (auto simp: behind_def)
  then obtain job where job: "cell (jobs s) j = Some job" "k \<in> set (chunks job)"
    by (auto simp: jchunk_def split: option.splits if_splits)
  then have "filter not_found (chunks job) \<noteq> []" using k(3) by (auto simp: not_found_def filter_empty_conv)
  then have "get_not_found_chunk_number job \<noteq> 0" by (simp add: get_not_found_chunk_number_def count_not_found_filter)
  with s k job show ?thesis
    by (simp add: finish_job_def outcome_andThen heap_load_def) (simp add: returning_iff)
qed

lemma turn_behind:
  assumes "left_behind j b s" and "snd i = None"
  shows "returning (turn i (t, s)) (\<lambda>(t, s'). left_behind j b s')"
proof -
  let ?Q = "\<lambda>s. left_behind j b s"
  have loops: "returning (providers_timeout s) ?Q" "returning (receivers_timeout s) ?Q"
    "returning (all_provider_connection_send_data s) ?Q" if "?Q s" for s
    unfolding providers_timeout_def receivers_timeout_def all_provider_connection_send_data_def
    using that outcome_mono [OF provider_timeout_frame [OF receiver_frame_refl] frame_behind]
      outcome_mono [OF send_data_frame [OF receiver_frame_refl] frame_behind] receiver_timeout_behind
    by (auto intro!: for_each_returning)
  have inbound: "returning (case fst i of None \<Rightarrow> Inr s | Some (b, a) \<Rightarrow> process_inbound_udp b a s) ?Q"
    using assms(1) process_inbound_behind by (auto split: option.split)
  have tasks: "returning (peer_run_tasks (t, s)) (\<lambda>(t, s). ?Q s)" if "?Q s" for s
    unfolding peer_run_tasks_def prod.case outcome_andThen elapsed_since_def gettimeofday_def Let_def
    using that by (auto intro!: outcome_mono [OF loops(1)] outcome_mono [OF loops(2)] outcome_mono [OF loops(3)]
        outcome_mono [OF flood_whohas_behind] outcome_mono [OF finish_job_behind] simp: outcome_andThen)
  show ?thesis
    unfolding turn_def peer_run_turn_def prod.case outcome_andThen assms(2)
    by (rule outcome_mono [OF inbound]) (simp add: process_get_def tasks)
qed

text \<open>So the main loop without a user is a machine that leaves the chunk behind, however it ends.\<close>

interpretation unattended: machine turn "\<lambda>_ i. snd i = None" UNIV "\<lambda>(t, s). left_behind j b s" for j b
  by unfold_locales (use turn_behind in auto)

lemma run_behind:
  assumes "left_behind j b s" and "\<forall>i \<in> set inputs. snd i = None"
  shows "returning (run_steps turn inputs (t, s)) (\<lambda>(t, s'). left_behind j b s')"
  by (rule unattended.run_inv [OF _ fed_all]) (use assms in simp_all)

text \<open>A job for a file with two equal pieces is such a job from the start.\<close>

lemma new_job_behind:
  assumes "peer_inv s" and "a < b" and "b < length (chunks job)"
    and "hash_binary (chunks job ! a) = hash_binary (chunks job ! b)"
    and "list_all new_chunk (chunks job)"
  shows "behind (brk (jobs s)) b (Some (brk (jobs s))) (snd (heap_alloc (jobs s) job)) (receivers s)"
proof -
  let ?j = "brk (jobs s)"
  from peer_inv_receive [OF assms(1)] obtain as L where ok: "receive_ok s as L" by blast
  have old: "jchunk (jobs s) (?j, b) = None" using ok
      by (intro jchunk_beyond) (simp_all add: receive_ok_def jobs_ok_def)
  have "(?j, b) \<notin> set (chunk_list c)" if c: "cell (receivers s) d = Some c" for c d
  proof
    assume b: "(?j, b) \<in> set (chunk_list c)"
    from receive_live [OF ok c] obtain i where "i < length L" "L ! i = rl.erase c" by blast
    then have "rl.erase c \<in> set L" by (metis nth_mem)
    then have "rc_ok (chunk_states (jobs s)) (length (peers (config s))) (rl.erase c)"
      using ok by (simp add: receive_ok_def rinv_def)
    with b have "chunk_states (jobs s) (?j, b) \<noteq> None" unfolding rc_ok_def erased_fields by auto
    with old show False by (simp add: chunk_states_def)
  qed
  moreover have "new_chunk (chunks job ! b)" using assms(3,5) by (simp add: list_all_length)
  ultimately show ?thesis using assms(2-4) by (auto simp: behind_def heap_alloc_def jchunk_def new_chunk_def)
qed

section \<open>Properties\<close>

text \<open>
  C6. A file with two equal pieces is never downloaded as a whole: after the command \<open>GET chunkf outf\<close> for
  such a file, whatever arrives and whatever the clock shows, the later of the two pieces stays missing and the
  job is not ended, as long as no other command replaces it.
\<close>

theorem equal_pieces_never_download:
  assumes "command_word w1" and "command_word w2"
    and "make_chunks_main mem fs (name # args) = Inr (0, printed)" and "fs name = Some input"
    and "length input \<le> 2 ^ 50"
    and "files s w1 = Some printed" and "41 \<le> room" and "peer_inv s"
    and "get_receiver_connection_number s = Inr n" and "n < max_receiver_connection s"
    and "a < b" and "b < get_numchunks input" and "piece_of input a = piece_of input b"
    and "handle_user_input room (GET_COMMAND @ 0x20 # w1 @ 0x20 # w2) s = Inr s'"
    and "\<forall>i \<in> set inputs. snd i = None" and "run_steps turn inputs (t, s') = Inr (t'', s'')"
  shows "\<exists>j k. current_job s'' = Some j \<and> load_job_chunk s'' (j, b) = Inr k \<and> ck_status k = CHUNK_STATUS_NOT_FOUND"
proof -
  from get_command_effect [OF assms(1-7,9,10)] obtain job mem' where job: "list_all new_chunk (chunks job)"
      "map hash_binary (chunks job) = map (\<lambda>i. sha1 (piece_of input i)) [0..<get_numchunks input]"
    and get: "handle_user_input room (GET_COMMAND @ 0x20 # w1 @ 0x20 # w2) s = Inr
      (s\<lparr>ticks := Suc (Suc (Suc (ticks s))),
      jobs := snd (heap_alloc (jobs s) job), current_job := Some (brk (jobs s)),
      outbox := outbox s @ concat (map (\<lambda>q. map (\<lambda>p. (peer_addr q, datagram p)) (malloc_all_whohas_packet mem' job))
        (filter (\<lambda>q. peer_id q \<noteq> identity (config s)) (peers (config s))))\<rparr>)" by blast
  have n: "length (chunks job) = get_numchunks input" using arg_cong [OF job(2), of length] by simp
  have "hash_binary (chunks job ! i) = sha1 (piece_of input i)" if "i < get_numchunks input" for i
    using arg_cong [OF job(2), of "\<lambda>xs. xs ! i"] that n by simp
  then have "hash_binary (chunks job ! a) = hash_binary (chunks job ! b)" using assms(11-13) by simp
  from new_job_behind [OF assms(8,11) _ this job(1)] n assms(12) get assms(14)
  have "left_behind (brk (jobs s)) b s'" by auto
  from run_behind [OF this assms(15), of t] assms(16) have "left_behind (brk (jobs s)) b s''" by simp
  then show ?thesis by (auto simp: behind_def)
qed

theorem equal_pieces_never_download_witness:
  "\<exists>s' t'' s'' j k. handle_user_input 41 (GET_COMMAND @ 0x20 # [0x43] @ 0x20 # [0x4f])
      (example_peer\<lparr>files := [[0x43] \<mapsto> chunk_lines 0 (replicate 2 (sha1 (replicate CHUNK_DATA_SIZE 9)))]\<rparr>) = Inr s' \<and>
    run_steps turn [(None, None)] (\<lparr>tv_sec = 0, tv_usec = 0\<rparr>, s') = Inr (t'', s'') \<and>
    current_job s'' = Some j \<and> load_job_chunk s'' (j, 1) = Inr k \<and> ck_status k = CHUNK_STATUS_NOT_FOUND"
proof -
  define input :: "byte list" where "input = replicate (CHUNK_DATA_SIZE + CHUNK_DATA_SIZE) 9"
  let ?p = "replicate CHUNK_DATA_SIZE (9 :: byte)" and ?t = "\<lparr>tv_sec = 0, tv_usec = 0\<rparr>"
  let ?s = "example_peer\<lparr>files := [[0x43] \<mapsto> chunk_lines 0 (replicate 2 (sha1 ?p))]\<rparr>"
  have short: "length input \<le> 2 ^ 50" and n: "get_numchunks input = 2" by (simp_all add: input_def get_numchunks_def)
  have p: "piece_of input 0 = ?p" "piece_of input 1 = ?p" by (simp_all add: input_def piece_of_def)
  then have "map (\<lambda>i. sha1 (piece_of input i)) [0..<2] = replicate 2 (sha1 ?p)" by (simp add: numeral_2_eq_2)
  then have tool: "make_chunks_main (\<lambda>_. 0) [[0x46] \<mapsto> input] [[0x46]] = Inr (0, chunk_lines 0 (replicate 2 (sha1 ?p)))"
    by (simp add: make_chunks_main_def make_chunks_pieces n)
  have words: "command_word [0x43]" "command_word [0x4f]" by (simp_all add: command_word_def is_space_def)
  have number: "get_receiver_connection_number ?s = Inr 0"
      by (simp add: get_receiver_connection_number_def empty_heap_def)
  have "receive_ok ?s [] []"
    by (simp add: receive_ok_def jobs_ok_def rinv_def rl.view_def chunk_states_def jchunk_def empty_heap_def
      heap_ok_def)
  moreover have "provide_ok ?s [] []"
    by (simp add: provide_ok_def pl.view_def empty_heap_def heap_ok_def owned_ok_def example_chunk_def)
  ultimately have inv: "peer_inv ?s" by (auto simp: peer_inv_def receive_inv_def provide_inv_def)
  have chunkfile: "files ?s [0x43] = Some (chunk_lines 0 (replicate 2 (sha1 ?p)))"
      and name: "[[0x46] \<mapsto> input] [0x46] = Some input"
    and free: "0 < max_receiver_connection ?s" by simp_all
  from get_command_effect [OF words tool name short chunkfile _ number free] obtain job s' where
    get: "handle_user_input 41 (GET_COMMAND @ 0x20 # [0x43] @ 0x20 # [0x4f]) ?s = Inr s'" and
    s': "current_job s' = Some 0" "cell (jobs s') 0 = Some job" "receiver_connection_head s' = None"
        "provider_connection_head s' = None"
      "clock s' = clock ?s" and
    job: "list_all new_chunk (chunks job)" "length (chunks job) = 2"
    by (fastforce simp: heap_alloc_def empty_heap_def n dest: arg_cong [where f = length])
  have "\<bar>of_int (get_time_diff ?t ?t) - (0 :: rat)\<bar> < 1 + 1 / 100"
    using get_time_diff_close [of ?t ?t] by (simp add: sane_time_def exact_ms_def)
  then have "(of_int (get_time_diff ?t ?t) :: rat) < 3000" by linarith
  then have "\<not> 3000 < get_time_diff ?t ?t" by linarith
  moreover have "get_not_found_chunk_number job = 2"
    using new_chunks_asked(2) [OF job(1)] job(2) by (simp add: get_not_found_chunk_number_def count_not_found_filter)
  ultimately obtain t'' s'' where run: "run_steps turn [(None, None)] (?t, s') = Inr (t'', s'')"
    using s' by (simp add: turn_def peer_run_turn_def peer_run_tasks_def process_get_def providers_timeout_def
      receivers_timeout_def
        all_provider_connection_send_data_def elapsed_since_def gettimeofday_def finish_job_def
            get_receiver_connection_number_def)
  have "piece_of input 0 = piece_of input 1" using p by simp
  from equal_pieces_never_download [OF words tool name short chunkfile order_refl inv number free _ _ this get _
      run] get run n
  show ?thesis by auto
qed

end
