(* ===== verification/Connection_Table.thy ===== *)
theory Connection_Table imports Peer_Properties begin

text \<open>
  The connection lists as tables. The provider connections are a finite map from peers to connections:
  a search is a lookup in it, finishing a connection deletes its entry. And what \<open>save_chunk\<close> does to the
  output file.
\<close>

section \<open>The table\<close>

lemma find_in_map: "find P (map f xs) = map_option f (find (\<lambda>x. P (f x)) xs)"
  by (induction xs) auto

lemma find_map_of:
  "length ps = length L \<Longrightarrow>
    map_option (\<lambda>i. ps ! i) (find (\<lambda>i. f (L ! i) = p) [0..<length L]) = map_of (zip (map f L) ps) p"
proof (induction L arbitrary: ps)
  case Nil
  then show ?case by simp
next
  case (Cons c L)
  then obtain q qs where ps: "ps = q # qs" "length qs = length L" by (cases ps) auto
  have "find (\<lambda>i. f ((c # L) ! i) = p) [0..<length (c # L)] =
      (if f c = p then Some 0 else map_option Suc (find (\<lambda>i. f (L ! i) = p) [0..<length L]))"
    unfolding length_Cons upt_conv_Cons [OF zero_less_Suc] map_Suc_upt [symmetric]
    by (simp add: find_in_map)
  with Cons.IH [OF ps(2)] show ?case
    by (auto simp: ps(1) option.map_comp comp_def split: if_splits cong: option.map_cong)
qed

lemma map_of_zip_remove:
  assumes "length ps = length ks" and "distinct ks" and "i < length ks"
  shows "map_of (zip (take i ks @ drop (Suc i) ks) (take i ps @ drop (Suc i) ps)) =
    (map_of (zip ks ps)) (ks ! i := None)"
proof -
  let ?k = "ks ! i" and ?lead = "zip (take i ks) (take i ps)" and ?rear = "zip (drop (Suc i) ks) (drop (Suc i) ps)"
  have i: "i < length ps" using assms(1,3) by simp
  have ks: "ks = take i ks @ ?k # drop (Suc i) ks" by (rule id_take_nth_drop [OF assms(3)])
  have ps: "ps = take i ps @ ps ! i # drop (Suc i) ps" by (rule id_take_nth_drop [OF i])
  have "zip ks ps = ?lead @ (?k, ps ! i) # ?rear"
    by (subst ks, subst ps, subst zip_append) (use assms(1,3) in simp_all)
  moreover have "?k \<notin> set (take i ks)" "?k \<notin> set (drop (Suc i) ks)"
    using assms(2) by (subst (asm) ks, simp)+
  then have "map_of ?lead ?k = None" "map_of ?rear ?k = None"
    by (auto simp: map_of_eq_None_iff dest: set_zip_leftD)
  moreover have "zip (take i ks @ drop (Suc i) ks) (take i ps @ drop (Suc i) ps) = ?lead @ ?rear"
    using assms(1,3) by (subst zip_append) simp_all
  ultimately show ?thesis by (auto simp: map_add_def fun_eq_iff split: option.split)
qed

definition provider_table :: "nat list \<Rightarrow> provider_connection_s list \<Rightarrow> ptr \<rightharpoonup> nat" where
  "provider_table ps L = map_of (zip (map pc_receiver L) ps)"

lemma search_table:
  assumes "provide_ok s ps L"
  shows "search_provider_connection p s = Inr (provider_table ps L p)"
  using provide_search [OF assms, of p] find_map_of [of ps L pc_receiver p] provide_length [OF assms]
  by (simp add: provider_table_def)

lemma table_entry:
  assumes "provide_ok s ps L" and "provider_table ps L p = Some a"
  shows "\<exists>i < length L. ps ! i = a \<and> pc_receiver (L ! i) = p"
  using provide_length [OF assms(1)] map_of_SomeD [OF assms(2) [unfolded provider_table_def]]
  by (auto simp: in_set_zip)

lemma remove_from_table:
  assumes "provide_ok s ps L" and "i < length L"
  shows "provider_table (take i ps @ drop (Suc i) ps) (take i L @ drop (Suc i) L) =
    (provider_table ps L) (pc_receiver (L ! i) := None)"
proof -
  have "distinct (map pc_receiver L)" using assms(1) by (simp add: provide_ok_def)
  with map_of_zip_remove [of ps "map pc_receiver L" i] assms(2) provide_length [OF assms(1)] show ?thesis
    by (simp add: provider_table_def take_map drop_map)
qed

section \<open>Properties\<close>

text \<open>
  C31. Ending a connection is the deletion of its entry from the table of provider connections: it does
  not fault, keeps the peer's invariant, the peer it served is no longer found, every other peer is found
  at the connection it had, and there is one connection less.
\<close>

theorem finish_deletes_entry:
  assumes "peer_inv s" and "search_provider_connection p s = Inr (Some a)"
  shows "\<exists>s' n. finish_provider_connection (Some a) s = Inr s' \<and> peer_inv s' \<and>
    (\<forall>q. search_provider_connection q s' = (if q = p then Inr None else search_provider_connection q s)) \<and>
    get_provider_connection_number s = Inr (n + 1) \<and> get_provider_connection_number s' = Inr n"
proof -
  from peer_inv_provide [OF assms(1)] obtain ps L where ok: "provide_ok s ps L" by blast
  from assms(2) table_entry [OF ok, of p a] obtain i where i: "i < length L" "ps ! i = a" "pc_receiver (L ! i) = p"
    by (auto simp: search_table [OF ok])
  from finish_provider_ok [OF ok i(1)] obtain s' where s': "finish_provider_connection (Some a) s = Inr s'"
    "receiver_frame s s'" "provide_ok s' (take i ps @ drop (Suc i) ps) (take i L @ drop (Suc i) L)"
    by (auto simp: i(2))
  have "peer_inv s'"
    using from_providing [OF assms(1), of "{}" "Inr s'"] s'(2) provide_invI [OF s'(3)] by simp
  moreover have "search_provider_connection q s' = (if q = p then Inr None else search_provider_connection q s)" for q
    by (simp add: search_table [OF ok] search_table [OF s'(3)] remove_from_table [OF ok i(1)] i(3))
  moreover have "get_provider_connection_number s = Inr (int (length L) - 1 + 1)"
    by (simp add: provide_number [OF ok])
  moreover have "get_provider_connection_number s' = Inr (int (length L) - 1)"
    using i(1) by (simp add: provide_number [OF s'(3)] of_nat_diff)
  ultimately show ?thesis using s'(1) by blast
qed

theorem finish_deletes_entry_witness:
  "\<exists>s'. finish_provider_connection (Some 0) (example_serving \<lparr>tv_sec = 0, tv_usec = 0\<rparr>) = Inr s' \<and>
    search_provider_connection (Some 0) s' = Inr None \<and> get_provider_connection_number s' = Inr 0"
proof -
  let ?s = "example_serving \<lparr>tv_sec = 0, tv_usec = 0\<rparr>"
  have "search_provider_connection (Some 0) ?s = Inr (Some 0)" "get_provider_connection_number ?s = Inr 1"
    by (simp_all add: search_provider_connection_def get_provider_connection_number_def example_serving_def
        example_connection_def)
  with finish_deletes_entry [OF example_serving_inv this(1)] show ?thesis by auto
qed

text \<open>
  C36. A chunk that is complete and has the announced digest is appended to the output file and counts as
  finished. Its number plays no part: the file holds the chunks in the order in which they are completed,
  so a chunk that overtakes an earlier one of the file stays in front of it.
\<close>

theorem save_chunk_appends:
  assumes "cell (receivers s) a = Some c" and "chunk_list c = r # rs" and "load_job_chunk s r = Inr k"
    and "received_byte_num k = int CHUNK_DATA_SIZE" and "ck_data k = Some d" and "length d = CHUNK_DATA_SIZE"
    and "sha1 d = hash_binary k" and "current_job s = Some j" and "cell (jobs s) j = Some job"
    and "files s (output_file_name job) = Some old"
    and "can_append s (Suc (ticks s)) (output_file_name job)" and "CHUNK_DATA_SIZE \<le> disk_room s (Suc (ticks s))"
  shows "\<exists>s' k'. save_chunk (Some a) s = Inr s' \<and> files s' = (files s)(output_file_name job \<mapsto> old @ d) \<and>
    load_job_chunk s' r = Inr k' \<and> ck_status k' = CHUNK_STATUS_FINISHED \<and> ck_data k' = None"
proof -
  have k: "jchunk (jobs s) r = Some k"
    using assms(3) by (cases r) (auto simp: load_job_chunk_def jchunk_def heap_load_def andThen_eq_Inr split: option.splits if_splits)
  from save_chunk_eq [OF assms(1,2) k assms(4,5,6,8,9)] assms(7,10-) k show ?thesis
    by (simp add: verdict_def append_chunk_def Let_def assms(6))
qed

theorem save_chunk_appends_witness:
  "\<exists>s'. save_chunk (Some 0) (example_fetching \<lparr>tv_sec = 0, tv_usec = 0\<rparr>
      ((example_chunk 0 1)\<lparr>hash_binary := sha1 (replicate CHUNK_DATA_SIZE 9), received_byte_num := int CHUNK_DATA_SIZE,
         ck_data := Some (replicate CHUNK_DATA_SIZE 9)\<rparr>)
      \<lparr>files := [[0x6f] \<mapsto> [1, 2, 3]], disk_room := \<lambda>_. CHUNK_DATA_SIZE\<rparr>) = Inr s' \<and>
    files s' [0x6f] = Some ([1, 2, 3] @ replicate CHUNK_DATA_SIZE 9)"
proof -
  define d :: "byte list" where "d = replicate CHUNK_DATA_SIZE 9"
  let ?k = "(example_chunk 0 1)\<lparr>hash_binary := sha1 d, received_byte_num := int CHUNK_DATA_SIZE, ck_data := Some d\<rparr>"
  let ?s = "(example_fetching \<lparr>tv_sec = 0, tv_usec = 0\<rparr> ?k)\<lparr>files := [[0x6f] \<mapsto> [1, 2, 3]], disk_room := \<lambda>_. CHUNK_DATA_SIZE\<rparr>"
  have "length d = CHUNK_DATA_SIZE" by (simp add: d_def)
  moreover have "load_job_chunk ?s (0, 0) = Inr ?k" by (simp add: load_job_chunk_def example_fetching_def)
  moreover have "can_append ?s (Suc (ticks ?s)) [0x6f]"
    by (simp add: example_fetching_def example_peer_def world.defs example_world_def)
  ultimately show ?thesis
    using save_chunk_appends [of ?s 0 example_request "(0, 0)" "[]" ?k d 0 "\<lparr>output_file_name = [0x6f], chunks = [?k]\<rparr>" "[1, 2, 3]"]
    by (auto simp: example_fetching_def example_request_def d_def [symmetric])
qed

end
