(* ===== verification/Start_Up.thy ===== *)
theory Start_Up imports Keyboard Peer_Properties begin

text \<open>
  The start of the program: \<open>bt_parse.c\<close> (command line and peer list), \<open>debug.c\<close>, and \<open>main\<close> and the
  first half of \<open>peer_run\<close> of \<open>peer.c\<close>, compiled with \<open>TESTING\<close>. Option parsing by the library's \<open>getopt\<close>
  is modelled; the name service behind \<open>gethostbyname\<close> and the success of \<open>socket\<close> and \<open>bind\<close> are
  parameters. The main loop starts in a state that satisfies its invariant.
\<close>

section \<open>Limits\<close>

abbreviation (input) BT_FILENAME_LEN :: nat where "BT_FILENAME_LEN \<equiv> 255"

text \<open>\<open>strcpy\<close> into a field of the configuration: the string with its zero, unchecked.\<close>

definition strcpy_name :: "byte list \<Rightarrow> byte list result" where
  "strcpy_name src = (if length src + 1 \<le> BT_FILENAME_LEN then Inr src else Inl Buffer_Overflow)"

section \<open>Debug flags\<close>

definition set_debug :: "byte list option \<Rightarrow> c_int \<Rightarrow> int \<times> c_int" where
  "set_debug arg debug =
     (case arg of
        None \<Rightarrow> (-1, debug)
      | Some [] \<Rightarrow> (-1, debug)
      | Some (c # cs) \<Rightarrow>
          if c = 0x3f \<or> c # cs = ascii ''list'' then (-1, debug)
          else if is_digit c then (0, debug OR word_of_int (atoi (c # cs)))
          else (0, debug))"

section \<open>Options\<close>

text \<open>
  \<open>getopt(argc, argv, "p:c:f:m:i:d:h")\<close>, called until it returns -1: the options with their arguments.
  An option's argument is the rest of its word or the next word; an unknown option or a missing argument
  is reported as a question mark; words that are no options are skipped; two dashes end the options.
\<close>

definition option_takes_argument :: "byte \<Rightarrow> bool" where
  "option_takes_argument c \<longleftrightarrow> c \<in> set (ascii ''pcfmid'')"

fun option_word :: "byte list \<Rightarrow> byte list list \<Rightarrow> (byte \<times> byte list) list \<times> byte list list" where
  "option_word [] args = ([], args)"
| "option_word (c # cs) args =
     (if option_takes_argument c
      then if cs \<noteq> [] then ([(c, cs)], args)
           else (case args of [] \<Rightarrow> ([(0x3f, [])], []) | a # args \<Rightarrow> ([(c, a)], args))
      else case option_word cs args of
             (os, args) \<Rightarrow> ((if c = 0x68 then 0x68 else 0x3f, []) # os, args))"

lemma option_word_shortens: "length (snd (option_word cs args)) \<le> length args"
  by (induction cs args rule: option_word.induct) (auto split: list.split prod.splits)

function getopt :: "byte list list \<Rightarrow> (byte \<times> byte list) list" where
  "getopt args =
     (case args of
        [] \<Rightarrow> []
      | a # args \<Rightarrow>
          if a = [0x2d, 0x2d] then []
          else if 2 \<le> length a \<and> hd a = 0x2d
          then (case option_word (tl a) args of (os, args) \<Rightarrow> os @ getopt args)
          else getopt args)"
  by pat_completeness auto
termination
proof (relation "measure length")
  fix args rest a os args' and cs :: "byte list list"
  assume "args = a # rest" and "(os, args') = option_word (tl a) rest"
  with option_word_shortens [of "tl a" rest] show "(args', args) \<in> measure length" by (metis in_measure le_imp_less_Suc length_Cons snd_conv)
qed auto

declare getopt.simps [simp del]

section \<open>The configuration\<close>

definition bt_init :: bt_config_s where
  "bt_init =
     \<lparr>chunk_file = [], has_chunk_file = [], output_file = ascii ''output.dat'', peer_list_file = ascii ''nodes.map'',
      max_conn = 0, identity = 0, myport = 0, peers = []\<rparr>"

definition to_short :: "int \<Rightarrow> int" where
  "to_short v = sint (word_of_int v :: c_short)"

text \<open>The \<open>switch\<close> over one option, and the loop over all; the second component is the debug mask.\<close>

definition parse_option :: "byte \<times> byte list \<Rightarrow> bt_config_s \<times> c_int \<Rightarrow> (bt_config_s \<times> c_int) process result" where
  "parse_option opt = (\<lambda>(cfg, debug).
     case opt of (c, optarg) \<Rightarrow>
       if c = 0x68 then Inr (Exited 0)
       else if c = 0x64 then
         (case set_debug (Some optarg) debug of (r, debug) \<Rightarrow>
            if r = -1 then Inr (Exited (-1)) else Inr (Running (cfg, debug)))
       else if c = 0x70 then
         andThen (strcpy_name optarg) (\<lambda>name. Inr (Running (cfg\<lparr>peer_list_file := name\<rparr>, debug)))
       else if c = 0x63 then
         andThen (strcpy_name optarg) (\<lambda>name. Inr (Running (cfg\<lparr>has_chunk_file := name\<rparr>, debug)))
       else if c = 0x66 then
         andThen (strcpy_name optarg) (\<lambda>name. Inr (Running (cfg\<lparr>chunk_file := name\<rparr>, debug)))
       else if c = 0x6d then Inr (Running (cfg\<lparr>max_conn := atoi optarg\<rparr>, debug))
       else if c = 0x69 then Inr (Running (cfg\<lparr>identity := to_short (atoi optarg)\<rparr>, debug))
       else Inr (Exited (-1)))"

fun parse_options ::
  "(byte \<times> byte list) list \<Rightarrow> bt_config_s \<times> c_int \<Rightarrow> (bt_config_s \<times> c_int) process result" where
  "parse_options [] c = Inr (Running c)"
| "parse_options (opt # opts) c = andRun (parse_option opt c) (parse_options opts)"

section \<open>The peer list\<close>

text \<open>
  The local variables of the loop survive from line to line; they start uninitialised. \<open>sscanf(line,
  "%d %s %d", ...)\<close> returns how many it set, or \<open>EOF\<close> for a blank line.
\<close>

record peer_line =
  nodeid :: "int option"
  hostname :: "byte list option"
  port :: "int option"

definition scan_peer_line :: "byte list \<Rightarrow> peer_line \<Rightarrow> int \<times> peer_line" where
  "scan_peer_line line v =
     (if dropWhile is_space (c_string line) = [] then (-1, v)
      else case scan_d (c_string line) of
             None \<Rightarrow> (0, v)
           | Some (i, rest) \<Rightarrow>
               (case scan_s rest of
                  None \<Rightarrow> (1, v\<lparr>nodeid := Some i\<rparr>)
                | Some (name, rest) \<Rightarrow>
                    (case scan_d rest of
                       None \<Rightarrow> (2, v\<lparr>nodeid := Some i, hostname := Some name\<rparr>)
                     | Some (p, rest) \<Rightarrow> (3, v\<lparr>nodeid := Some i, hostname := Some name, port := Some p\<rparr>))))"

definition add_node ::
  "(byte list \<Rightarrow> c_int option) \<Rightarrow> peer_line \<Rightarrow> bt_peer_s list \<Rightarrow> bt_peer_s list process result" where
  "add_node gethostbyname v nodes =
     (case (nodeid v, hostname v) of
        (Some i, Some name) \<Rightarrow>
          (case gethostbyname name of
             None \<Rightarrow> Inr Aborted
           | Some h_addr \<Rightarrow>
               (case port v of
                  None \<Rightarrow> Inl Uninitialised_Read
                | Some p \<Rightarrow>
                    Inr (Running (\<lparr>peer_id = to_short i,
                      peer_addr = \<lparr>sin_port = htons (word_of_int p), sin_addr = h_addr\<rparr>\<rparr> # nodes))))
      | _ \<Rightarrow> Inl Uninitialised_Read)"

fun parse_peer_lines ::
  "(byte list \<Rightarrow> c_int option) \<Rightarrow> byte list list \<Rightarrow> peer_line \<Rightarrow> bt_peer_s list \<Rightarrow> bt_peer_s list process result" where
  "parse_peer_lines gethostbyname [] v nodes = Inr (Running nodes)"
| "parse_peer_lines gethostbyname (line # lines) v nodes =
     (if hd line = 0x23 then parse_peer_lines gethostbyname lines v nodes
      else case scan_peer_line line v of
             (n, v) \<Rightarrow>
               if n = 0 then Inr Aborted
               else andRun (add_node gethostbyname v nodes) (parse_peer_lines gethostbyname lines v))"

definition bt_parse_peer_list ::
  "(byte list \<Rightarrow> c_int option) \<Rightarrow> (byte list \<Rightarrow> byte list option) \<Rightarrow> bt_config_s \<Rightarrow> bt_config_s process result" where
  "bt_parse_peer_list gethostbyname fs cfg =
     (case fs (peer_list_file cfg) of
        None \<Rightarrow> Inr Aborted
      | Some content \<Rightarrow>
          andRun (parse_peer_lines gethostbyname (fgets_lines BT_FILENAME_LEN content)
              \<lparr>nodeid = None, hostname = None, port = None\<rparr> (peers cfg)) (\<lambda>nodes.
          Inr (Running (cfg\<lparr>peers := nodes\<rparr>))))"

text \<open>\<open>argv\<close> are the words behind the name of the program.\<close>

definition bt_parse_command_line ::
  "(byte list \<Rightarrow> c_int option) \<Rightarrow> (byte list \<Rightarrow> byte list option) \<Rightarrow> byte list list \<Rightarrow>
    bt_config_s \<times> c_int \<Rightarrow> (bt_config_s \<times> c_int) process result" where
  "bt_parse_command_line gethostbyname fs argv c =
     andRun (parse_options (getopt argv) c) (\<lambda>(cfg, debug).
     andRun (bt_parse_peer_list gethostbyname fs cfg) (\<lambda>cfg.
     if identity cfg = 0 then Inr (Exited (-1))
     else case bt_peer_info cfg (identity cfg) of
            None \<Rightarrow> Inr (Exited (-1))
          | Some p \<Rightarrow>
              if length (chunk_file cfg) = 0 \<or> length (has_chunk_file cfg) = 0 then Inr Aborted
              else Inr (Running (cfg\<lparr>myport := ntohs (sin_port (peer_addr (peers cfg ! p)))\<rparr>, debug))))"

section \<open>The start of the process\<close>

text \<open>The globals of a process that has just been loaded are zero.\<close>

definition loaded_program :: "world \<Rightarrow> peer_s" where
  "loaded_program w =
     world.extend w
       \<lparr>config = bt_init, current_job = None, jobs = empty_heap, has_chunks = [],
        max_provider_connection = 0, provider_connection_head = None, providers = empty_heap,
        max_receiver_connection = 0, receiver_connection_head = None, receivers = empty_heap, provider_id = 0\<rparr>"

definition init_window_log :: "peer_s \<Rightarrow> peer_s" where
  "init_window_log s =
     (case gettimeofday (s\<lparr>provider_id := 1\<rparr>) of (t, s) \<Rightarrow> s\<lparr>log_start := t, window_log := []\<rparr>)"

text \<open>\<open>peer_run\<close> up to its loop; \<open>socket_ok\<close> is whether the socket could be created and bound.\<close>

definition peer_run_start :: "nat \<Rightarrow> bool \<Rightarrow> peer_s \<Rightarrow> loop_state process result" where
  "peer_run_start room socket_ok s =
     (if \<not> socket_ok then Inr (Exited (-1))
      else
        let userbuf = create_userbuf;
            s = init_window_log s
        in andThen (init_hasChunks room (has_chunk_file (config s)) s) (\<lambda>s.
           case gettimeofday (init_connections s) of
             (last_flood_whohas_time, s) \<Rightarrow> Inr (Running (last_flood_whohas_time, userbuf, s))))"

definition main_start ::
  "nat \<Rightarrow> (byte list \<Rightarrow> c_int option) \<Rightarrow> bool \<Rightarrow> byte list list \<Rightarrow> world \<Rightarrow> loop_state process result" where
  "main_start room gethostbyname socket_ok argv w =
     (let cfg = bt_init\<lparr>identity := 1, chunk_file := ascii ''chunkfile'', has_chunk_file := ascii ''haschunks''\<rparr>
      in andRun (bt_parse_command_line gethostbyname (files w) argv (cfg, 0)) (\<lambda>(cfg, debug).
         peer_run_start room socket_ok ((loaded_program w)\<lparr>config := cfg\<rparr>)))"

lemma getopt_option:
  assumes "option_takes_argument c"
  shows "getopt ([0x2d, c] # a # args) = (c, a) # getopt args"
proof -
  have "c \<noteq> 0x2d" using assms by (auto simp: option_takes_argument_def ascii_def)
  with assms show ?thesis by (subst getopt.simps) simp
qed

lemma atoi_decimal: "n < 2 ^ 31 \<Longrightarrow> atoi (decimal n) = int n"
proof -
  assume n: "n < 2 ^ 31"
  have "c_string (decimal n) = decimal n"
    using decimal_digits [of n] digit_not_space by (auto simp: c_string_def takeWhile_eq_all_conv)
  with scan_d_decimal [OF n, of "[]"] show ?thesis by (simp add: atoi_def)
qed

section \<open>Reading a peer list\<close>

text \<open>A line of a peer list: number, host and port.\<close>

type_synonym entry = "nat \<times> byte list \<times> nat"

definition entry_line :: "entry \<Rightarrow> byte list" where
  "entry_line = (\<lambda>(i, host, p). decimal i @ 0x20 # host @ 0x20 # decimal p @ [0x0a])"

definition listable :: "entry \<Rightarrow> bool" where
  "listable = (\<lambda>(i, host, p). i < 2 ^ 15 \<and> p < 2 ^ 16 \<and> host \<noteq> [] \<and> length host \<le> 240 \<and>
     list_all (\<lambda>c. \<not> is_space c \<and> c \<noteq> 0) host)"

definition node_of :: "(byte list \<Rightarrow> c_int) \<Rightarrow> entry \<Rightarrow> bt_peer_s" where
  "node_of addr = (\<lambda>(i, host, p). \<lparr>peer_id = int i, peer_addr = \<lparr>sin_port = htons (of_nat p), sin_addr = addr host\<rparr>\<rparr>)"

lemma scan_d_space: "scan_d (0x20 # str) = scan_d str"
  by (simp add: scan_d_def is_space_def)

lemma is_space_newline [simp]: "is_space 0x0a" "is_space 0x20" "\<not> is_digit 0x0a" "\<not> is_digit 0x20"
  by (simp_all add: is_space_def is_digit_def)

lemma decimal_chars: "c \<in> set (decimal n) \<Longrightarrow> \<not> is_space c \<and> c \<noteq> 0 \<and> c \<noteq> 0x0a \<and> c \<noteq> 0x23"
  using decimal_digits [of n] digit_not_space [of c] by (auto simp: is_digit_def)

lemma to_short_small: "0 \<le> v \<Longrightarrow> v < 2 ^ 15 \<Longrightarrow> to_short v = v"
proof -
  assume v: "0 \<le> v" "v < 2 ^ 15"
  have "to_short v = signed_take_bit 15 v" by (simp add: to_short_def signed_of_int)
  with v show ?thesis by (simp add: signed_take_bit_int_eq_self)
qed

lemma entry_line_parts:
  assumes "listable (i, host, p)"
  shows "0x0a \<notin> set (decimal i @ 0x20 # host @ 0x20 # decimal p)"
    and "length (decimal i @ 0x20 # host @ 0x20 # decimal p) \<le> 252"
    and "hd (entry_line (i, host, p)) \<noteq> 0x23"
    and "scan_peer_line (entry_line (i, host, p)) v =
      (3, \<lparr>nodeid = Some (int i), hostname = Some host, port = Some (int p)\<rparr>)"
proof -
  have e: "i < 2 ^ 15" "p < 2 ^ 16" "host \<noteq> []" "length host \<le> 240" "\<forall>c \<in> set host. \<not> is_space c \<and> c \<noteq> 0"
    using assms by (simp_all add: listable_def list_all_iff)
  then have nl: "0x0a \<notin> set host" using is_space_newline(1) by blast
  show "0x0a \<notin> set (decimal i @ 0x20 # host @ 0x20 # decimal p)" using decimal_chars nl by auto
  have "length (decimal i) \<le> 5" "length (decimal p) \<le> 5" using e(1,2) by (intro length_decimal; simp)+
  with e(4) show "length (decimal i @ 0x20 # host @ 0x20 # decimal p) \<le> 252" by simp
  obtain d ds where d: "decimal i = d # ds" by (cases "decimal i") auto
  then have d': "\<not> is_space d" "d \<noteq> 0" "d \<noteq> 0x23" using decimal_chars [of d i] by auto
  show "hd (entry_line (i, host, p)) \<noteq> 0x23" using d d' by (simp add: entry_line_def)
  have line: "entry_line (i, host, p) = decimal i @ 0x20 # host @ 0x20 # decimal p @ [0x0a]" by (simp add: entry_line_def)
  have "\<forall>c \<in> set (entry_line (i, host, p)). c \<noteq> 0" using decimal_chars e(5) by (auto simp: line)
  then have str: "c_string (entry_line (i, host, p)) = entry_line (i, host, p)"
    unfolding c_string_def by (simp add: takeWhile_eq_all_conv)
  have ne: "dropWhile is_space (entry_line (i, host, p)) \<noteq> []" using d d' by (simp add: line)
  have "scan_d (entry_line (i, host, p)) = Some (int i, 0x20 # host @ 0x20 # decimal p @ [0x0a])"
    unfolding line by (rule scan_d_decimal) (use e(1) in simp_all)
  moreover have "scan_s (0x20 # host @ 0x20 # decimal p @ [0x0a]) = Some (host, 0x20 # decimal p @ [0x0a])"
    by (rule scan_s_word) (use e in auto)
  moreover have "scan_d (0x20 # decimal p @ [0x0a]) = Some (int p, [0x0a])"
    unfolding scan_d_space by (rule scan_d_decimal) (use e(2) in simp_all)
  ultimately show "scan_peer_line (entry_line (i, host, p)) v =
      (3, \<lparr>nodeid = Some (int i), hostname = Some host, port = Some (int p)\<rparr>)"
    unfolding scan_peer_line_def str using ne by simp
qed

lemma fgets_entries:
  assumes "list_all listable es"
  shows "fgets_lines 255 (concat (map entry_line es) @ tail) = map entry_line es @ fgets_lines 255 tail"
  using assms
proof (induction es)
  case (Cons e es)
  obtain i host p where e: "e = (i, host, p)" by (cases e)
  with Cons.prems have l: "listable (i, host, p)" by simp
  have "concat (map entry_line (e # es)) @ tail =
      (decimal i @ 0x20 # host @ 0x20 # decimal p) @ 0x0a # (concat (map entry_line es) @ tail)"
    by (simp add: e entry_line_def)
  also have "fgets_lines 255 \<dots> = ((decimal i @ 0x20 # host @ 0x20 # decimal p) @ [0x0a]) # fgets_lines 255 (concat (map entry_line es) @ tail)"
    by (rule fgets_lines_line) (use entry_line_parts(1,2) [OF l] in simp_all)
  finally show ?case using Cons by (simp add: e entry_line_def)
qed simp

lemma parse_entries:
  assumes "list_all listable es"
  shows "parse_peer_lines (\<lambda>h. Some (addr h)) (map entry_line es @ tail) v nodes =
    parse_peer_lines (\<lambda>h. Some (addr h)) tail
      (if es = [] then v else (case last es of (i, host, p) \<Rightarrow> \<lparr>nodeid = Some (int i), hostname = Some host, port = Some (int p)\<rparr>))
      (rev (map (node_of addr) es) @ nodes)"
  using assms
proof (induction es arbitrary: v nodes)
  case (Cons e es)
  obtain i host p where e: "e = (i, host, p)" by (cases e)
  with Cons.prems have l: "listable (i, host, p)" by simp
  then have "i < 2 ^ 15" by (simp add: listable_def)
  then have i: "to_short (int i) = int i" by (simp add: to_short_small)
  note parts = entry_line_parts(3,4) [OF l]
  let ?v = "\<lparr>nodeid = Some (int i), hostname = Some host, port = Some (int p)\<rparr>"
  have "parse_peer_lines (\<lambda>h. Some (addr h)) (map entry_line (e # es) @ tail) v nodes =
      parse_peer_lines (\<lambda>h. Some (addr h)) (map entry_line es @ tail) ?v (node_of addr e # nodes)"
    using parts by (simp add: e add_node_def i node_of_def)
  also have "\<dots> = parse_peer_lines (\<lambda>h. Some (addr h)) tail
      (if es = [] then ?v else (case last es of (i, host, p) \<Rightarrow> \<lparr>nodeid = Some (int i), hostname = Some host, port = Some (int p)\<rparr>))
      (rev (map (node_of addr) es) @ node_of addr e # nodes)"
    using Cons by simp
  finally show ?case by (simp add: e)
qed simp

section \<open>Where the loop starts\<close>

text \<open>What a successful start leaves in the configuration.\<close>

definition configured :: "bt_config_s \<Rightarrow> bool" where
  "configured cfg \<longleftrightarrow> identity cfg \<noteq> 0 \<and> chunk_file cfg \<noteq> [] \<and> has_chunk_file cfg \<noteq> [] \<and>
     (\<exists>p \<in> set (peers cfg). peer_id p = identity cfg \<and> myport cfg = ntohs (sin_port (peer_addr p)))"

lemma bt_parse_command_line_configured:
  assumes "bt_parse_command_line gh fs argv c = Inr (Running (cfg, debug))"
  shows "configured cfg"
proof -
  obtain cfg' debug' cfg1 where parsed: "identity cfg1 \<noteq> 0" "chunk_file cfg1 \<noteq> []" "has_chunk_file cfg1 \<noteq> []"
    and rest: "(case bt_peer_info cfg1 (identity cfg1) of None \<Rightarrow> False
      | Some p \<Rightarrow> cfg = cfg1\<lparr>myport := ntohs (sin_port (peer_addr (peers cfg1 ! p)))\<rparr>)"
    using assms by (auto simp: bt_parse_command_line_def andRun_Running split: if_splits option.splits)
  then obtain p where p: "bt_peer_info cfg1 (identity cfg1) = Some p"
    and cfg: "cfg = cfg1\<lparr>myport := ntohs (sin_port (peer_addr (peers cfg1 ! p)))\<rparr>"
    by (cases "bt_peer_info cfg1 (identity cfg1)") auto
  from p have "p < length (peers cfg1)" "peer_id (peers cfg1 ! p) = identity cfg1"
    using search_peers_Some [of "\<lambda>q. peer_id q = identity cfg1" 0 "peers cfg1" p] by (auto simp: bt_peer_info_def)
  with parsed show ?thesis by (auto simp: configured_def cfg intro!: bexI [of _ "peers cfg1 ! p"])
qed

lemma init_hasChunks_new:
  assumes "init_hasChunks room name s = Inr s'" and "40 \<le> room"
  shows "\<exists>cs t. s' = s\<lparr>ticks := t, has_chunks := cs\<rparr> \<and> list_all new_chunk cs"
proof -
  obtain content cs where "read_chunk_lines room (uninit s (ticks s)) 0 (map (uninit s (Suc (ticks s))) [0..<room])
      (fgets_lines 64 content) = Inr cs" and s': "s' = s\<lparr>ticks := Suc (Suc (ticks s)), has_chunks := cs\<rparr>"
    using assms(1) by (auto simp: init_hasChunks_def fresh_memory_def Let_def andThen_eq_Inr split: option.splits)
  with read_chunk_lines_new [OF this(1)] assms(2) show ?thesis by (auto simp: list_all_iff)
qed

lemma main_start_started:
  assumes "main_start room gh ok argv w = Inr (Running (t, u, s))" and "40 \<le> room"
  shows "u = create_userbuf \<and> peer_inv s \<and> configured (config s) \<and> list_all new_chunk (has_chunks s)"
proof -
  obtain cfg debug s0 where cfg: "bt_parse_command_line gh (files w) argv
      (bt_init\<lparr>identity := 1, chunk_file := ascii ''chunkfile'', has_chunk_file := ascii ''haschunks''\<rparr>, 0) = Inr (Running (cfg, debug))"
    and run: "peer_run_start room ok ((loaded_program w)\<lparr>config := cfg\<rparr>) = Inr (Running (t, u, s))"
    using assms(1) by (auto simp: main_start_def Let_def andRun_Running)
  let ?s = "init_window_log ((loaded_program w)\<lparr>config := cfg\<rparr>)"
  obtain s1 where s1: "init_hasChunks room (has_chunk_file (config ?s)) ?s = Inr s1"
    and s: "s = (init_connections s1)\<lparr>ticks := Suc (ticks s1)\<rparr>" and u: "u = create_userbuf"
    using run by (auto simp: peer_run_start_def Let_def andThen_eq_Inr gettimeofday_def init_connections_def split: if_splits)
  from init_hasChunks_new [OF s1 assms(2)] obtain cs n where cs: "s1 = ?s\<lparr>ticks := n, has_chunks := cs\<rparr>" "list_all new_chunk cs"
    by blast
  have "started s1" using cs
    by (auto simp: started_def init_window_log_def gettimeofday_def loaded_program_def world.defs new_chunk_def list_all_iff)
  from started_inv [OF this] have "peer_inv s" by (simp add: s)
  moreover have "config s = cfg" "has_chunks s = cs"
    by (simp_all add: s cs(1) init_connections_def init_window_log_def gettimeofday_def loaded_program_def)
  ultimately show ?thesis using u cs(2) bt_parse_command_line_configured [OF cfg] by simp
qed

section \<open>Counters as machine integers\<close>

text \<open>
  The model keeps the counters of connections and chunks as unbounded integers. They and the values the
  code computes from them in passing fit an \<open>int\<close>.
\<close>

definition fits_int :: "int \<Rightarrow> bool" where
  "fits_int v \<longleftrightarrow> - (2 ^ 31) \<le> v \<and> v < 2 ^ 31"

definition provider_counters :: "provider_connection_s \<Rightarrow> int list" where
  "provider_counters c =
     [ssthresh c, window_size c, window_size c + 1, last_packet_acked c, last_packet_acked c + 1, last_packet_sent c,
      last_packet_sent c + 1, last_packet_sent c - last_packet_acked c, last_packet_sent c * 1024,
      num_duplicate_ack c, num_duplicate_ack c + 1, RTT_ack_num c]"

definition chunk_counters :: "chunk_s \<Rightarrow> int list" where
  "chunk_counters k =
     [received_seq_num k, received_seq_num k + 1, received_byte_num k, received_byte_num k + int MAX_PAYLOAD_LENGTH]"

lemma peer_inv_counters:
  assumes "peer_inv s"
  shows "cell (providers s) a = Some c \<Longrightarrow> list_all fits_int (provider_counters c)"
    and "load_job_chunk s r = Inr k \<Longrightarrow> list_all fits_int (chunk_counters k)"
proof -
  assume a: "cell (providers s) a = Some c"
  from peer_inv_provide [OF assms] obtain ps L where ok: "provide_ok s ps L" by blast
  with a have "a \<in> set ps" by (auto simp: provide_ok_def)
  then obtain i where "i < length L" "ps ! i = a" using provide_length [OF ok] by (auto simp: in_set_conv_nth)
  with provide_at [OF ok, of i] a have "pc_ok c" by (auto simp: serves_def)
  then show "list_all fits_int (provider_counters c)"
    by (auto simp: pc_ok_def provider_counters_def fits_int_def)
next
  assume k: "load_job_chunk s r = Inr k"
  then have "jchunk (jobs s) r = Some k"
    by (cases r) (auto simp: load_job_chunk_def jchunk_def heap_load_def andThen_eq_Inr split: option.splits if_splits)
  moreover from peer_inv_receive [OF assms] have "jobs_ok (jobs s) (current_job s)" by (auto simp: receive_ok_def)
  ultimately have "chunk_ok k" by (rule jobs_okD [rotated])
  then show "list_all fits_int (chunk_counters k)" by (auto simp: chunk_ok_def chunk_counters_def fits_int_def)
qed

section \<open>An example\<close>

text \<open>A machine with a peer list of two entries and an empty list of owned chunks.\<close>

definition example_entries :: "entry list" where
  "example_entries = [(1, [0x68], 5), (2, [0x67], 6)]"

definition example_machine :: world where
  "example_machine = example_world\<lparr>files :=
     [ascii ''nodes.map'' \<mapsto> concat (map entry_line example_entries), ascii ''haschunks'' \<mapsto> []]\<rparr>"

lemma example_entries_listable: "list_all listable example_entries"
  by (simp add: example_entries_def listable_def is_space_def)

lemma example_start_up: "\<exists>L. main_start 63 (\<lambda>_. Some 7) True [] example_machine = Inr (Running L)"
proof -
  have "ascii ''nodes.map'' \<noteq> ascii ''haschunks''" by (simp add: ascii_def)
  then have files: "files example_machine (ascii ''nodes.map'') = Some (concat (map entry_line example_entries))"
    "files example_machine (ascii ''haschunks'') = Some []"
    by (simp_all add: example_machine_def)
  let ?c = "bt_init\<lparr>identity := 1, chunk_file := ascii ''chunkfile'', has_chunk_file := ascii ''haschunks''\<rparr>"
  let ?nodes = "rev (map (node_of (\<lambda>_. 7)) example_entries)"
  have "bt_parse_peer_list (\<lambda>_. Some 7) (files example_machine) ?c = Inr (Running (?c\<lparr>peers := ?nodes\<rparr>))"
    using files(1) fgets_entries [OF example_entries_listable, of "[]"]
      parse_entries [OF example_entries_listable, of "\<lambda>_. 7" "[]"]
    by (simp add: bt_parse_peer_list_def bt_init_def)
  moreover have "bt_peer_info (?c\<lparr>peers := ?nodes\<rparr>) 1 = Some 1"
    by (simp add: bt_peer_info_def example_entries_def node_of_def)
  moreover have "getopt [] = []" by (subst getopt.simps) simp
  ultimately have "\<exists>cfg debug. has_chunk_file cfg = ascii ''haschunks'' \<and>
      bt_parse_command_line (\<lambda>_. Some 7) (files example_machine) [] (?c, 0) = Inr (Running (cfg, debug))"
    by (simp add: bt_parse_command_line_def ascii_def)
  then obtain cfg debug where cfg: "has_chunk_file cfg = ascii ''haschunks''"
    "bt_parse_command_line (\<lambda>_. Some 7) (files example_machine) [] (?c, 0) = Inr (Running (cfg, debug))" by blast
  let ?s = "init_window_log ((loaded_program example_machine)\<lparr>config := cfg\<rparr>)"
  have "files ?s = files example_machine" "config ?s = cfg"
    by (simp_all add: init_window_log_def gettimeofday_def loaded_program_def world.defs)
  with files(2) cfg(1) have "\<exists>s. init_hasChunks 63 (has_chunk_file (config ?s)) ?s = Inr s"
    by (simp add: init_hasChunks_def fresh_memory_def)
  then obtain s where s: "init_hasChunks 63 (has_chunk_file (config ?s)) ?s = Inr s" by blast
  show ?thesis
    unfolding main_start_def Let_def cfg(2) andRun_simps prod.case peer_run_start_def s andThen_Inr
    by (simp add: gettimeofday_def)
qed

section \<open>Properties\<close>







text \<open>
  C28. A peer list is read back as it was written, last line first: for every list of numbers below
  \<open>2 ^ 15\<close>, host names and ports, the peers of the configuration are exactly its entries.
\<close>

theorem peer_list_read_back:
  assumes "list_all listable es" and "fs (peer_list_file cfg) = Some (concat (map entry_line es))"
  shows "bt_parse_peer_list (\<lambda>h. Some (addr h)) fs cfg =
    Inr (Running (cfg\<lparr>peers := rev (map (node_of addr) es) @ peers cfg\<rparr>))"
  using assms(2) fgets_entries [OF assms(1), of "[]"] parse_entries [OF assms(1), of addr "[]"]
  by (simp add: bt_parse_peer_list_def)

theorem peer_list_read_back_witness:
  "bt_parse_peer_list (\<lambda>h. Some 7) [ascii ''nodes.map'' \<mapsto> concat (map entry_line example_entries)] bt_init =
    Inr (Running (bt_init\<lparr>peers := rev (map (node_of (\<lambda>_. 7)) example_entries)\<rparr>))"
  using peer_list_read_back [OF example_entries_listable,
    of "[ascii ''nodes.map'' \<mapsto> concat (map entry_line example_entries)]" bt_init "\<lambda>_. 7"]
  by (simp add: bt_init_def)

text \<open>
  C39. A blank line at the end of a peer list repeats the last peer, because \<open>sscanf\<close> returns \<open>EOF\<close> there,
  which the assertion lets pass, and the local variables keep their values; a blank line at the front is
  a read of uninitialised variables.
\<close>

theorem blank_line_in_peer_list:
  assumes "list_all listable es" and "fs (peer_list_file cfg) = Some (concat (map entry_line es) @ [0x0a])"
  shows "bt_parse_peer_list (\<lambda>h. Some (addr h)) fs cfg =
    (if es = [] then Inl Uninitialised_Read
     else Inr (Running (cfg\<lparr>peers := node_of addr (last es) # rev (map (node_of addr) es) @ peers cfg\<rparr>)))"
proof -
  have blank: "fgets_lines 255 [0x0a] = [[0x0a]]" using fgets_lines_line [of "[]" 255 "[]"] by simp
  have scan: "scan_peer_line [0x0a] v = (-1, v)" for v by (simp add: scan_peer_line_def c_string_def)
  show ?thesis
  proof (cases "es = []")
    case True
    with assms(2) blank scan show ?thesis by (simp add: bt_parse_peer_list_def add_node_def)
  next
    case False
    then have "listable (last es)" using assms(1) by (simp add: list_all_iff)
    moreover obtain i host p where e: "last es = (i, host, p)" by (cases "last es")
    ultimately have "to_short (int i) = int i" by (intro to_short_small) (auto simp: listable_def)
    with assms(2) False e scan fgets_entries [OF assms(1), of "[0x0a]"] parse_entries [OF assms(1), of addr "[[0x0a]]"]
    show ?thesis by (simp add: bt_parse_peer_list_def blank add_node_def node_of_def)
  qed
qed

theorem blank_line_in_peer_list_witness:
  "bt_parse_peer_list (\<lambda>h. Some 7) [ascii ''nodes.map'' \<mapsto> concat (map entry_line example_entries) @ [0x0a]] bt_init =
    Inr (Running (bt_init\<lparr>peers := node_of (\<lambda>_. 7) (last example_entries) # rev (map (node_of (\<lambda>_. 7)) example_entries)\<rparr>))"
  using blank_line_in_peer_list [OF example_entries_listable,
    of "[ascii ''nodes.map'' \<mapsto> concat (map entry_line example_entries) @ [0x0a]]" bt_init "\<lambda>_. 7"]
  by (simp add: bt_init_def example_entries_def)

text \<open>
  A file name of 255 bytes or more behind \<open>-p\<close>, \<open>-c\<close> or \<open>-f\<close> is copied past the end of its field.
\<close>

theorem long_option_overflows:
  assumes "c \<in> set (ascii ''pcf'')" and "255 \<le> length name"
  shows "bt_parse_command_line gethostbyname fs ([0x2d, c] # name # more_words) (cfg, debug) = Inl Buffer_Overflow"
proof -
  have c: "c = 0x70 \<or> c = 0x63 \<or> c = 0x66" using assms(1) by (simp add: ascii_def)
  then have "getopt ([0x2d, c] # name # more_words) = (c, name) # getopt more_words"
    by (intro getopt_option) (auto simp: option_takes_argument_def ascii_def)
  with c assms(2) show ?thesis by (auto simp: bt_parse_command_line_def parse_option_def strcpy_name_def)
qed

theorem long_option_overflows_witness:
  "bt_parse_command_line (\<lambda>_. None) (\<lambda>_. None) [[0x2d, 0x63], replicate 255 0x61] (bt_init, 0) = Inl Buffer_Overflow"
  using long_option_overflows [of "0x63" "replicate 255 0x61" "\<lambda>_. None" "\<lambda>_. None" "[]" bt_init "0"]
  by (simp add: ascii_def)

end
