(* ===== verification/Spiffy.thy ===== *)
theory Spiffy imports Peer Stdio begin

text \<open>
  \<open>spiffy.c\<close>: the client of the network simulator. When the simulator is on, a datagram goes to its
  router behind a header that names source and destination, and the receiver takes the header off again.
  The socket is a parameter: what \<open>sendto\<close> returns and what \<open>recvfrom\<close> delivers; so is \<open>inet_aton\<close>.
\<close>

section \<open>The header\<close>

record spiffy_header =
  spiffy_ID :: c_int
  lSrcAddr :: c_int
  lDestAddr :: c_int
  lSrcPort :: c_short
  lDestPort :: c_short

abbreviation (input) SPIFFY_HEADER_SIZE :: nat where "SPIFFY_HEADER_SIZE \<equiv> 16"
abbreviation (input) AF_INET :: int where "AF_INET \<equiv> 2"

definition spiffy_header_bytes :: "spiffy_header \<Rightarrow> byte list" where
  "spiffy_header_bytes h =
     int_bytes (spiffy_ID h) @ int_bytes (lSrcAddr h) @ int_bytes (lDestAddr h) @
     short_bytes (lSrcPort h) @ short_bytes (lDestPort h)"

definition spiffy_header_of :: "byte list \<Rightarrow> spiffy_header" where
  "spiffy_header_of b =
     \<lparr>spiffy_ID = int_of_bytes (b ! 0) (b ! 1) (b ! 2) (b ! 3),
      lSrcAddr = int_of_bytes (b ! 4) (b ! 5) (b ! 6) (b ! 7),
      lDestAddr = int_of_bytes (b ! 8) (b ! 9) (b ! 10) (b ! 11),
      lSrcPort = short_of (b ! 12) (b ! 13), lDestPort = short_of (b ! 14) (b ! 15)\<rparr>"

section \<open>The client\<close>

record spiffy_state =
  glSrcAddr :: c_long
  gsSrcPort :: c_short
  giSpiffyEnabled :: bool
  glNodeID :: c_long
  gsSpiffyRouter :: sockaddr_in

definition spiffy_off :: spiffy_state where
  "spiffy_off =
     \<lparr>glSrcAddr = 0, gsSrcPort = 0, giSpiffyEnabled = False, glNodeID = 0,
      gsSpiffyRouter = \<lparr>sin_port = 0, sin_addr = 0\<rparr>\<rparr>"

text \<open>The datagram handed to the socket, if any, and the value returned.\<close>

definition spiffy_sendto ::
  "(sockaddr_in \<Rightarrow> byte list \<Rightarrow> int) \<Rightarrow> spiffy_state \<Rightarrow> byte list \<Rightarrow> int \<Rightarrow> sockaddr_in \<Rightarrow> (sockaddr_in \<times> byte list) option \<times> int" where
  "spiffy_sendto sendto st msg sa_family to =
     (if \<not> giSpiffyEnabled st then (Some (to, msg), sendto to msg)
      else if sa_family \<noteq> AF_INET then (None, -1)
      else
        let s_head = \<lparr>spiffy_ID = htonl (ucast (glNodeID st)), lSrcAddr = ucast (glSrcAddr st),
                      lDestAddr = sin_addr to, lSrcPort = gsSrcPort st, lDestPort = sin_port to\<rparr>;
            newbuf = spiffy_header_bytes s_head @ msg;
            retVal = sendto (gsSpiffyRouter st) newbuf
        in (Some (gsSpiffyRouter st, newbuf), if retVal > 0 then retVal - int SPIFFY_HEADER_SIZE else retVal))"

text \<open>
  \<open>incoming\<close> is the next datagram and the sender the socket sees, or nothing if \<open>recvfrom\<close> fails;
  \<open>mem\<close> what \<open>malloc\<close> left in the new buffer. The value returned, the caller's buffer and the address.
\<close>

definition spiffy_recvfrom ::
  "spiffy_state \<Rightarrow> (nat \<Rightarrow> byte) \<Rightarrow> (byte list \<times> sockaddr_in) option \<Rightarrow> byte list \<Rightarrow> nat \<Rightarrow> sockaddr_in \<Rightarrow>
    int \<times> byte list \<times> sockaddr_in" where
  "spiffy_recvfrom st mem incoming buffer sz addr =
     (case incoming of
        None \<Rightarrow> (-1, buffer, addr)
      | Some (bytes, sender) \<Rightarrow>
          if \<not> giSpiffyEnabled st
          then (int (min (length bytes) sz), overwrite buffer 0 (take sz bytes), sender)
          else
            let got = take (sz + SPIFFY_HEADER_SIZE) bytes;
                newbuf = overwrite (map mem [0..<sz + SPIFFY_HEADER_SIZE]) 0 got;
                retVal = int (length got)
            in if retVal > 0
               then let s_head = spiffy_header_of newbuf
                    in (retVal - int SPIFFY_HEADER_SIZE,
                        overwrite buffer 0 (take sz (drop SPIFFY_HEADER_SIZE newbuf)),
                        \<lparr>sin_port = lSrcPort s_head, sin_addr = lSrcAddr s_head\<rparr>)
               else (retVal, buffer, addr))"

text \<open>\<open>env\<close> is the value of \<open>SPIFFY_ROUTER\<close>.\<close>

definition spiffy_init ::
  "(byte list \<Rightarrow> c_int option) \<Rightarrow> byte list option \<Rightarrow> c_long \<Rightarrow> sockaddr_in \<Rightarrow> spiffy_state \<Rightarrow> int \<times> spiffy_state" where
  "spiffy_init inet_aton env lNodeID addr st =
     (case env of
        None \<Rightarrow> (1, st)
      | Some name \<Rightarrow>
          let host = takeWhile (\<lambda>c. c \<noteq> 0x3a) name; rest = dropWhile (\<lambda>c. c \<noteq> 0x3a) name
          in if rest = [] then (-1, st)
             else
               let port = htons (word_of_int (atoi (tl rest)));
                   st = st\<lparr>gsSpiffyRouter := (gsSpiffyRouter st)\<lparr>sin_port := port\<rparr>\<rparr>
               in case inet_aton host of
                    None \<Rightarrow> (-1, st)
                  | Some a \<Rightarrow>
                      (0, st\<lparr>gsSpiffyRouter := (gsSpiffyRouter st)\<lparr>sin_addr := a\<rparr>, giSpiffyEnabled := True,
                             glNodeID := lNodeID, glSrcAddr := ucast (sin_addr addr), gsSrcPort := sin_port addr\<rparr>))"

section \<open>The wire format of the header\<close>

lemma spiffy_header_of_bytes: "spiffy_header_of (spiffy_header_bytes h @ ys) = h"
  by (simp add: spiffy_header_of_def spiffy_header_bytes_def int_bytes_def short_bytes_def wire_simps nth_append)

lemma length_spiffy_header [simp]: "length (spiffy_header_bytes h) = SPIFFY_HEADER_SIZE"
  by (simp add: spiffy_header_bytes_def)

lemma spiffy_header_bytes_of:
  assumes "SPIFFY_HEADER_SIZE \<le> length bs"
  shows "spiffy_header_bytes (spiffy_header_of bs) = take SPIFFY_HEADER_SIZE bs"
  using assms
  by (simp add: split_16 spiffy_header_of_def spiffy_header_bytes_def short_bytes_def int_bytes_def wire_simps)

interpretation sph: record_codec spiffy_header_bytes spiffy_header_of SPIFFY_HEADER_SIZE
  by unfold_locales (simp_all add: spiffy_header_of_bytes spiffy_header_bytes_of)

section \<open>Both ends together\<close>

lemma ucast_long_int: "ucast (ucast x :: c_long) = (x :: c_int)"
  by (rule bit_word_eqI) (auto simp: bit_simps)

lemma spiffy_init_on:
  assumes "spiffy_init inet_aton env node addr st = (0, A)"
  shows "giSpiffyEnabled A" and "gsSrcPort A = sin_port addr" and "ucast (glSrcAddr A) = sin_addr addr"
    and "ucast (glNodeID A) = (ucast node :: c_int)"
  using assms by (auto simp: spiffy_init_def Let_def ucast_long_int split: option.splits if_splits)

text \<open>What the other end of an enabled client makes of a datagram behind a header.\<close>

lemma spiffy_recvfrom_frame:
  assumes "giSpiffyEnabled B" and "length msg \<le> MAX_PACKET_LENGTH" and "length buffer = MAX_PACKET_LENGTH"
  shows "spiffy_recvfrom B mem (Some (spiffy_header_bytes h @ msg, sender)) buffer MAX_PACKET_LENGTH a =
    (int (length msg), receive_buffer (\<lambda>i. mem (SPIFFY_HEADER_SIZE + i)) msg, \<lparr>sin_port = lSrcPort h, sin_addr = lSrcAddr h\<rparr>)"
proof -
  let ?new = "overwrite (map mem [0..<1516]) 0 (spiffy_header_bytes h @ msg)"
  have got: "take 1516 (spiffy_header_bytes h @ msg) = spiffy_header_bytes h @ msg" using assms(2) by simp
  have new: "?new = spiffy_header_bytes h @ msg @ map mem [16 + length msg..<1516]"
    by (simp add: overwrite_def drop_map)
  have shift: "map mem [16 + length msg..<1516] = map (\<lambda>i. mem (16 + i)) [length msg..<1500]"
    using assms(2) by (intro nth_equalityI) (auto simp: add.assoc)
  have body: "take 1500 (drop 16 ?new) = receive_buffer (\<lambda>i. mem (16 + i)) msg"
    unfolding new using assms(2) shift by (simp add: receive_buffer_def overwrite_def drop_map)
  have "length (receive_buffer (\<lambda>i. mem (16 + i)) msg) = 1500" using assms(2) by (simp add: receive_buffer_def)
  moreover have "spiffy_header_of ?new = h" unfolding new by (rule spiffy_header_of_bytes)
  moreover have "spiffy_header_bytes h \<noteq> []" by (metis length_spiffy_header list.size(3) zero_neq_numeral)
  ultimately show ?thesis
    using assms(1,3) got body by (simp add: spiffy_recvfrom_def Let_def)
qed

section \<open>Properties\<close>

text \<open>
  C30. Through the simulator. If two peers have switched it on, and its router hands on what the one
  sends to the other, then the other reads into its buffer exactly what a datagram sent without the
  simulator would leave there, from the address the sender was started with, whoever delivered it.
\<close>

theorem spiffy_roundtrip:
  assumes "spiffy_init inet_aton env node addr st = (0, A)" and "spiffy_init inet_aton env' node' addr' st' = (0, B)"
    and "length msg \<le> MAX_PACKET_LENGTH" and "length buffer = MAX_PACKET_LENGTH"
    and "spiffy_sendto sendto A msg AF_INET addr' = (Some (router, packet), r)"
  shows "spiffy_recvfrom B mem (Some (packet, sender)) buffer MAX_PACKET_LENGTH a =
    (int (length msg), receive_buffer (\<lambda>i. mem (SPIFFY_HEADER_SIZE + i)) msg, addr)"
proof -
  note A = spiffy_init_on [OF assms(1)]
  have "packet = spiffy_header_bytes \<lparr>spiffy_ID = htonl (ucast (glNodeID A)), lSrcAddr = sin_addr addr,
      lDestAddr = sin_addr addr', lSrcPort = sin_port addr, lDestPort = sin_port addr'\<rparr> @ msg"
    using assms(5) A by (simp add: spiffy_sendto_def Let_def)
  with spiffy_recvfrom_frame [OF spiffy_init_on(1) [OF assms(2)] assms(3,4)] show ?thesis by simp
qed

theorem spiffy_roundtrip_witness:
  "\<exists>A B packet r. spiffy_init (\<lambda>_. Some 1) (Some [0x61, 0x3a, 0x39]) 1 \<lparr>sin_port = 5, sin_addr = 6\<rparr> spiffy_off = (0, A) \<and>
    spiffy_init (\<lambda>_. Some 1) (Some [0x61, 0x3a, 0x39]) 2 \<lparr>sin_port = 7, sin_addr = 8\<rparr> spiffy_off = (0, B) \<and>
    spiffy_sendto (\<lambda>_ m. int (length m)) A [1, 2, 3] AF_INET \<lparr>sin_port = 7, sin_addr = 8\<rparr> =
      (Some (gsSpiffyRouter A, packet), r) \<and>
    spiffy_recvfrom B (\<lambda>_. 0) (Some (packet, gsSpiffyRouter A)) (replicate 1500 9) 1500 \<lparr>sin_port = 0, sin_addr = 0\<rparr> =
      (3, receive_buffer (\<lambda>_. 0) [1, 2, 3], \<lparr>sin_port = 5, sin_addr = 6\<rparr>)"
proof -
  obtain A B where A: "spiffy_init (\<lambda>_. Some 1) (Some [0x61, 0x3a, 0x39]) 1 \<lparr>sin_port = 5, sin_addr = 6\<rparr> spiffy_off = (0, A)"
    and B: "spiffy_init (\<lambda>_. Some 1) (Some [0x61, 0x3a, 0x39]) 2 \<lparr>sin_port = 7, sin_addr = 8\<rparr> spiffy_off = (0, B)"
    by (simp add: spiffy_init_def Let_def)
  have "\<exists>packet r. spiffy_sendto (\<lambda>_ m. int (length m)) A [1, 2, 3] AF_INET \<lparr>sin_port = 7, sin_addr = 8\<rparr> =
      (Some (gsSpiffyRouter A, packet), r)"
    using spiffy_init_on(1) [OF A] by (simp add: spiffy_sendto_def Let_def)
  then obtain packet r where send: "spiffy_sendto (\<lambda>_ m. int (length m)) A [1, 2, 3] AF_INET \<lparr>sin_port = 7, sin_addr = 8\<rparr> =
      (Some (gsSpiffyRouter A, packet), r)" by blast
  from spiffy_roundtrip [OF A B _ _ send, of "replicate 1500 9" "\<lambda>_. 0" "gsSpiffyRouter A" "\<lparr>sin_port = 0, sin_addr = 0\<rparr>"] A B send
  show ?thesis by (simp del: replicate_Suc)
qed

end
