(* ===== verification/Sha1_Unroll.thy ===== *)
theory Sha1_Unroll imports Sha1_Spec begin

text \<open>
  The other configurations of \<open>SHA1Guts\<close>: with \<open>SHA1_UNROLL\<close> 1, 2, 4, 5 or 10 each group of twenty rounds
  is a loop over that many rounds. All of them are the compression function of the standard.
\<close>

section \<open>The loops\<close>

text \<open>
  \<open>u\<close> rounds in sequence, and a loop of \<open>i\<close> turns with \<open>u\<close> rounds each; both move on through the rest of
  \<open>buf\<close>.
\<close>

fun round_sequence ::
  "(c_int \<Rightarrow> c_int \<Rightarrow> c_int \<Rightarrow> c_int) \<Rightarrow> c_int \<Rightarrow> nat \<Rightarrow> round_state \<times> c_int list \<Rightarrow> round_state \<times> c_int list" where
  "round_sequence F K 0 p = p"
| "round_sequence F K (Suc u) (s, []) = (s, [])"
| "round_sequence F K (Suc u) (s, w # W) = round_sequence F K u (DO_ROUND F K s w, W)"

fun round_loop ::
  "(c_int \<Rightarrow> c_int \<Rightarrow> c_int \<Rightarrow> c_int) \<Rightarrow> c_int \<Rightarrow> nat \<Rightarrow> nat \<Rightarrow> round_state \<times> c_int list \<Rightarrow> round_state \<times> c_int list" where
  "round_loop F K 0 u p = p"
| "round_loop F K (Suc i) u p = round_loop F K i u (round_sequence F K u p)"

definition SHA1_UNROLL_1 :: "c_int list \<Rightarrow> round_state \<Rightarrow> round_state" where
  "SHA1_UNROLL_1 buf s =
     fst (round_loop F_60_79 K_60_79 20 1 (round_loop F_40_59 K_40_59 20 1
       (round_loop F_20_39 K_20_39 20 1 (round_loop F_0_19 K_0_19 20 1 (s, buf)))))"

definition SHA1_UNROLL_2 :: "c_int list \<Rightarrow> round_state \<Rightarrow> round_state" where
  "SHA1_UNROLL_2 buf s =
     fst (round_loop F_60_79 K_60_79 10 2 (round_loop F_40_59 K_40_59 10 2
       (round_loop F_20_39 K_20_39 10 2 (round_loop F_0_19 K_0_19 10 2 (s, buf)))))"

definition SHA1_UNROLL_4 :: "c_int list \<Rightarrow> round_state \<Rightarrow> round_state" where
  "SHA1_UNROLL_4 buf s =
     fst (round_loop F_60_79 K_60_79 5 4 (round_loop F_40_59 K_40_59 5 4
       (round_loop F_20_39 K_20_39 5 4 (round_loop F_0_19 K_0_19 5 4 (s, buf)))))"

definition SHA1_UNROLL_5 :: "c_int list \<Rightarrow> round_state \<Rightarrow> round_state" where
  "SHA1_UNROLL_5 buf s =
     fst (round_loop F_60_79 K_60_79 4 5 (round_loop F_40_59 K_40_59 4 5
       (round_loop F_20_39 K_20_39 4 5 (round_loop F_0_19 K_0_19 4 5 (s, buf)))))"

definition SHA1_UNROLL_10 :: "c_int list \<Rightarrow> round_state \<Rightarrow> round_state" where
  "SHA1_UNROLL_10 buf s =
     fst (round_loop F_60_79 K_60_79 2 10 (round_loop F_40_59 K_40_59 2 10
       (round_loop F_20_39 K_20_39 2 10 (round_loop F_0_19 K_0_19 2 10 (s, buf)))))"

definition unrollings :: "(c_int list \<Rightarrow> round_state \<Rightarrow> round_state) list" where
  "unrollings = [SHA1_UNROLL_1, SHA1_UNROLL_2, SHA1_UNROLL_4, SHA1_UNROLL_5, SHA1_UNROLL_10, SHA1_UNROLL_20]"

section \<open>They are all the same\<close>

lemma round_sequence_foldl:
  "u \<le> length W \<Longrightarrow> round_sequence F K u (s, W) = (foldl (DO_ROUND F K) s (take u W), drop u W)"
proof (induction u arbitrary: s W)
  case (Suc u)
  then show ?case by (cases W) simp_all
qed simp

lemma round_loop_foldl:
  "i * u \<le> length W \<Longrightarrow> round_loop F K i u (s, W) = (foldl (DO_ROUND F K) s (take (i * u) W), drop (i * u) W)"
proof (induction i arbitrary: s W)
  case (Suc i)
  have "take (u + i * u) W = take u W @ take (i * u) (drop u W)" by (rule take_add)
  with Suc show ?case by (simp add: round_sequence_foldl foldl_append [symmetric] add.commute del: foldl_append)
qed simp

lemma unrolled_loops:
  assumes "length W = 80" and "i * u = 20"
  shows "fst (round_loop F_60_79 K_60_79 i u (round_loop F_40_59 K_40_59 i u
      (round_loop F_20_39 K_20_39 i u (round_loop F_0_19 K_0_19 i u (s, W))))) = SHA1_UNROLL_20 W s"
  using assms by (simp add: round_loop_foldl SHA1_UNROLL_20_def Let_def)

lemma unrollings_same:
  assumes "rounds \<in> set unrollings" and "length W = 80"
  shows "rounds W s = SHA1_UNROLL_20 W s"
proof -
  have loops: "\<forall>(i, u) \<in> {(20, 1), (10, 2), (5, 4), (4, 5), (2, 10)}.
      fst (round_loop F_60_79 K_60_79 i u (round_loop F_40_59 K_40_59 i u
        (round_loop F_20_39 K_20_39 i u (round_loop F_0_19 K_0_19 i u (s, W))))) = SHA1_UNROLL_20 W s"
    using unrolled_loops [OF assms(2), of _ _ s] by auto
  then show ?thesis using assms(1)
    by (auto simp: unrollings_def SHA1_UNROLL_1_def SHA1_UNROLL_2_def SHA1_UNROLL_4_def SHA1_UNROLL_5_def SHA1_UNROLL_10_def)
qed

section \<open>The compression function\<close>

text \<open>
  Every value of \<open>SHA1_UNROLL\<close> that the source admits gives the same function of a block: the FIPS
  180-4 compression.
\<close>

lemma every_unrolling_is_fips:
  assumes "rounds \<in> set unrollings" and "length block = 64"
  shows "SHA1Guts_with rounds sc block = sc\<lparr>hash_words := compress (hash_words sc) block\<rparr>"
proof -
  have "length (SHA1Guts_expand 64 (map BYTESWAP (words_of_bytes block))) = 80"
    using assms(2) by (simp add: map_BYTESWAP expanded_block length_be_words)
  from unrollings_same [OF assms(1) this] have "SHA1Guts_with rounds sc block = SHA1Guts sc block"
    by (simp add: SHA1Guts_def SHA1Guts_with_def SHA1Guts_on_def Let_def)
  then show ?thesis by (simp add: SHA1Guts_compress [OF assms(2)])
qed

end
