(* ===== verification/Sha1_Portable.thy ===== *)
theory Sha1_Portable imports Sha1_Unroll begin

text \<open>
  The other ways to compile \<open>sha.c\<close>: with \<open>WORDS_BIGENDIAN\<close> for a big-endian machine, with
  \<open>RUNTIME_ENDIAN\<close>, which finds out the byte order when a context is initialised, and with
  \<open>SHA1_FAST_COPY\<close>, which hashes whole blocks where they lie. Each of them, with any \<open>SHA1_UNROLL\<close>,
  provides the locale \<open>sha1_parts\<close> on the machines it is meant for. \<open>SHA1_FAST_COPY\<close> reads words at any
  address; alignment is not modelled.
\<close>

section \<open>Machines\<close>

datatype machine_order = Little_Endian | Big_Endian

text \<open>How words lie in memory, and the bytes of a buffer read through a \<open>uint32_t*\<close>.\<close>

fun word_in :: "machine_order \<Rightarrow> c_int \<Rightarrow> byte list" where
  "word_in Little_Endian w = [ucast w, ucast (drop_bit 8 w), ucast (drop_bit 16 w), ucast (drop_bit 24 w)]"
| "word_in Big_Endian w = [ucast (drop_bit 24 w), ucast (drop_bit 16 w), ucast (drop_bit 8 w), ucast w]"

fun long_in :: "machine_order \<Rightarrow> c_long \<Rightarrow> byte list" where
  "long_in Little_Endian w = long_bytes w"
| "long_in Big_Endian w = rev (long_bytes w)"

fun words_in :: "machine_order \<Rightarrow> byte list \<Rightarrow> c_int list" where
  "words_in Little_Endian bs = words_of_bytes bs"
| "words_in Big_Endian (b0 # b1 # b2 # b3 # bs) = int_of_bytes b3 b2 b1 b0 # words_in Big_Endian bs"
| "words_in Big_Endian bs = []"

section \<open>Byte order\<close>

text \<open>\<open>setEndian\<close> looks at the first byte of the word 1.\<close>

definition setEndian :: "machine_order \<Rightarrow> int" where
  "setEndian m = (if hd (word_in m 1) \<noteq> 0 then 1 else 0)"

definition runtime_byteswap :: "int \<Rightarrow> c_int \<Rightarrow> c_int" where
  "runtime_byteswap littleEndian x =
     (if littleEndian = 0 then x
      else (ROTR x 8 AND 0xff00ff00) OR (ROTL x 8 AND 0x00ff00ff))"

definition runtime_byteswap64 :: "int \<Rightarrow> c_long \<Rightarrow> c_long" where
  "runtime_byteswap64 littleEndian x =
     (if littleEndian = 0 then x
      else
        let a = (ucast (drop_bit 32 x) :: c_int);
            b = (ucast x :: c_int)
        in push_bit 32 (ucast ((ROTR b 8 AND 0xff00ff00) OR (ROTL b 8 AND 0x00ff00ff)))
           OR ucast ((ROTR a 8 AND 0xff00ff00) OR (ROTL a 8 AND 0x00ff00ff)))"

text \<open>The three definitions of the macros; \<open>littleEndian\<close> is the field of the context.\<close>

datatype byte_order = WORDS_LITTLEENDIAN | WORDS_BIGENDIAN | RUNTIME_ENDIAN

fun BYTESWAP_for :: "byte_order \<Rightarrow> int \<Rightarrow> c_int \<Rightarrow> c_int" where
  "BYTESWAP_for WORDS_LITTLEENDIAN littleEndian x = BYTESWAP x"
| "BYTESWAP_for WORDS_BIGENDIAN littleEndian x = x"
| "BYTESWAP_for RUNTIME_ENDIAN littleEndian x = runtime_byteswap littleEndian x"

fun BYTESWAP64_for :: "byte_order \<Rightarrow> int \<Rightarrow> c_long \<Rightarrow> c_long" where
  "BYTESWAP64_for WORDS_LITTLEENDIAN littleEndian x = BYTESWAP64 x"
| "BYTESWAP64_for WORDS_BIGENDIAN littleEndian x = x"
| "BYTESWAP64_for RUNTIME_ENDIAN littleEndian x = runtime_byteswap64 littleEndian x"

section \<open>Updates without copying\<close>

text \<open>
  \<open>SHA1Update\<close> with \<open>SHA1_FAST_COPY\<close>: the loop over whole blocks, and the function. Its first part, for a
  context with something in its buffer, is one turn of the other loop.
\<close>

function SHA1Update_blocks ::
  "(sha1_context \<Rightarrow> byte list \<Rightarrow> sha1_context) \<Rightarrow> sha1_context \<Rightarrow> byte list \<Rightarrow> c_int \<Rightarrow>
    sha1_context \<times> byte list \<times> c_int" where
  "SHA1Update_blocks guts sc data len =
     (if len > 63
      then SHA1Update_blocks guts (guts (sc\<lparr>totalLength := totalLength sc + 512\<rparr>) (take 64 data)) (drop 64 data) (len - 64)
      else (sc, data, len))"
  by pat_completeness auto
termination
proof (relation "measure (\<lambda>(guts, sc, data, len). unat len)")
  fix len :: c_int
  assume "len > 63"
  then show "((guts, sc', data', len - 64), guts, sc, data, len) \<in> measure (\<lambda>(guts, sc, data, len). unat len)"
    for guts :: "sha1_context \<Rightarrow> byte list \<Rightarrow> sha1_context" and sc sc' :: sha1_context and data data' :: "byte list"
    by (simp add: word_less_nat_alt unat_sub word_le_nat_alt)
qed simp

declare SHA1Update_blocks.simps [simp del]

definition SHA1Update_fast ::
  "(sha1_context \<Rightarrow> byte list \<Rightarrow> sha1_context) \<Rightarrow> sha1_context \<Rightarrow> byte list \<Rightarrow> c_int \<Rightarrow> sha1_context option" where
  "SHA1Update_fast guts sc data len =
     (let (sc, data, len) =
            (if bufferLength sc \<noteq> 0
             then case SHA1Update_step_with guts sc data len of (sc, n) \<Rightarrow> (sc, drop (unat n) data, len - n)
             else (sc, data, len));
          (sc, data, len) = SHA1Update_blocks guts sc data len
      in Some
           (if len \<noteq> 0
            then sc\<lparr>buffer_bytes := overwrite (buffer_bytes sc) (unat (bufferLength sc)) (take (unat len) data),
                    totalLength := totalLength sc + ucast len * 8,
                    bufferLength := bufferLength sc + len\<rparr>
            else sc))"

text \<open>\<open>burnStack\<close> clears frames of 128 bytes; the result is their number.\<close>

function burnStack :: "int \<Rightarrow> nat" where
  "burnStack size_left = (if size_left - 128 > 0 then Suc (burnStack (size_left - 128)) else 1)"
  by pat_completeness auto
termination
  by (relation "measure nat") auto

declare burnStack.simps [simp del]

lemma burnStack_enough: "size_left \<le> 128 * int (burnStack size_left)"
proof (induction size_left rule: burnStack.induct)
  case (1 size_left)
  then show ?case by (subst burnStack.simps) auto
qed

section \<open>Builds\<close>

record sha_build =
  build_order :: byte_order
  build_rounds :: "c_int list \<Rightarrow> round_state \<Rightarrow> round_state"
  build_fast_copy :: bool

definition SHA1Guts_for :: "sha_build \<Rightarrow> machine_order \<Rightarrow> int \<Rightarrow> sha1_context \<Rightarrow> byte list \<Rightarrow> sha1_context" where
  "SHA1Guts_for b m littleEndian =
     SHA1Guts_on (\<lambda>cbuf. map (BYTESWAP_for (build_order b) littleEndian) (words_in m cbuf)) (build_rounds b)"

definition SHA1Update_for ::
  "sha_build \<Rightarrow> machine_order \<Rightarrow> int \<Rightarrow> sha1_context \<Rightarrow> byte list \<Rightarrow> c_int \<Rightarrow> sha1_context option" where
  "SHA1Update_for b m littleEndian =
     (if build_fast_copy b then SHA1Update_fast (SHA1Guts_for b m littleEndian)
      else SHA1Update_with (SHA1Guts_for b m littleEndian))"

text \<open>With \<open>SHA1_FAST_COPY\<close> a word of the result is stored through a \<open>uint32_t*\<close>.\<close>

definition SHA1Final_for :: "sha_build \<Rightarrow> machine_order \<Rightarrow> int \<Rightarrow> sha1_context \<Rightarrow> byte list option" where
  "SHA1Final_for b m littleEndian =
     SHA1Final_with (SHA1Update_for b m littleEndian)
       (\<lambda>w. long_in m (BYTESWAP64_for (build_order b) littleEndian w))
       (if build_fast_copy b then \<lambda>w. word_in m (BYTESWAP_for (build_order b) littleEndian w) else word_out)"

text \<open>A whole use of a context: \<open>SHA1Init\<close> sets the field \<open>littleEndian\<close>, the other operations read it.\<close>

definition sha_build_hash :: "sha_build \<Rightarrow> machine_order \<Rightarrow> (nat \<Rightarrow> byte) \<Rightarrow> byte list list \<Rightarrow> byte list option" where
  "sha_build_hash b m mem ds =
     (let littleEndian = setEndian m
      in Option.bind
           (feed (\<lambda>sc d. SHA1Update_for b m littleEndian sc d (of_nat (length d))) (SHA1Init (map mem [0..<64])) ds)
           (SHA1Final_for b m littleEndian))"

text \<open>The machines a build is meant for.\<close>

definition suits :: "sha_build \<Rightarrow> machine_order \<Rightarrow> bool" where
  "suits b m \<longleftrightarrow> build_rounds b \<in> set unrollings \<and>
     (build_order b = WORDS_LITTLEENDIAN \<longrightarrow> m = Little_Endian) \<and> (build_order b = WORDS_BIGENDIAN \<longrightarrow> m = Big_Endian)"

section \<open>Every build has the parts\<close>

lemma setEndian_simps: "setEndian Little_Endian = 1" "setEndian Big_Endian = 0"
  by (simp_all add: setEndian_def)

lemma runtime_byteswaps: "e \<noteq> 0 \<Longrightarrow> runtime_byteswap e = BYTESWAP" "e \<noteq> 0 \<Longrightarrow> runtime_byteswap64 e = BYTESWAP64"
  by (auto simp: runtime_byteswap_def runtime_byteswap64_def BYTESWAP_def BYTESWAP64_def fun_eq_iff Let_def)

lemma words_in_big: "words_in Big_Endian bs = be_words bs"
  by (induction bs rule: be_words.induct) simp_all

text \<open>On the machines it suits, a build swaps exactly if the machine is little-endian.\<close>

lemma suited_swap:
  assumes "suits b m"
  shows "BYTESWAP_for (build_order b) (setEndian m) = (case m of Little_Endian \<Rightarrow> BYTESWAP | Big_Endian \<Rightarrow> (\<lambda>x. x))"
    and "BYTESWAP64_for (build_order b) (setEndian m) = (case m of Little_Endian \<Rightarrow> BYTESWAP64 | Big_Endian \<Rightarrow> (\<lambda>x. x))"
  using assms
  by (cases "build_order b"; cases m; simp add: suits_def fun_eq_iff setEndian_simps runtime_byteswaps
      runtime_byteswap_def runtime_byteswap64_def)+

lemma suited_parts:
  assumes "suits b m"
  shows "map (BYTESWAP_for (build_order b) (setEndian m)) (words_in m bs) = be_words bs"
    and "word_in m (BYTESWAP_for (build_order b) (setEndian m) w) = word_out w"
    and "long_in m (BYTESWAP64_for (build_order b) (setEndian m) l) = rev (long_bytes l)"
  unfolding suited_swap [OF assms]
  by (cases m; simp add: map_BYTESWAP words_in_big byte_of_BYTESWAP word_out_def long_bytes_BYTESWAP64)+

lemma suited_guts:
  assumes "suits b m"
  shows "is_compression (SHA1Guts_for b m (setEndian m))"
proof -
  have "SHA1Guts_for b m (setEndian m) = SHA1Guts_with (build_rounds b)"
    by (simp add: SHA1Guts_for_def SHA1Guts_with_def suited_parts(1) [OF assms] map_BYTESWAP)
  then show ?thesis
    using assms by (simp add: is_compression_def suits_def every_unrolling_is_fips)
qed

section \<open>Updates without copying absorb\<close>

lemma fill_block: "(a + (64 - a mod 64)) mod 64 = (0 :: nat)"
proof -
  have "a mod 64 + (64 - a mod 64) = 64" by (rule le_add_diff_inverse) (simp add: less_imp_le)
  moreover have "(a + (64 - a mod 64)) mod 64 = (a mod 64 + (64 - a mod 64)) mod 64" by (rule mod_add_left_eq [symmetric])
  ultimately show ?thesis by simp
qed

lemma one_block_absorbed:
  assumes guts: "is_compression guts" and abs: "absorbed sc m" and m: "length m mod 64 = 0" and d: "length d = 64"
  shows "absorbed (guts (sc\<lparr>totalLength := totalLength sc + 512\<rparr>) d) (m @ d)" and "length (m @ d) mod 64 = 0"
proof -
  have "m @ d = (m @ d) @ []" by simp
  moreover have "length (m @ d) = 64 * Suc (length m div 64)" using m d by auto
  ultimately have "whole_blocks (m @ d) = m @ d" "tail_block (m @ d) = []"
    using whole_rest_unique [of "m @ d" _ "[]"] by (metis length_greater_0_conv list.size(3) zero_less_numeral)+
  moreover have "whole_blocks m = m" using m by (simp add: whole_blocks_def mult_div_mod_eq_length)
  moreover have "absorb fips_H0 (m @ d) = compress (absorb fips_H0 m) d"
    by (rule absorb_one_more [of m "length m div 64"]) (use m d in auto)
  ultimately show "absorbed (guts (sc\<lparr>totalLength := totalLength sc + 512\<rparr>) d) (m @ d)"
    using abs m d by (simp add: absorbed_def is_compressionD [OF guts d])
  show "length (m @ d) mod 64 = 0" using m d by simp
qed

lemma SHA1Update_blocks_absorbed:
  assumes "is_compression guts" and "absorbed sc m" and "length m mod 64 = 0" and "unat len \<le> length data"
    and "SHA1Update_blocks guts sc data len = (sc', data', len')"
  shows "\<exists>d. data = d @ data' \<and> unat len = length d + unat len' \<and> unat len' < 64 \<and>
    absorbed sc' (m @ d) \<and> length (m @ d) mod 64 = 0"
  using assms
proof (induction guts sc data len arbitrary: m rule: SHA1Update_blocks.induct)
  case (1 guts sc data len)
  show ?case
  proof (cases "len > 63")
    case False
    then have "(sc', data', len') = (sc, data, len)" "unat len < 64"
      using "1.prems"(5) by (simp_all add: SHA1Update_blocks.simps [of guts sc data len] word_less_nat_alt)
    with "1.prems" show ?thesis by (intro exI [of _ "[]"]) simp
  next
    case True
    then have big: "64 \<le> unat len" by (simp add: word_less_nat_alt)
    have len: "unat (len - 64) = unat len - 64" using big by (simp add: unat_sub word_le_nat_alt)
    let ?d = "take 64 data"
    have d: "length ?d = 64" using big "1.prems"(4) by simp
    note block = one_block_absorbed [OF "1.prems"(1,2,3) d]
    have eq: "SHA1Update_blocks guts (guts (sc\<lparr>totalLength := totalLength sc + 512\<rparr>) ?d) (drop 64 data) (len - 64) =
        (sc', data', len')"
      using "1.prems"(5) True by (simp add: SHA1Update_blocks.simps [of guts sc data len])
    have le: "unat (len - 64) \<le> length (drop 64 data)" using "1.prems"(4) len by simp
    from "1.IH" [OF True "1.prems"(1) block le eq] obtain d where split: "drop 64 data = d @ data'" and rest: "unat (len - 64) = length d + unat len'" "unat len' < 64"
      "absorbed sc' ((m @ ?d) @ d)" "length ((m @ ?d) @ d) mod 64 = 0"
      by (elim exE conjE)
    have "data = ?d @ drop 64 data" by (rule append_take_drop_id [symmetric])
    then have "data = (?d @ d) @ data'" unfolding split by simp
    moreover have "unat len = length (?d @ d) + unat len'" using rest(1) d big len by simp
    ultimately show ?thesis using rest(2-) by (intro exI [of _ "?d @ d"]) (simp only: append.assoc simp_thms)
  qed
qed

lemma SHA1Update_fast_absorbs:
  assumes guts: "is_compression guts" and abs: "absorbed sc m" and len: "unat len \<le> length data"
  shows "\<exists>sc'. SHA1Update_fast guts sc data len = Some sc' \<and> absorbed sc' (m @ take (unat len) data)"
proof -
  obtain sc1 data1 len1 where first: "(if bufferLength sc \<noteq> 0
       then case SHA1Update_step_with guts sc data len of (sc, n) \<Rightarrow> (sc, drop (unat n) data, len - n)
       else (sc, data, len)) = (sc1, data1, len1)" by (rule prod_cases3)
  have "\<exists>d. data = d @ data1 \<and> unat len = length d + unat len1 \<and> absorbed sc1 (m @ d) \<and>
      (length (m @ d) mod 64 = 0 \<or> len1 = 0)"
  proof (cases "bufferLength sc = 0")
    case True
    with abs have "length m mod 64 = 0" by (simp add: absorbed_def)
    with True first abs show ?thesis by (intro exI [of _ "[]"]) simp
  next
    case False
    obtain n where step: "SHA1Update_step_with guts sc data len = (sc1, n)" "data1 = drop (unat n) data" "len1 = len - n"
      using first False by (auto split: prod.splits)
    from SHA1Update_step_absorbed [OF guts abs len step(1)]
    have n: "unat n = min (unat len) (64 - length m mod 64)" and abs1: "absorbed sc1 (m @ take (unat n) data)" by auto
    then have len1: "unat len1 = unat len - unat n" by (simp add: step(3) unat_sub word_le_nat_alt)
    have "length (m @ take (unat n) data) mod 64 = 0 \<or> len1 = 0"
    proof (cases "unat len \<le> 64 - length m mod 64")
      case True
      with n len1 have "unat len1 = 0" by simp
      then show ?thesis by (simp add: unat_eq_zero)
    next
      case False
      with n have "unat n = 64 - length m mod 64" by (simp only: min_absorb2 linear if_False nle_le)
      with n len have "length (m @ take (unat n) data) = length m + (64 - length m mod 64)"
        by (simp only: length_append length_take min_absorb2 if_False)
      then show ?thesis by (simp only: fill_block simp_thms)
    qed
    moreover have "unat n \<le> unat len" using n by simp
    moreover from this len have "length (take (unat n) data) = unat n" by (simp only: length_take min_absorb2 le_trans)
    ultimately show ?thesis using abs1 step(2) len1
      by (intro exI [of _ "take (unat n) data"]) (simp only: append_take_drop_id le_add_diff_inverse simp_thms)
  qed
  then obtain d1 where d1: "data = d1 @ data1" "unat len = length d1 + unat len1" "absorbed sc1 (m @ d1)"
    "length (m @ d1) mod 64 = 0 \<or> len1 = 0" by (elim exE conjE)
  obtain sc2 data2 len2 where blocks: "SHA1Update_blocks guts sc1 data1 len1 = (sc2, data2, len2)" by (rule prod_cases3)
  have "\<exists>d. data1 = d @ data2 \<and> unat len1 = length d + unat len2 \<and> unat len2 < 64 \<and>
      absorbed sc2 (m @ d1 @ d) \<and> (length (m @ d1 @ d) mod 64 = 0 \<or> len2 = 0)"
  proof (cases "len1 = 0")
    case True
    with blocks d1(3) show ?thesis by (intro exI [of _ "[]"]) (simp add: SHA1Update_blocks.simps)
  next
    case False
    with SHA1Update_blocks_absorbed [OF guts d1(3) _ _ blocks] d1 len show ?thesis by auto
  qed
  then obtain d2 where d2: "data1 = d2 @ data2" "unat len1 = length d2 + unat len2" "unat len2 < 64"
    "absorbed sc2 (m @ d1 @ d2)" "length (m @ d1 @ d2) mod 64 = 0 \<or> len2 = 0" by (elim exE conjE)
  have whole: "m @ take (unat len) data = (m @ d1 @ d2) @ take (unat len2) data2"
    using d1(1,2) d2(1,2) by simp
  have call: "SHA1Update_fast guts sc data len = Some
      (if len2 \<noteq> 0
       then sc2\<lparr>buffer_bytes := overwrite (buffer_bytes sc2) (unat (bufferLength sc2)) (take (unat len2) data2),
               totalLength := totalLength sc2 + ucast len2 * 8, bufferLength := bufferLength sc2 + len2\<rparr>
       else sc2)"
    unfolding SHA1Update_fast_def first Let_def prod.case blocks ..
  show ?thesis
  proof (cases "len2 = 0")
    case True
    with call d2(4) whole show ?thesis by simp
  next
    case False
    let ?m = "m @ d1 @ d2" and ?d = "take (unat len2) data2"
    have r: "length ?m mod 64 = 0" using False d2(5) by simp
    then have zero: "bufferLength sc2 = 0" using d2(4) by (simp add: absorbed_def unat_eq_zero)
    have d: "length ?d = unat len2" using d1(1,2) d2(1,2) len by simp
    have fill: "length ?m mod 64 + length ?d < 64" using r d d2(3) by simp
    note ext = absorbed_extend [OF d2(4) less_imp_le [OF fill]]
    have "totalLength sc2 + ucast len2 * 8 = of_nat (8 * length (?m @ ?d))"
      using d2(4) d by (simp add: absorbed_def algebra_simps)
    with ext(1) ext(2) [OF fill] r zero d d2(4) have "absorbed (sc2\<lparr>buffer_bytes := overwrite (buffer_bytes sc2) 0 ?d,
        totalLength := totalLength sc2 + ucast len2 * 8, bufferLength := len2\<rparr>) (?m @ ?d)"
      by (simp add: absorbed_def)
    with False call zero whole show ?thesis by simp
  qed
qed

section \<open>The interpretation\<close>

lemma suited_update:
  assumes "suits b m" and "absorbed sc msg" and "unat len \<le> length data"
  shows "\<exists>sc'. SHA1Update_for b m (setEndian m) sc data len = Some sc' \<and> absorbed sc' (msg @ take (unat len) data)"
  using SHA1Update_fast_absorbs [OF suited_guts [OF assms(1)] assms(2,3)]
    SHA1Update_with_absorbs [OF suited_guts [OF assms(1)] assms(2,3)]
  by (simp add: SHA1Update_for_def)

lemma suited_sha1_parts:
  assumes "suits b m"
  shows "sha1_parts (SHA1Update_for b m (setEndian m))
    (\<lambda>w. long_in m (BYTESWAP64_for (build_order b) (setEndian m) w))
    (if build_fast_copy b then \<lambda>w. word_in m (BYTESWAP_for (build_order b) (setEndian m) w) else word_out)"
  by (unfold_locales) (simp_all add: suited_update [OF assms] suited_parts [OF assms])

section \<open>Properties\<close>

text \<open>
  C14. Every way to compile \<open>sha.c\<close> computes SHA-1 on every machine it is meant for: for any value of
  \<open>SHA1_UNROLL\<close>, with or without \<open>SHA1_FAST_COPY\<close>, on a little-endian or a big-endian machine, the byte
  order fixed at compile time or found when the context is initialised, a message fed in any number of
  pieces yields its digest.
\<close>

theorem every_build_is_sha1:
  assumes "suits b m" and "list_all (\<lambda>d. length d < 2 ^ 32) ds"
  shows "sha_build_hash b m mem ds = Some (sha1 (concat ds))"
  using sha1_parts.parts_digest [OF suited_sha1_parts [OF assms(1)], of ds mem] assms(2)
  by (simp add: sha_build_hash_def SHA1Final_for_def fits_uint32_def list_all_iff)

theorem every_build_is_sha1_witness:
  "sha_build_hash \<lparr>build_order = RUNTIME_ENDIAN, build_rounds = SHA1_UNROLL_4, build_fast_copy = True\<rparr> Big_Endian
     (\<lambda>_. 7) [[0x61], [0x62, 0x63]] = Some (sha1 [0x61, 0x62, 0x63])"
  using every_build_is_sha1 [of "\<lparr>build_order = RUNTIME_ENDIAN, build_rounds = SHA1_UNROLL_4, build_fast_copy = True\<rparr>"
      Big_Endian "[[0x61], [0x62, 0x63]]" "\<lambda>_. 7"]
  by (simp add: suits_def unrollings_def)

end
