(* ===== verification/Sha1_Test.thy ===== *)
theory Sha1_Test imports Chunk begin

text \<open>
  The test program at the end of \<open>sha.c\<close> (\<open>SHA1_TEST\<close>): it hashes the three sample messages of the NIST
  and prints the digests in groups of four bytes. The first two digests are computed here by the
  simplifier, block by block; they are the ones the comment at the head of \<open>sha.c\<close> announces.
\<close>

section \<open>The program\<close>

text \<open>One digest as it is printed: a space behind every fourth byte, the last one too.\<close>

definition sha1_test_line :: "byte list \<Rightarrow> byte list" where
  "sha1_test_line hash =
     concat (map (\<lambda>i. sprintf_2x (hash ! i) @ (if (i + 1) mod 4 = 0 then [0x20] else [])) [0..<SHA1_HASH_SIZE])"

text \<open>
  \<open>mem i\<close> is what the buffer of the context \<open>foo\<close> holds when it is initialised for the \<open>i\<close>-th time.
\<close>

definition sha1_test_main :: "(nat \<Rightarrow> nat \<Rightarrow> byte) \<Rightarrow> byte list list option" where
  "sha1_test_main mem =
     Option.bind (SHA1Update (SHA1Init (map (mem 0) [0..<64])) (ascii ''abc'') 3) (\<lambda>foo.
     Option.bind (SHA1Final foo) (\<lambda>hash0.
     Option.bind (SHA1Update (SHA1Init (map (mem 1) [0..<64]))
       (ascii ''abcdbcdecdefdefgefghfghighijhijkijkljklmklmnlmnomnopnopq'') 56) (\<lambda>foo.
     Option.bind (SHA1Final foo) (\<lambda>hash1.
     Option.bind (feed (\<lambda>foo buf. SHA1Update foo buf 1000) (SHA1Init (map (mem 2) [0..<64]))
       (replicate 1000 (replicate 1000 (of_char (CHR ''a''))))) (\<lambda>foo.
     Option.bind (SHA1Final foo) (\<lambda>hash2.
     Some [sha1_test_line hash0, sha1_test_line hash1, sha1_test_line hash2]))))))"

section \<open>Evaluation of the compression function\<close>

text \<open>The message schedule with its latest word first, so that the words it reads stay near.\<close>

fun expand_latest :: "nat \<Rightarrow> c_int list \<Rightarrow> c_int list" where
  "expand_latest 0 V = rev V"
| "expand_latest (Suc n) V = (let w = ROTL (V ! 2 XOR V ! 7 XOR V ! 13 XOR V ! 15) 1 in expand_latest n (w # V))"

lemmas latest_numeral = expand_latest.simps(2) [of "pred_numeral k" for k, folded numeral_eq_Suc]

lemma expand_latest: "16 \<le> length W \<Longrightarrow> SHA1Guts_expand n W = expand_latest n (rev W)"
proof (induction n arbitrary: W)
  case (Suc n)
  have "rev W ! k = W ! (length W - Suc k)" if "k < 16" for k
    using that Suc.prems by (intro rev_nth) simp
  from this [of 2] this [of 7] this [of 13] this [of 15] show ?case using Suc by (simp add: Let_def)
qed simp

lemma unroll_groups:
  "SHA1_UNROLL_20 W s =
    foldl (DO_ROUND F_60_79 K_60_79)
      (foldl (DO_ROUND F_40_59 K_40_59)
        (foldl (DO_ROUND F_20_39 K_20_39)
          (foldl (DO_ROUND F_0_19 K_0_19) s (take 20 W))
          (take 20 (drop 20 W)))
        (take 20 (drop 40 W)))
      (take 20 (drop 60 W))"
  by (simp add: SHA1_UNROLL_20_def Let_def)

lemma compress_rounds:
  assumes "length block = 64"
  shows "compress H block =
    (case SHA1_UNROLL_20 (SHA1Guts_expand 64 (be_words block)) (H ! 0, H ! 1, H ! 2, H ! 3, H ! 4) of
      (a, b, c, d, e) \<Rightarrow> [H ! 0 + a, H ! 1 + b, H ! 2 + c, H ! 3 + d, H ! 4 + e])"
  using SHA1Guts_compress [OF assms, of "\<lparr>totalLength = 0, hash_words = H, bufferLength = 0, buffer_bytes = []\<rparr>"]
  by (simp add: SHA1Guts_def SHA1Guts_with_def SHA1Guts_on_def map_BYTESWAP Let_def split: prod.splits)

section \<open>The blocks of the first two messages\<close>

definition abc_words :: "c_int list" where
  "abc_words =
     [0x61626380, 0, 0, 0, 0, 0, 0, 0, 0, 0, 0, 0, 0, 0, 0, 0x00000018, 0xc2c4c700, 0, 0x00000030,
      0x85898e01, 0, 0x00000060, 0x0b131c03, 0x00000030, 0x85898ec1, 0x16263806, 0, 0x00000180, 0x2c4c700c,
      0x000000f0, 0x93afb507, 0x5898e048, 0x8e9a9202, 0x00000600, 0xb131c0f0, 0x16263bc6, 0x4ebed41e,
      0x626380a1, 0x16263806, 0x000018c0, 0xd2e138c4, 0x00000f00, 0x3afb5079, 0x898e04e5, 0xe2ba3c2b,
      0x000060c0, 0x053a37cd, 0x74458547, 0xda9415ed, 0x26380a16, 0x626383a1, 0x4ebf54de, 0x3835b44b,
      0x0000f600, 0x1e84c7a3, 0x98e04d98, 0x651d16a0, 0x62658ca1, 0x458544d6, 0x44584cb7, 0x7ba06619,
      0x6380aea2, 0x0ae55269, 0x627b49a1, 0x7cd45c9d, 0x000f0000, 0xfb50753a, 0xec6765e8, 0xba3c2be2,
      0x0060c000, 0x3a37cd05, 0x458546f4, 0xb8599dd6, 0x380a1a26, 0x01e02203, 0xe7cc3456, 0xe6e60b69,
      0x00f60a00, 0x5795ef4f, 0x822e0879]"

lemma abc_expand: "SHA1Guts_expand 64
     [0x61626380, 0, 0, 0, 0, 0, 0, 0, 0, 0, 0, 0, 0, 0, 0, 0x00000018] = abc_words"
  by (simp add: expand_latest latest_numeral abc_words_def ROTL_def cong: let_weak_cong)

lemma abc_rounds_0_19:
  "foldl (DO_ROUND F_0_19 K_0_19) (0x67452301, 0xefcdab89, 0x98badcfe, 0x10325476, 0xc3d2e1f0)
      (take 20 abc_words) =
    (0xfd9e1d7d, 0xdc64901d, 0x20aa99ca, 0xd3a49608, 0xc82f758b)"
  by (simp add: abc_words_def ROTL_def F_0_19_def K_0_19_def cong: let_weak_cong)

lemma abc_rounds_20_39:
  "foldl (DO_ROUND F_20_39 K_20_39) (0xfd9e1d7d, 0xdc64901d, 0x20aa99ca, 0xd3a49608, 0xc82f758b)
      (take 20 (drop 20 abc_words)) =
    (0x32de1cba, 0x4c986405, 0xf718e5cf, 0x03d447f6, 0xf72eec32)"
  by (simp add: abc_words_def ROTL_def F_20_39_def K_20_39_def cong: let_weak_cong)

lemma abc_rounds_40_59:
  "foldl (DO_ROUND F_40_59 K_40_59) (0x32de1cba, 0x4c986405, 0xf718e5cf, 0x03d447f6, 0xf72eec32)
      (take 20 (drop 40 abc_words)) =
    (0x3f52de5a, 0x09d785fd, 0x3498bfd4, 0xf211824f, 0xd79915ab)"
  by (simp add: abc_words_def ROTL_def F_40_59_def K_40_59_def cong: let_weak_cong)

lemma abc_rounds_60_79:
  "foldl (DO_ROUND F_60_79 K_60_79) (0x3f52de5a, 0x09d785fd, 0x3498bfd4, 0xf211824f, 0xd79915ab)
      (take 20 (drop 60 abc_words)) =
    (0x42541b35, 0x5738d5e1, 0x21834873, 0x681e6df6, 0xd8fdf6ad)"
  by (simp add: abc_words_def ROTL_def F_60_79_def K_60_79_def cong: let_weak_cong)

lemma abc_compress:
  assumes "length block = 64" and "be_words block =
     [0x61626380, 0, 0, 0, 0, 0, 0, 0, 0, 0, 0, 0, 0, 0, 0, 0x00000018]"
  shows "compress [0x67452301, 0xefcdab89, 0x98badcfe, 0x10325476, 0xc3d2e1f0] block =
    [0xa9993e36, 0x4706816a, 0xba3e2571, 0x7850c26c, 0x9cd0d89d]"
  unfolding compress_rounds [OF assms(1)] assms(2) abc_expand unroll_groups
  by (simp add: abc_rounds_0_19 abc_rounds_20_39 abc_rounds_40_59 abc_rounds_60_79)

definition long1_words :: "c_int list" where
  "long1_words =
     [0x61626364, 0x62636465, 0x63646566, 0x64656667, 0x65666768, 0x66676869, 0x6768696a, 0x68696a6b,
      0x696a6b6c, 0x6a6b6c6d, 0x6b6c6d6e, 0x6c6d6e6f, 0x6d6e6f70, 0x6e6f7071, 0x80000000, 0, 0x0a063a3e,
      0xd8dadcdf, 0xdadcdec0, 0xc8d2b4be, 0x6f757b5b, 0x757b5967, 0x8da16d70, 0xdaeefaba, 0xfaf6cab6,
      0xa6fb675a, 0x0c604cc8, 0x604cc02c, 0x49c0e6e2, 0x2ee8cbbc, 0xcfd72ec4, 0x97e9810e, 0x0989cbe8,
      0xf24843fe, 0x5c40d0ba, 0xa8d9cc3b, 0xb2b9666e, 0xba7b71b7, 0x20b28a72, 0xb28af500, 0x8ac87842,
      0x289addf4, 0x56d51f21, 0xd96b7fd2, 0x3868e778, 0xab5e4848, 0x7f0e2118, 0xde87a111, 0xe8be56b0,
      0x1a0ae652, 0xcd5611c8, 0x46ef29dc, 0x60d3da6d, 0xddf3ba6e, 0x2737f5e9, 0x4888a710, 0xd2a1177b,
      0x9999633b, 0xd6c69d03, 0xccf6127b, 0x7c58fe6d, 0xfdd99c68, 0xf8e32074, 0xe0ba3c7d, 0x152198d6,
      0x7b3f1982, 0x37f2d5b7, 0x8596323e, 0x810790d6, 0xbea0a942, 0x11c7e1b1, 0x6158d101, 0x5fcd77d9,
      0x7f2f12e6, 0xf868cfb1, 0xd6e997e9, 0xf526b852, 0xb7578dcc, 0x55d99df4, 0x1ff69958]"

lemma long1_expand: "SHA1Guts_expand 64
     [0x61626364, 0x62636465, 0x63646566, 0x64656667, 0x65666768, 0x66676869, 0x6768696a, 0x68696a6b,
      0x696a6b6c, 0x6a6b6c6d, 0x6b6c6d6e, 0x6c6d6e6f, 0x6d6e6f70, 0x6e6f7071, 0x80000000, 0] = long1_words"
  by (simp add: expand_latest latest_numeral long1_words_def ROTL_def cong: let_weak_cong)

lemma long1_rounds_0_19:
  "foldl (DO_ROUND F_0_19 K_0_19) (0x67452301, 0xefcdab89, 0x98badcfe, 0x10325476, 0xc3d2e1f0)
      (take 20 long1_words) =
    (0x6c445652, 0x944b1bd1, 0x509ae70d, 0x1ac1a012, 0x5098df8e)"
  by (simp add: long1_words_def ROTL_def F_0_19_def K_0_19_def cong: let_weak_cong)

lemma long1_rounds_20_39:
  "foldl (DO_ROUND F_20_39 K_20_39) (0x6c445652, 0x944b1bd1, 0x509ae70d, 0x1ac1a012, 0x5098df8e)
      (take 20 (drop 20 long1_words)) =
    (0xadeb7478, 0x24957f22, 0x50fe1eba, 0x564cff26, 0xaadf0cbb)"
  by (simp add: long1_words_def ROTL_def F_20_39_def K_20_39_def cong: let_weak_cong)

lemma long1_rounds_40_59:
  "foldl (DO_ROUND F_40_59 K_40_59) (0xadeb7478, 0x24957f22, 0x50fe1eba, 0x564cff26, 0xaadf0cbb)
      (take 20 (drop 40 long1_words)) =
    (0x9ef775c3, 0xf03d3782, 0xeb029e53, 0xe9a06dc8, 0x1ddb0e44)"
  by (simp add: long1_words_def ROTL_def F_40_59_def K_40_59_def cong: let_weak_cong)

lemma long1_rounds_60_79:
  "foldl (DO_ROUND F_60_79 K_60_79) (0x9ef775c3, 0xf03d3782, 0xeb029e53, 0xe9a06dc8, 0x1ddb0e44)
      (take 20 (drop 60 long1_words)) =
    (0x8ce34517, 0xd3ad7c25, 0x6b4e1883, 0x74351cd2, 0x86838382)"
  by (simp add: long1_words_def ROTL_def F_60_79_def K_60_79_def cong: let_weak_cong)

lemma long1_compress:
  assumes "length block = 64" and "be_words block =
     [0x61626364, 0x62636465, 0x63646566, 0x64656667, 0x65666768, 0x66676869, 0x6768696a, 0x68696a6b,
      0x696a6b6c, 0x6a6b6c6d, 0x6b6c6d6e, 0x6c6d6e6f, 0x6d6e6f70, 0x6e6f7071, 0x80000000, 0]"
  shows "compress [0x67452301, 0xefcdab89, 0x98badcfe, 0x10325476, 0xc3d2e1f0] block =
    [0xf4286818, 0xc37b27ae, 0x0408f581, 0x84677148, 0x4a566572]"
  unfolding compress_rounds [OF assms(1)] assms(2) long1_expand unroll_groups
  by (simp add: long1_rounds_0_19 long1_rounds_20_39 long1_rounds_40_59 long1_rounds_60_79)

definition long2_words :: "c_int list" where
  "long2_words =
     [0, 0, 0, 0, 0, 0, 0, 0, 0, 0, 0, 0, 0, 0, 0, 0x000001c0, 0, 0, 0x00000380, 0, 0, 0x00000700, 0,
      0x00000380, 0x00000e00, 0, 0, 0x00001c00, 0, 0x00000d80, 0x00003800, 0x00000480, 0, 0x00007000,
      0x00000e00, 0x00003600, 0x0000e000, 0x00000e00, 0, 0x0001ce00, 0, 0x0000d800, 0x00038000, 0x00004f00,
      0, 0x00070e00, 0x0000ee00, 0x00037500, 0x000e0000, 0x0000e000, 0x00003600, 0x001cee00, 0, 0x000df000,
      0x00380000, 0x0004c600, 0x0000e000, 0x0070ee00, 0x000ee000, 0x00369e00, 0x00e00000, 0x000ed600,
      0x0000e000, 0x01cea600, 0, 0x00d80000, 0x0380e000, 0x004f0000, 0, 0x070e0000, 0x00ee0000, 0x03751c00,
      0x0e000000, 0x00e0e000, 0x00363800, 0x1cee9000, 0, 0x0df09000, 0x3800e000, 0x04c77400]"

lemma long2_expand: "SHA1Guts_expand 64
     [0, 0, 0, 0, 0, 0, 0, 0, 0, 0, 0, 0, 0, 0, 0, 0x000001c0] = long2_words"
  by (simp add: expand_latest latest_numeral long2_words_def ROTL_def cong: let_weak_cong)

lemma long2_rounds_0_19:
  "foldl (DO_ROUND F_0_19 K_0_19) (0xf4286818, 0xc37b27ae, 0x0408f581, 0x84677148, 0x4a566572)
      (take 20 long2_words) =
    (0xd8992153, 0xc2eb709f, 0x2946d62f, 0x9541f6db, 0x365dc8d8)"
  by (simp add: long2_words_def ROTL_def F_0_19_def K_0_19_def cong: let_weak_cong)

lemma long2_rounds_20_39:
  "foldl (DO_ROUND F_20_39 K_20_39) (0xd8992153, 0xc2eb709f, 0x2946d62f, 0x9541f6db, 0x365dc8d8)
      (take 20 (drop 20 long2_words)) =
    (0x03bb6310, 0x84e2a5f2, 0x21f56e03, 0xb3bd6b84, 0x1a5b6901)"
  by (simp add: long2_words_def ROTL_def F_20_39_def K_20_39_def cong: let_weak_cong)

lemma long2_rounds_40_59:
  "foldl (DO_ROUND F_40_59 K_40_59) (0x03bb6310, 0x84e2a5f2, 0x21f56e03, 0xb3bd6b84, 0x1a5b6901)
      (take 20 (drop 40 long2_words)) =
    (0xa65818f7, 0x5b086c42, 0xb9e15956, 0xea1256a6, 0xdb69cb9f)"
  by (simp add: long2_words_def ROTL_def F_40_59_def K_40_59_def cong: let_weak_cong)

lemma long2_rounds_60_79:
  "foldl (DO_ROUND F_60_79 K_60_79) (0xa65818f7, 0x5b086c42, 0xb9e15956, 0xea1256a6, 0xdb69cb9f)
      (take 20 (drop 60 long2_words)) =
    (0x906fd62c, 0x58c0aac0, 0xb6a55520, 0x74e9b89d, 0x9af00b7f)"
  by (simp add: long2_words_def ROTL_def F_60_79_def K_60_79_def cong: let_weak_cong)

lemma long2_compress:
  assumes "length block = 64" and "be_words block =
     [0, 0, 0, 0, 0, 0, 0, 0, 0, 0, 0, 0, 0, 0, 0, 0x000001c0]"
  shows "compress [0xf4286818, 0xc37b27ae, 0x0408f581, 0x84677148, 0x4a566572] block =
    [0x84983e44, 0x1c3bd26e, 0xbaae4aa1, 0xf95129e5, 0xe54670f1]"
  unfolding compress_rounds [OF assms(1)] assms(2) long2_expand unroll_groups
  by (simp add: long2_rounds_0_19 long2_rounds_20_39 long2_rounds_40_59 long2_rounds_60_79)

section \<open>The digests\<close>

lemma replicate_numeral: "replicate (numeral k) x = x # replicate (pred_numeral k) x"
  by (simp add: numeral_eq_Suc)

lemma absorb_blocks: "length b = 64 \<Longrightarrow> absorb H b = compress H b"
  using absorb_block [of b H "[]"] by (simp add: absorb_short)

lemma sha1_abc:
  "sha1 (ascii ''abc'') = concat (map word_out [0xa9993e36, 0x4706816a, 0xba3e2571, 0x7850c26c, 0x9cd0d89d])"
proof -
  let ?m = "pad (ascii ''abc'')"
  have m: "?m = [0x61, 0x62, 0x63, 0x80] @ replicate 52 0 @ [0, 0, 0, 0, 0, 0, 0, 24]"
    by (simp add: pad_def ascii_def be_length_def long_bytes_def upt_rec)
  then have "length ?m = 64" by simp
  moreover have "be_words ?m =
     [0x61626380, 0, 0, 0, 0, 0, 0, 0, 0, 0, 0, 0, 0, 0, 0, 0x00000018]"
    unfolding m by (simp add: replicate_numeral int_of_bytes_def)
  ultimately show ?thesis
    unfolding sha1_def fips_H0_def by (simp add: absorb_blocks abc_compress)
qed

lemma sha1_long:
  "sha1 (ascii ''abcdbcdecdefdefgefghfghighijhijkijkljklmklmnlmnomnopnopq'') =
    concat (map word_out [0x84983e44, 0x1c3bd26e, 0xbaae4aa1, 0xf95129e5, 0xe54670f1])"
proof -
  let ?text = "ascii ''abcdbcdecdefdefgefghfghighijhijkijkljklmklmnlmnomnopnopq''"
  let ?b = "?text @ 0x80 # replicate 7 0" and ?c = "replicate 56 0 @ [0, 0, 0, 0, 0, 0, 1, 0xc0]"
  have "length ?text = 56" by (simp add: ascii_def)
  then have m: "pad ?text = ?b @ ?c" and b: "length ?b = 64"
    by (simp_all add: pad_def be_length_def long_bytes_def upt_rec replicate_numeral)
  have "be_words ?b =
     [0x61626364, 0x62636465, 0x63646566, 0x64656667, 0x65666768, 0x66676869, 0x6768696a, 0x68696a6b,
      0x696a6b6c, 0x6a6b6c6d, 0x6b6c6d6e, 0x6c6d6e6f, 0x6d6e6f70, 0x6e6f7071, 0x80000000, 0]"
    by (simp add: ascii_def replicate_numeral int_of_bytes_def)
  moreover have "be_words ?c =
     [0, 0, 0, 0, 0, 0, 0, 0, 0, 0, 0, 0, 0, 0, 0, 0x000001c0]"
    by (simp add: replicate_numeral int_of_bytes_def)
  moreover have "absorb fips_H0 (?b @ ?c) = compress (compress fips_H0 ?b) ?c"
    unfolding absorb_block [OF b] by (rule absorb_blocks) simp
  ultimately show ?thesis
    unfolding sha1_def m by (simp only: fips_H0_def long1_compress [OF b]) (simp add: long2_compress)
qed

text \<open>Printing them, word by word.\<close>

lemma printed_words:
  "sha1_test_line (concat (map word_out [a, b, c, d, e])) =
    concat (map (\<lambda>w. concat (map sprintf_2x (word_out w)) @ [0x20]) [a, b, c, d, e])"
  by (simp add: sha1_test_line_def SHA1_HASH_SIZE_def word_out_def upt_rec)

lemma printed_abc: "sha1_test_line (sha1 (ascii ''abc'')) = ascii ''a9993e36 4706816a ba3e2571 7850c26c 9cd0d89d ''"
  unfolding sha1_abc printed_words by (simp add: word_out_def sprintf_2x_def hex_digit_def ascii_def)

lemma printed_long:
  "sha1_test_line (sha1 (ascii ''abcdbcdecdefdefgefghfghighijhijkijkljklmklmnlmnomnopnopq'')) =
    ascii ''84983e44 1c3bd26e baae4aa1 f95129e5 e54670f1 ''"
  unfolding sha1_long printed_words by (simp add: word_out_def sprintf_2x_def hex_digit_def ascii_def)

section \<open>Properties\<close>

lemma final_of_update:
  assumes "length d < 2 ^ 32"
  shows "Option.bind (SHA1Update (SHA1Init (map mem [0..<64])) d (of_nat (length d))) (\<lambda>sc. Option.bind (SHA1Final sc) f) =
    f (sha1 d)"
  using shahash_sha1 [OF assms, of mem] by (simp add: shahash_def flip: bind_assoc)

text \<open>
  C15. The test program of \<open>sha.c\<close> prints the digests of the NIST's sample messages that the head of the
  file announces: those of the first two messages digit by digit, and for the third, a thousand pieces of a
  thousand letters \<open>a\<close>, the digest of a million letters.
\<close>

theorem sha1_test_prints:
  "sha1_test_main mem = Some
     [ascii ''a9993e36 4706816a ba3e2571 7850c26c 9cd0d89d '',
      ascii ''84983e44 1c3bd26e baae4aa1 f95129e5 e54670f1 '',
      sha1_test_line (sha1 (replicate 1000000 0x61))]"
proof -
  let ?abc = "ascii ''abc''" and ?text = "ascii ''abcdbcdecdefdefgefghfghighijhijkijkljklmklmnlmnomnopnopq''"
  let ?as = "replicate 1000 (0x61 :: byte)"
  have n: "length ?abc = 3" "length ?text = 56" by (simp_all add: ascii_def)
  have pieces: "concat (replicate k (replicate n x)) = replicate (k * n) x" for k n and x :: byte
    by (induction k) (simp_all add: replicate_add)
  have "feed (\<lambda>foo buf. SHA1Update foo buf 1000) sc ds = feed update_all sc ds"
    if "\<forall>d \<in> set ds. length d = 1000" for sc ds
    using that by (induction ds arbitrary: sc) (simp_all add: update_all_def)
  then have million: "Option.bind (feed (\<lambda>foo buf. SHA1Update foo buf 1000) (SHA1Init (map (mem 2) [0..<64]))
      (replicate 1000 ?as)) (\<lambda>foo. Option.bind (SHA1Final foo) f) = f (sha1 (replicate 1000000 0x61))" for f
    using sha.digest_of_pieces [of "replicate 1000 ?as" "mem 2"]
    by (simp add: fits_uint32_def pieces flip: bind_assoc)
  have "Option.bind (SHA1Update (SHA1Init (map (mem 0) [0..<64])) ?abc 3) (\<lambda>sc. Option.bind (SHA1Final sc) f) = f (sha1 ?abc)"
    "Option.bind (SHA1Update (SHA1Init (map (mem 1) [0..<64])) ?text 56) (\<lambda>sc. Option.bind (SHA1Final sc) f) = f (sha1 ?text)" for f
    using final_of_update [of ?abc "mem 0" f] final_of_update [of ?text "mem 1" f] n by simp_all
  note first_two = this
  have a: "of_char (CHR ''a'') = (0x61 :: byte)" by simp
  show ?thesis unfolding sha1_test_main_def a first_two million printed_abc printed_long ..
qed

end
