(* ===== verification/Test_Programs.thy ===== *)
theory Test_Programs imports Spiffy Start_Up begin

text \<open>
  The test programs of the repository: the pair \<open>client.c\<close> and \<open>server.c\<close>, which sends a number through
  the network simulator and prints it at the other end, \<open>test_input_buffer.c\<close>, and the \<open>main\<close> functions
  that \<open>chunk.c\<close> and \<open>debug.c\<close> have for their own tests.
\<close>

section \<open>Client and server\<close>

abbreviation (input) BUFLEN :: nat where "BUFLEN \<equiv> 100"

text \<open>The address 127.0.0.1 in network order, read as an \<open>int\<close>.\<close>

definition LOCALHOST :: c_int where
  "LOCALHOST = 0x0100007f"

text \<open>
  \<open>data_packet_t\<close> as \<open>client.c\<close> fills it: the magic number and the zeros of \<open>data\<close>; the rest of the header
  is what the stack frame held.
\<close>

definition client_packet :: "(nat \<Rightarrow> byte) \<Rightarrow> int \<Rightarrow> byte list" where
  "client_packet mem magic = short_bytes (htons (word_of_int magic)) @ map mem [2..<16] @ replicate BUFLEN 0"

text \<open>
  \<open>args\<close> are the words behind the name of the program, \<open>fd\<close> what \<open>socket\<close> returned, \<open>bind_ok\<close> whether
  \<open>bind\<close> succeeded. The result is the value \<open>main\<close> returns and what was sent.
\<close>

definition client_main ::
  "(byte list \<Rightarrow> c_int option) \<Rightarrow> byte list option \<Rightarrow> (sockaddr_in \<Rightarrow> byte list \<Rightarrow> int) \<Rightarrow> int \<Rightarrow> bool \<Rightarrow>
    (nat \<Rightarrow> byte) \<Rightarrow> byte list list \<Rightarrow> (int \<times> (sockaddr_in \<times> byte list) option) process result" where
  "client_main inet_aton env sendto fd bind_ok mem args =
     (if fd = 0 then Inr Aborted
      else if length args < 3 then Inr (Running (1, None))
      else if \<not> bind_ok then Inr Aborted
      else
        let myaddr = \<lparr>sin_port = htons (word_of_int (atoi (args ! 1))), sin_addr = LOCALHOST\<rparr>;
            (r, st) = spiffy_init inet_aton env (word_of_int (atoi (args ! 0))) myaddr spiffy_off;
            toaddr = \<lparr>sin_port = htons (word_of_int (atoi (args ! 2))), sin_addr = LOCALHOST\<rparr>
        in if length args < 4 then Inl Null_Dereference
           else
             let (sent, r) = spiffy_sendto sendto st (client_packet mem (atoi (args ! 3))) AF_INET toaddr
             in Inr (Running (0, sent)))"

text \<open>The start of the server, and one turn of its loop: its buffer and the number it prints.\<close>

definition server_start ::
  "(byte list \<Rightarrow> c_int option) \<Rightarrow> byte list option \<Rightarrow> byte list list \<Rightarrow> spiffy_state process result" where
  "server_start inet_aton env args =
     (if length args < 2 then Inr (Exited 1)
      else
        let myaddr = \<lparr>sin_port = htons (word_of_int (atoi (args ! 1))), sin_addr = LOCALHOST\<rparr>;
            (r, st) = spiffy_init inet_aton env (word_of_int (atoi (args ! 0))) myaddr spiffy_off
        in Inr (Running st))"

definition server_turn ::
  "spiffy_state \<Rightarrow> (nat \<Rightarrow> byte) \<Rightarrow> (byte list \<times> sockaddr_in) option \<Rightarrow> byte list \<times> sockaddr_in \<Rightarrow>
    (byte list \<times> sockaddr_in) \<times> nat" where
  "server_turn st mem incoming = (\<lambda>(buffer, from).
     case spiffy_recvfrom st mem incoming buffer BUFLEN from of
       (r, buffer, from) \<Rightarrow> ((buffer, from), unat (ntohs (short_of (buffer ! 0) (buffer ! 1)))))"

lemma spiffy_init_enabled:
  "giSpiffyEnabled (snd (spiffy_init inet_aton env node addr spiffy_off)) =
    (case env of None \<Rightarrow> False
     | Some name \<Rightarrow> dropWhile (\<lambda>c. c \<noteq> 0x3a) name \<noteq> [] \<and> inet_aton (takeWhile (\<lambda>c. c \<noteq> 0x3a) name) \<noteq> None)"
  by (auto simp: spiffy_init_def Let_def spiffy_off_def split: option.split)

lemma short_of_short_bytes: "short_of ((short_bytes w @ bs) ! 0) ((short_bytes w @ bs) ! 1) = w"
  by (simp add: short_bytes_def wire_simps)

text \<open>
  Client and server together: when the client was given a magic number of 16 bits and the port of
  the server, and both have the same environment, with or without the simulator, the server prints that
  number for the datagram the client sends, if the router hands it on unchanged.
\<close>

theorem magic_number_arrives:
  assumes "client_main inet_aton env sendto fd bind_ok mem [i, p, q, decimal magic] = Inr (Running (0, Some (dest, packet)))"
    and "server_start inet_aton env [j, q] = Inr (Running st)"
    and "magic < 2 ^ 16" and "length buffer = 1500"
  shows "snd (server_turn st mem' (Some (packet, sender)) (buffer, a)) = magic"
proof -
  let ?w = "htons (word_of_int (int magic)) :: c_short" and ?msg = "client_packet mem (int magic)"
  have "atoi (decimal magic) = int magic" using assms(3) by (intro atoi_decimal) simp
  then obtain node addr to A r r' where A: "spiffy_init inet_aton env node addr spiffy_off = (r, A)"
    and sent: "spiffy_sendto sendto A ?msg AF_INET to = (Some (dest, packet), r')"
    using assms(1) by (auto simp: client_main_def Let_def split: if_splits prod.splits)
  obtain node' addr' r2 where B: "spiffy_init inet_aton env node' addr' spiffy_off = (r2, st)"
    using assms(2) by (auto simp: server_start_def Let_def split: if_splits prod.splits)
  have on: "giSpiffyEnabled A = giSpiffyEnabled st"
    using spiffy_init_enabled [of inet_aton env node addr] spiffy_init_enabled [of inet_aton env node' addr'] A B by simp
  obtain bs where bs: "?msg = short_bytes ?w @ bs" "length bs = 114"
    by (simp add: client_packet_def)
  have "\<exists>rest. fst (snd (spiffy_recvfrom st mem' (Some (packet, sender)) buffer 100 a)) = short_bytes ?w @ rest"
  proof (cases "giSpiffyEnabled st")
    case False
    with on sent have "packet = ?msg" by (simp add: spiffy_sendto_def)
    with False bs show ?thesis by (simp add: spiffy_recvfrom_def overwrite_def)
  next
    case True
    with on sent obtain h where p: "packet = spiffy_header_bytes h @ ?msg"
      by (auto simp: spiffy_sendto_def Let_def)
    have "take 116 packet = spiffy_header_bytes h @ take 100 ?msg" by (simp add: p)
    moreover have "take 100 (short_bytes ?w @ bs) = short_bytes ?w @ take 98 bs" by simp
    ultimately have got: "take 116 packet = spiffy_header_bytes h @ short_bytes ?w @ take 98 bs" by (simp only: bs(1))
    have "0 < length (take 116 packet)" unfolding got by simp
    then have "fst (snd (spiffy_recvfrom st mem' (Some (packet, sender)) buffer 100 a)) =
        overwrite buffer 0 (take 100 (drop 16 (overwrite (map mem' [0..<116]) 0 (take 116 packet))))"
      using True by (simp add: spiffy_recvfrom_def Let_def)
    also have "\<dots> = short_bytes ?w @ take 98 bs @ drop 100 buffer"
      unfolding got using bs(2) by (simp add: overwrite_def)
    finally show ?thesis by blast
  qed
  then obtain rest where "fst (snd (spiffy_recvfrom st mem' (Some (packet, sender)) buffer 100 a)) = short_bytes ?w @ rest"
    by blast
  then have "snd (server_turn st mem' (Some (packet, sender)) (buffer, a)) = unat (ntohs ?w)"
    by (simp add: server_turn_def case_prod_beta short_of_short_bytes [unfolded One_nat_def])
  also have "\<dots> = magic" using assms(3) by (simp add: htons_htons unat_of_nat take_bit_nat_eq_self)
  finally show ?thesis .
qed

theorem magic_number_arrives_witness:
  "\<exists>dest packet st.
     client_main (\<lambda>_. Some 1) (Some [0x61, 0x3a, 0x39]) (\<lambda>_ m. int (length m)) 3 True (\<lambda>_. 0)
       [[0x31], [0x35], [0x37], decimal 15441] = Inr (Running (0, Some (dest, packet))) \<and>
     server_start (\<lambda>_. Some 1) (Some [0x61, 0x3a, 0x39]) [[0x32], [0x37]] = Inr (Running st) \<and>
     giSpiffyEnabled st \<and>
     snd (server_turn st (\<lambda>_. 0) (Some (packet, dest)) (replicate 1500 9, dest)) = 15441"
proof -
  let ?aton = "\<lambda>_. Some 1" and ?env = "Some [0x61, 0x3a, 0x39] :: byte list option"
  obtain dest packet where c: "client_main ?aton ?env (\<lambda>_ m. int (length m)) 3 True (\<lambda>_. 0)
       [[0x31], [0x35], [0x37], decimal 15441] = Inr (Running (0, Some (dest, packet)))"
    by (simp add: client_main_def spiffy_init_def spiffy_sendto_def Let_def)
  obtain st where s: "server_start ?aton ?env [[0x32], [0x37]] = Inr (Running st)" and "giSpiffyEnabled st"
    by (simp add: server_start_def spiffy_init_def Let_def)
  with c magic_number_arrives [OF c s, of "replicate 1500 9" "\<lambda>_. 0" dest dest] show ?thesis by auto
qed

text \<open>With three arguments the client passes its own check and reads a fourth.\<close>

theorem client_reads_missing_argument:
  "client_main inet_aton env sendto 3 True mem [i, p, q] = Inl Null_Dereference"
  by (simp add: client_main_def Let_def split: prod.split)

section \<open>Keyboard input\<close>

definition printline :: "byte list \<Rightarrow> byte list list \<Rightarrow> byte list list result" where
  "printline line printed =
     Inr (printed @ [ascii ''LINE:  '' @ line, ascii ''CBDATA:  Cows moo!''])"

definition test_input_buffer_main :: "byte list list \<Rightarrow> (user_iobuf \<times> byte list list) process result" where
  "test_input_buffer_main texts = typed_pieces printline texts create_userbuf []"

section \<open>Hashes\<close>

text \<open>What is printed: the hash of a word in hexadecimal, and the same after reading it back.\<close>

definition chunk_test_main :: "(nat \<Rightarrow> byte) \<Rightarrow> byte list list process result" where
  "chunk_test_main mem =
     (case shahash mem (ascii ''dash'') 4 of
        None \<Rightarrow> Inl Endless_Loop
      | Some hash \<Rightarrow>
          let ascii1 = binary2hex hash
          in if length (c_string ascii1) \<noteq> 40 then Inr Aborted
             else
               let hash1 = hex2binary (c_string ascii1);
                   ascii2 = binary2hex hash1
               in Inr (Running [c_string ascii1, c_string ascii2]))"

lemma chunk_test_prints: "\<exists>text. chunk_test_main mem = Inr (Running [text, text]) \<and> hex2binary text = sha1 (ascii ''dash'')"
proof -
  have "length (ascii ''dash'') = 4" by (simp add: ascii_def)
  then have "shahash mem (ascii ''dash'') 4 = Some (sha1 (ascii ''dash''))"
    using shahash_sha1 [of "ascii ''dash''" mem] by simp
  moreover have "length (concat (map sprintf_2x (sha1 (ascii ''dash'')))) = 40"
    unfolding length_hex by (simp add: length_sha1)
  ultimately show ?thesis
    by (simp add: chunk_test_main_def c_string_hex hex2binary_pairs del: length_concat)
qed

section \<open>Debug flags\<close>

text \<open>Whether \<open>main\<close> complains about the result of \<open>set_debug("?")\<close> before it exits.\<close>

definition debug_test_main :: "c_int \<Rightarrow> bool" where
  "debug_test_main debug = (fst (set_debug (Some [0x3f]) debug) \<noteq> -1)"

lemma debug_test_passes: "\<not> debug_test_main debug"
  by (simp add: debug_test_main_def set_debug_def)

end
