(* ===== verification/Printing.thy ===== *)
theory Printing imports Peer_Inv Input_Buffer Chunk_Files begin

text \<open>
  What the program prints: the \<open>print_\<close> functions of \<open>packet.c\<close>, \<open>job.c\<close> and \<open>connection.c\<close>, the messages of
  \<open>bt_parse.c\<close> and the table of \<open>debug.c\<close>, as functions to the bytes printed. Printing a packet reads its
  payload and printing a connection follows its pointers, so these can fault. The calls are not repeated
  in the handlers of theory \<open>Peer\<close>, whose states they do not change.
\<close>

section \<open>Formats\<close>

text \<open>A line of output: what stands before the \<open>\\n\<close> of the format.\<close>

definition line :: "byte list \<Rightarrow> byte list" where
  "line l = l @ [0x0a]"

definition printf_d :: "int \<Rightarrow> byte list" where
  "printf_d i = (if i < 0 then ascii ''-'' @ decimal (nat (- i)) else decimal (nat i))"

text \<open>\<open>%5d\<close>: filled up with spaces on the left.\<close>

definition printf_5d :: "int \<Rightarrow> byte list" where
  "printf_5d i = (let d = printf_d i in replicate (5 - length d) 0x20 @ d)"

text \<open>An address in network order, byte by byte.\<close>

definition inet_ntoa :: "c_int \<Rightarrow> byte list" where
  "inet_ntoa a =
     (case map (decimal \<circ> unat) (int_bytes a) of
        [b0, b1, b2, b3] \<Rightarrow> b0 @ ascii ''.'' @ b1 @ ascii ''.'' @ b2 @ ascii ''.'' @ b3)"

text \<open>A loop that prints one thing after the other.\<close>

fun print_each :: "('a \<Rightarrow> byte list result) \<Rightarrow> 'a list \<Rightarrow> byte list result" where
  "print_each op [] = Inr []"
| "print_each op (x # xs) = andThen (op x) (\<lambda>out. andThen (print_each op xs) (\<lambda>rest. Inr (out @ rest)))"

section \<open>Packets\<close>

definition print_packet_header :: "header_s \<Rightarrow> byte list" where
  "print_packet_header h =
     line (ascii ''magic number: '' @ printf_d (sint (magic_number h)) @ ascii ''; '' @
           ascii ''version number: '' @ printf_d (sint (version_number h)) @ ascii ''; '' @
           ascii ''packet type: '' @ printf_d (sint (packet_type h))) @
     line (ascii ''header length: '' @ printf_d (sint (header_length h)) @ ascii ''; '' @
           ascii ''packet length: '' @ printf_d (sint (packet_length h))) @
     line (ascii ''sequence number: '' @ printf_d (sint (seq_number h))) @
     line (ascii ''acknowledgment number: '' @ printf_d (sint (ack_number h)))"

definition hash_line :: "byte list \<Rightarrow> byte list" where
  "hash_line h = line (ascii ''chunk hex hash: '' @ c_string (binary2hex h))"

text \<open>
  The body of the loop over the hashes of a packet: the number of hashes is a signed \<open>char\<close> that nothing
  bounds, so the read may lie behind the payload.
\<close>

definition print_hash_at :: "byte list \<Rightarrow> nat \<Rightarrow> byte list result" where
  "print_hash_at pl i =
     (if ALIGNMENT_BYTE_NUM + i * HASH_CHUNK_SIZE + SHA1_HASH_SIZE \<le> length pl
      then Inr (hash_line (take SHA1_HASH_SIZE (drop (ALIGNMENT_BYTE_NUM + i * HASH_CHUNK_SIZE) pl)))
      else Inl Buffer_Overflow)"

definition print_hashes :: "byte list \<Rightarrow> byte list result" where
  "print_hashes pl =
     (let hash_num = sint (pl ! 0)
      in andThen (print_each (print_hash_at pl) [0..<nat hash_num])
           (\<lambda>hashes. Inr (line (ascii ''total hash number: '' @ printf_d hash_num) @ hashes)))"

definition print_whohas_packet :: "network_packet_s \<Rightarrow> byte list result" where
  "print_whohas_packet p =
     andThen (print_hashes (payload p)) (\<lambda>hashes.
       Inr (line (ascii ''*******WHOHAS PACKET BEGIN*******'') @ print_packet_header (header p) @ hashes @
            line (ascii ''********WHOHAS PACKET END********'')))"

definition print_ihave_packet :: "network_packet_s \<Rightarrow> byte list result" where
  "print_ihave_packet p =
     andThen (print_hashes (payload p)) (\<lambda>hashes.
       Inr (line (ascii ''*******IHAVE PACKET BEGIN*******'') @ print_packet_header (header p) @ hashes @
            line (ascii ''********IHAVE PACKET END********'')))"

definition print_get_packet :: "network_packet_s \<Rightarrow> byte list" where
  "print_get_packet p =
     line (ascii ''*******GET PACKET BEGIN*******'') @ print_packet_header (header p) @
     hash_line (take SHA1_HASH_SIZE (payload p)) @ line (ascii ''********GET PACKET END********'')"

definition print_data_packet :: "network_packet_s \<Rightarrow> byte list" where
  "print_data_packet p =
     line (ascii ''*******DATA PACKET BEGIN*******'') @ print_packet_header (header p) @
     line (ascii ''********DATA PACKET END********'')"

definition print_ack_packet :: "network_packet_s \<Rightarrow> byte list" where
  "print_ack_packet p =
     line (ascii ''*******ACK PACKET BEGIN*******'') @ print_packet_header (header p) @
     line (ascii ''********ACK PACKET END********'')"

section \<open>Jobs and connections\<close>

definition print_chunk :: "chunk_s \<Rightarrow> byte list" where
  "print_chunk c = ascii ''chunk id: '' @ printf_d (ck_id c) @ ascii ''; '' @ hash_line (hash_binary c)"

definition print_job :: "job_s \<Rightarrow> byte list" where
  "print_job job =
     line (ascii ''*******JOB BEGIN*******'') @
     line (ascii ''chunk number: '' @ printf_d (int (length (chunks job)))) @
     concat (map print_chunk (chunks job)) @ line (ascii ''********JOB END********'')"

text \<open>The list \<open>init_hasChunks\<close> prints when it has read it.\<close>

definition print_has_chunks :: "chunk_s list \<Rightarrow> byte list" where
  "print_has_chunks has =
     line (ascii ''********CHUNKS I HAVE**********'') @ concat (map print_chunk has) @
     line (ascii ''*******END CHUNKS I HAVE********'')"

definition peer_line_out :: "bt_peer_s \<Rightarrow> byte list" where
  "peer_line_out p =
     line (ascii ''peer <'' @ printf_d (peer_id p) @ ascii ''>:'' @ inet_ntoa (sin_addr (peer_addr p)) @
           ascii '':'' @ printf_d (uint (ntohs (sin_port (peer_addr p)))))"

definition print_receiver_connection :: "peer_s \<Rightarrow> ptr \<Rightarrow> byte list result" where
  "print_receiver_connection s p =
     andThen (load_receiver s p) (\<lambda>rc.
     andThen (load_peer s (rc_provider rc)) (\<lambda>peer.
     andThen (print_each (\<lambda>r. andThen (load_job_chunk s r) (\<lambda>c. Inr (print_chunk c))) (chunk_list rc)) (\<lambda>chunks.
       Inr (line (ascii ''*******START RECEIVER CONNECTION********'') @ peer_line_out peer @ chunks @
            line (ascii ''*******END RECEIVER CONNECTION********'')))))"

definition print_provider_connection :: "peer_s \<Rightarrow> ptr \<Rightarrow> byte list result" where
  "print_provider_connection s p =
     andThen (load_provider s p) (\<lambda>pc.
     andThen (load_peer s (pc_receiver pc)) (\<lambda>peer.
       if pc_chunk pc < length (has_chunks s)
       then Inr (line (ascii ''*******START PROVIDER CONNECTION********'') @ peer_line_out peer @
                 print_chunk (has_chunks s ! pc_chunk pc) @
                 line (ascii ''*******END PROVIDER CONNECTION********''))
       else Inl Buffer_Overflow))"

text \<open>\<open>while (temp != NULL) { print(temp); temp = temp->next; }\<close>\<close>

fun print_list :: "(ptr \<Rightarrow> byte list result) \<Rightarrow> (ptr \<Rightarrow> ptr result) \<Rightarrow> nat \<Rightarrow> ptr \<Rightarrow> byte list result" where
  "print_list op nxt n None = Inr []"
| "print_list op nxt 0 (Some a) = Inl Endless_Loop"
| "print_list op nxt (Suc n) (Some a) =
     andThen (op (Some a)) (\<lambda>out. andThen (nxt (Some a)) (\<lambda>p.
       andThen (print_list op nxt n p) (\<lambda>rest. Inr (out @ rest))))"

definition connection_list_text :: "string \<Rightarrow> int \<Rightarrow> byte list \<Rightarrow> byte list" where
  "connection_list_text kind number blocks =
     line (ascii ''>>>>>>>>START '' @ ascii kind @ ascii '' CONNECTION LIST'') @
     line (ascii ''There are totoal '' @ printf_d number @ ascii '' connections'') @ blocks @
     line (ascii ''>>>>>>>>END '' @ ascii kind @ ascii '' CONNECTION LIST'')"

definition print_receiver_connection_list :: "peer_s \<Rightarrow> byte list result" where
  "print_receiver_connection_list s =
     andThen (get_receiver_connection_number s) (\<lambda>number.
     andThen (print_list (print_receiver_connection s) (receiver_next s) (brk (receivers s)) (receiver_connection_head s))
       (\<lambda>blocks. Inr (connection_list_text ''RECEIVER'' number blocks)))"

definition print_provider_connection_list :: "peer_s \<Rightarrow> byte list result" where
  "print_provider_connection_list s =
     andThen (get_provider_connection_number s) (\<lambda>number.
     andThen (print_list (print_provider_connection s) (provider_next s) (brk (providers s)) (provider_connection_head s))
       (\<lambda>blocks. Inr (connection_list_text ''PROVIDER'' number blocks)))"

section \<open>Messages of the configuration\<close>

definition bt_usage :: "byte list" where
  "bt_usage =
     line (ascii ''usage:  peer [-h] [-d <debug>] -p <peerfile> -c <chunkfile> -m <maxconn>'') @
     line (ascii ''            -f <master-chunk-file> -i <identity>'')"

definition bt_help :: "byte list" where
  "bt_help =
     bt_usage @
     line (ascii ''         -h                help (this message)'') @
     line (ascii ''         -p <peerfile>     The list of all peers'') @
     line (ascii ''         -c <chunkfile>    The list of chunks'') @
     line (ascii ''         -m <maxconn>      Max # of downloads'') @
     line (0x09 # ascii ''    -f <master-chunk> The master chunk file'') @
     line (ascii ''         -i <identity>     Which peer # am I?'')"

definition dump_peer :: "bt_peer_s \<Rightarrow> byte list" where
  "dump_peer p =
     line (ascii ''  peer '' @ printf_d (peer_id p) @ ascii '': '' @ inet_ntoa (sin_addr (peer_addr p)) @
           ascii '':'' @ printf_d (uint (ntohs (sin_port (peer_addr p)))))"

definition bt_dump_config :: "bt_config_s \<Rightarrow> byte list" where
  "bt_dump_config c =
     line (ascii ''15-441 PROJECT 2 PEER'') @ line [] @
     line (ascii ''chunk-file:     '' @ chunk_file c) @
     line (ascii ''has-chunk-file: '' @ has_chunk_file c) @
     line (ascii ''max-conn:       '' @ printf_d (max_conn c)) @
     line (ascii ''peer-identity:  '' @ printf_d (identity c)) @
     line (ascii ''peer-list-file: '' @ peer_list_file c) @
     concat (map dump_peer (peers c))"

section \<open>Debugging\<close>

definition DEBUG_NONE :: int where "DEBUG_NONE = 0x00"
definition DEBUG_ERRS :: int where "DEBUG_ERRS = 0x01"
definition DEBUG_INIT :: int where "DEBUG_INIT = 0x02"
definition DEBUG_SOCKETS :: int where "DEBUG_SOCKETS = 0x04"
definition DEBUG_PROCESSES :: int where "DEBUG_PROCESSES = 0x08"
definition DEBUG_SPIFFY :: int where "DEBUG_SPIFFY = 0x10"

text \<open>The table of \<open>debug-text.h\<close>, without the marker at its end.\<close>

definition debugs :: "(int \<times> byte list) list" where
  "debugs =
     [(DEBUG_NONE, ascii ''No debugging''),
      (DEBUG_ERRS, ascii ''Verbose error reporting''),
      (DEBUG_INIT, ascii ''Debug initialization''),
      (DEBUG_SOCKETS, ascii ''Debug socket operations''),
      (DEBUG_PROCESSES, ascii ''Debug processes (fork/reap/etc)''),
      (DEBUG_SPIFFY, ascii ''Debug the spiffy sending code'')]"

text \<open>What \<open>-d list\<close> prints.\<close>

definition debug_list :: "byte list" where
  "debug_list =
     line (ascii ''Debug values and definitions'') @ line (ascii ''----------------------------'') @
     concat (map (\<lambda>(debug_val, debug_def). line (printf_5d debug_val @ ascii ''  '' @ debug_def)) debugs)"

text \<open>A message of a level is printed if the mask has a bit of the level.\<close>

definition DPRINTF :: "c_int \<Rightarrow> int \<Rightarrow> byte list \<Rightarrow> byte list" where
  "DPRINTF debug level message = (if debug AND word_of_int level \<noteq> 0 then message else [])"

text \<open>
  What \<open>main\<close> prints itself: the level is \<open>debug0\<close> until the command line has been read, \<open>debug1\<close> behind it.
\<close>

definition main_messages :: "c_int \<Rightarrow> c_int \<Rightarrow> bt_config_s \<Rightarrow> byte list" where
  "main_messages debug0 debug1 cfg =
     DPRINTF debug0 DEBUG_INIT (line (ascii ''peer.c main beginning'')) @
     DPRINTF debug0 DEBUG_INIT (line (ascii ''bt_parse_command_line starting'')) @
     DPRINTF debug1 DEBUG_INIT (bt_dump_config cfg)"

section \<open>Printing in range\<close>

lemma print_each_Inr: "\<forall>x \<in> set xs. op x = Inr (f x) \<Longrightarrow> print_each op xs = Inr (concat (map f xs))"
  by (induction xs) simp_all

lemma print_each_Inl: "x \<in> set xs \<Longrightarrow> op x = Inl e \<Longrightarrow> (\<And>y. op y = Inl e \<or> (\<exists>out. op y = Inr out)) \<Longrightarrow>
    print_each op xs = Inl e"
proof (induction xs)
  case (Cons y xs)
  show ?case
  proof (cases "op y")
    case (Inl e')
    with Cons.prems(3) [of y] show ?thesis by simp
  next
    case (Inr out)
    with Cons.prems(1,2) have "x \<in> set xs" by auto
    with Cons.IH Cons.prems(2,3) Inr show ?thesis by simp
  qed
qed simp

lemma print_hashes_packet:
  assumes "length pl = 1484"
  shows "print_hashes pl =
    (if sint (pl ! 0) \<le> 74
     then Inr (line (ascii ''total hash number: '' @ printf_d (hash_count pl)) @ concat (map hash_line (announced_hashes pl)))
     else Inl Buffer_Overflow)"
proof (cases "sint (pl ! 0) \<le> 74")
  case True
  then have n: "hash_count pl = sint (pl ! 0)" by (simp add: hash_count_def)
  have "print_hash_at pl i = Inr (hash_line (hash_at pl i))" if "i < nat (sint (pl ! 0))" for i
    using that True assms by (simp add: print_hash_at_def hash_at_def SHA1_HASH_SIZE_def)
  then have "print_each (print_hash_at pl) [0..<nat (sint (pl ! 0))] =
      Inr (concat (map (\<lambda>i. hash_line (hash_at pl i)) [0..<nat (sint (pl ! 0))]))"
    by (intro print_each_Inr) simp
  with True show ?thesis
    by (simp add: print_hashes_def n announced_hashes_def comp_def Let_def)
next
  case False
  then have "74 \<in> set [0..<nat (sint (pl ! 0))]" by simp
  moreover have "print_hash_at pl 74 = Inl Buffer_Overflow"
    using assms by (simp add: print_hash_at_def SHA1_HASH_SIZE_def)
  ultimately have "print_each (print_hash_at pl) [0..<nat (sint (pl ! 0))] = Inl Buffer_Overflow"
    by (rule print_each_Inl) (simp add: print_hash_at_def)
  with False show ?thesis by (simp add: print_hashes_def Let_def)
qed

lemma print_list_path:
  assumes "\<forall>a \<in> set as. op (Some a) = Inr (f a)"
    and "\<And>j. j < length as \<Longrightarrow> nxt (Some (as ! j)) = Inr (address_from as (Suc j))"
    and "i \<le> length as" and "length as - i \<le> n"
  shows "print_list op nxt n (address_from as i) = Inr (concat (map f (drop i as)))"
  using assms(3,4)
proof (induction n arbitrary: i)
  case 0
  then show ?case by (simp add: address_from_def)
next
  case (Suc n)
  show ?case
  proof (cases "i < length as")
    case False
    with Suc.prems show ?thesis by (simp add: address_from_def)
  next
    case True
    with Suc.IH [of "Suc i"] Suc.prems
    have "print_list op nxt n (address_from as (Suc i)) = Inr (concat (map f (drop (Suc i) as)))" by simp
    with True assms(1,2) show ?thesis
      by (simp add: address_from_def [of as i] flip: Cons_nth_drop_Suc)
  qed
qed

section \<open>Reading the log back\<close>

text \<open>The hashes in the lines of a log that give the hash of a chunk.\<close>

definition logged_hashes :: "byte list \<Rightarrow> byte list list" where
  "logged_hashes out =
     map (hex2binary \<circ> drop 16) (filter (\<lambda>l. take 16 l = ascii ''chunk hex hash: '') (fst (lines_of out)))"

lemma logged_hashes_Nil [simp]: "logged_hashes [] = []"
  by (simp add: logged_hashes_def)

lemma logged_hashes_line:
  "0x0a \<notin> set l \<Longrightarrow> logged_hashes (line l @ out) =
    (if take 16 l = ascii ''chunk hex hash: '' then [hex2binary (drop 16 l)] else []) @ logged_hashes out"
  using lines_of_line [of l out] by (simp add: logged_hashes_def line_def)

text \<open>Every other line of the log begins with another letter.\<close>

lemma logged_hashes_other:
  assumes "0x0a \<notin> set l" and "l \<noteq> [] \<and> hd l \<noteq> 0x63"
  shows "logged_hashes (line l @ out) = logged_hashes out"
proof -
  have "hd (ascii ''chunk hex hash: '') = 0x63" by (simp add: ascii_def)
  then have "take 16 l \<noteq> ascii ''chunk hex hash: ''" using assms(2) by (metis hd_take zero_less_numeral)
  then show ?thesis using logged_hashes_line [OF assms(1)] by simp
qed

lemma printf_d_chars: "c \<in> set (printf_d i) \<Longrightarrow> is_digit c \<or> c = 0x2d"
  using decimal_digits [of "nat i"] decimal_digits [of "nat (- i)"]
  by (auto simp: printf_d_def ascii_def split: if_splits)

lemma printf_d_line: "0x0a \<notin> set (printf_d i)"
  using printf_d_chars [of "0x0a" i] by (auto simp: is_digit_def word_le_nat_alt)

lemma logged_hashes_header: "logged_hashes (print_packet_header h @ out) = logged_hashes out"
  by (simp add: print_packet_header_def logged_hashes_other printf_d_line ascii_def)

lemma logged_hashes_hash: "logged_hashes (hash_line h @ out) = h # logged_hashes out"
proof -
  let ?l = "ascii ''chunk hex hash: '' @ concat (map sprintf_2x h)"
  have "length (ascii ''chunk hex hash: '') = 16" by (simp add: ascii_def)
  moreover have "0x0a \<notin> set ?l" using hex_chars(3) [of "0x0a" h] by (auto simp: ascii_def)
  ultimately show ?thesis
    using logged_hashes_line [of ?l out] by (simp add: hash_line_def c_string_hex hex2binary_pairs)
qed

lemma logged_hashes_hashes: "logged_hashes (concat (map hash_line hs) @ out) = hs @ logged_hashes out"
  by (induction hs) (simp_all add: logged_hashes_hash)

lemma print_whohas_packet_in_range:
  assumes "length (payload p) = 1484" and "sint (payload p ! 0) \<le> 74"
  shows "\<exists>out. print_whohas_packet p = Inr out \<and>
    (\<forall>rest. logged_hashes (out @ rest) = announced_hashes (payload p) @ logged_hashes rest)"
  using assms
  by (simp add: print_whohas_packet_def print_hashes_packet logged_hashes_hashes logged_hashes_header
      logged_hashes_other printf_d_line ascii_def)

lemma print_whohas_packets:
  assumes "\<forall>p \<in> set ps. length (payload p) = 1484 \<and> sint (payload p ! 0) \<le> 74"
  shows "\<exists>out. print_each print_whohas_packet ps = Inr out \<and>
    logged_hashes out = concat (map (\<lambda>p. announced_hashes (payload p)) ps)"
  using assms
proof (induction ps)
  case (Cons p ps)
  then obtain out where "print_each print_whohas_packet ps = Inr out"
    "logged_hashes out = concat (map (\<lambda>p. announced_hashes (payload p)) ps)" by auto
  with print_whohas_packet_in_range [of p] Cons.prems show ?case by auto
qed simp

section \<open>Connections\<close>

text \<open>In a state of the main loop both lists of connections can be printed, one block for each connection.\<close>

lemma print_receiver_connection_Inr:
  assumes ok: "receive_ok s as L" and a: "a \<in> set as"
  shows "\<exists>out. print_receiver_connection s (Some a) = Inr out"
proof -
  from a obtain i where i: "i < length as" "a = as ! i" by (auto simp: in_set_conv_nth)
  then have i': "i < length L" using receive_list(2) [OF ok] by simp
  from receive_at [OF ok i'] obtain c where c: "cell (receivers s) (as ! i) = Some c" "rl.erase c = L ! i" by blast
  have rc: "rc_ok (chunk_states (jobs s)) (length (peers (config s))) (rl.erase c)"
    using ok i' c(2) by (simp add: receive_ok_def rinv_def)
  then obtain p where p: "rc_provider c = Some p" "p < length (peers (config s))"
    unfolding rc_ok_def by (metis erased_fields(2))
  have "\<exists>k. jchunk (jobs s) r = Some k" if "r \<in> set (chunk_list c)" for r
    using rc_ok_wanted [OF rc, of r] that by (auto simp: chunk_states_def)
  then have "\<forall>r \<in> set (chunk_list c). andThen (load_job_chunk s r) (\<lambda>c. Inr (print_chunk c)) =
      Inr (print_chunk (the (jchunk (jobs s) r)))" by fastforce
  from print_each_Inr [OF this] c(1) p i(2) show ?thesis
    by (simp add: print_receiver_connection_def load_receiver_def)
qed

lemma print_provider_connection_Inr:
  assumes ok: "provide_ok s ps L" and a: "a \<in> set ps"
  shows "\<exists>out. print_provider_connection s (Some a) = Inr out"
proof -
  from a obtain i where i: "i < length ps" "a = ps ! i" by (auto simp: in_set_conv_nth)
  then have "i < length L" using provide_length [OF ok] by simp
  from provide_at [OF ok this] obtain c where "cell (providers s) (ps ! i) = Some c"
    "serves (has_chunks s) (length (peers (config s))) c" by blast
  with i(2) show ?thesis
    by (auto simp: print_provider_connection_def load_provider_def serves_def loaded_def)
qed

theorem connection_lists_printed:
  assumes "peer_inv s"
  shows "\<exists>as ps f g. print_receiver_connection_list s = Inr (connection_list_text ''RECEIVER'' (int (length as)) (concat (map f as))) \<and>
    print_provider_connection_list s = Inr (connection_list_text ''PROVIDER'' (int (length ps)) (concat (map g ps))) \<and>
    ll_path rc_next (receivers s) (receiver_connection_head s) as \<and>
    ll_path pc_next (providers s) (provider_connection_head s) ps"
proof -
  from assms obtain as L ps M where r: "receive_ok s as L" and p: "provide_ok s ps M"
    by (auto simp: peer_inv_def receive_inv_def provide_inv_def)
  have paths: "ll_path rc_next (receivers s) (receiver_connection_head s) as"
    "ll_path pc_next (providers s) (provider_connection_head s) ps"
    using r p by (simp_all add: receive_ok_def rl.view_def provide_ok_def pl.view_def)
  from print_receiver_connection_Inr [OF r] obtain f where f: "\<forall>a \<in> set as. print_receiver_connection s (Some a) = Inr (f a)"
    by metis
  from print_provider_connection_Inr [OF p] obtain g where g: "\<forall>a \<in> set ps. print_provider_connection s (Some a) = Inr (g a)"
    by metis
  have "print_list (print_receiver_connection s) (receiver_next s) (brk (receivers s)) (address_from as 0) =
      Inr (concat (map f (drop 0 as)))"
    using receive_list [OF r] by (intro print_list_path [OF f] receive_next [OF r]) simp_all
  moreover have "print_list (print_provider_connection s) (provider_next s) (brk (providers s)) (address_from ps 0) =
      Inr (concat (map g (drop 0 ps)))"
    using provide_short [OF p] by (intro print_list_path [OF g] provide_next [OF p]) simp_all
  ultimately show ?thesis
    using receive_list [OF r] provide_head [OF p] provide_length [OF p] receive_number [OF r] provide_number [OF p] paths
    by (intro exI [of _ as] exI [of _ ps] exI [of _ f] exI [of _ g])
      (simp add: print_receiver_connection_list_def print_provider_connection_list_def)
qed

section \<open>Properties\<close>

text \<open>A packet that announces more than 74 hashes would be read behind its end.\<close>

lemma print_whohas_packet_overflow:
  "length (payload p) = MAX_PAYLOAD_LENGTH \<Longrightarrow> 74 < sint (payload p ! 0) \<Longrightarrow> print_whohas_packet p = Inl Buffer_Overflow"
  by (simp add: print_whohas_packet_def print_hashes_packet)

text \<open>
  C40. The log of a flood: printing the WHOHAS packets of a job reads nothing outside the packets, and the
  hexadecimal hashes in its lines, read back, are exactly the hashes of the missing chunks, in order.
\<close>

theorem flood_log_lists_missing:
  assumes "hashes_ok (chunks job)"
  shows "\<exists>out. print_each print_whohas_packet (malloc_all_whohas_packet mem job) = Inr out \<and>
    logged_hashes out = map hash_binary (filter not_found (chunks job))"
proof -
  have "length (payload p) = 1484 \<and> sint (payload p ! 0) \<le> 74" if "p \<in> set (malloc_all_whohas_packet mem job)" for p
    using malloc_all_whohas_packet_spec(3) [OF assms that] by (auto simp: sint_of_nat_byte)
  then show ?thesis
    using print_whohas_packets [of "malloc_all_whohas_packet mem job"] malloc_all_whohas_packet_spec(1) [OF assms, of mem]
    by auto
qed

theorem flood_log_lists_missing_witness:
  "\<exists>out. print_each print_whohas_packet
      (malloc_all_whohas_packet (\<lambda>_ _. 9) \<lparr>output_file_name = [], chunks = [example_chunk 0 1, example_chunk 1 2]\<rparr>) = Inr out \<and>
    logged_hashes out = [replicate 20 1, replicate 20 2]"
  using flood_log_lists_missing [of "\<lparr>output_file_name = [], chunks = [example_chunk 0 1, example_chunk 1 2]\<rparr>" "\<lambda>_ _. 9"]
  by (simp add: hashes_ok_def example_chunk_def not_found_def)

end
